(* ===== verification/Prelude.thy ===== *)
theory Prelude
  imports Main "HOL-Library.Word" "HOL-Library.Monad_Syntax"
begin

text \<open>
  Shared vocabulary of the development: the machine integers of the code, checked accesses to
  byte arrays, list facts the components share, and the collections their proofs draw on.

  A byte array of the code (a \<open>Vector<uint8_t>\<close>, a \<open>std::array\<close>, the buffer behind a
  \<open>const uint8_t*\<close>) is a list of bytes. Reading or writing out of its bounds is undefined in
  C++, so every access is checked and yields \<open>None\<close> out of range: a function of the model
  that returns \<open>Some\<close> has made no access out of bounds.
\<close>

unbundle bit_operations_syntax

type_synonym u8 = "8 word"
type_synonym u16 = "16 word"
type_synonym u32 = "32 word"
type_synonym u64 = "64 word"
type_synonym bytes = "8 word list"

named_theorems wire_defs "the encoders and decoders of the wire formats"
named_theorems op_defs "the operations of a component, unfolded in proofs over one step"

section \<open>Checked accesses\<close>

definition rd :: "'a list \<Rightarrow> nat \<Rightarrow> 'a option" where
  "rd xs i = (if i < length xs then Some (xs ! i) else None)"

definition wr :: "'a list \<Rightarrow> nat \<Rightarrow> 'a \<Rightarrow> 'a list option" where
  "wr xs i v = (if i < length xs then Some (xs[i := v]) else None)"

text \<open>\<open>slice xs i n\<close> reads \<open>n\<close> elements from \<open>i\<close>, the source range of a \<open>memcpy\<close>.\<close>

definition slice :: "'a list \<Rightarrow> nat \<Rightarrow> nat \<Rightarrow> 'a list option" where
  "slice xs i n = (if i + n \<le> length xs then Some (take n (drop i xs)) else None)"

text \<open>\<open>blit xs i ys\<close> overwrites \<open>xs\<close> from \<open>i\<close> with \<open>ys\<close>, the target range of a \<open>memcpy\<close>.\<close>

definition blit :: "'a list \<Rightarrow> nat \<Rightarrow> 'a list \<Rightarrow> 'a list option" where
  "blit xs i ys =
     (if i + length ys \<le> length xs
      then Some (take i xs @ ys @ drop (i + length ys) xs) else None)"

lemma rd_Some [simp]: "i < length xs \<Longrightarrow> rd xs i = Some (xs ! i)"
  by (simp add: rd_def)

lemma rd_eq_Some_iff: "rd xs i = Some v \<longleftrightarrow> i < length xs \<and> v = xs ! i"
  by (auto simp: rd_def)

lemma rd_eq_None_iff: "rd xs i = None \<longleftrightarrow> length xs \<le> i"
  by (auto simp: rd_def)

lemma wr_Some [simp]: "i < length xs \<Longrightarrow> wr xs i v = Some (xs[i := v])"
  by (simp add: wr_def)

lemma slice_Some [simp]: "i + n \<le> length xs \<Longrightarrow> slice xs i n = Some (take n (drop i xs))"
  by (simp add: slice_def)

lemma blit_Some [simp]:
  "i + length ys \<le> length xs \<Longrightarrow>
     blit xs i ys = Some (take i xs @ ys @ drop (i + length ys) xs)"
  by (simp add: blit_def)

lemma length_blit: "blit xs i ys = Some zs \<Longrightarrow> length zs = length xs"
  by (auto simp: blit_def split: if_splits)

text \<open>Accesses behind a prefix are accesses to the rest.\<close>

lemma rd_append_right [simp]: "rd (xs @ t) (length xs + i) = rd t i"
  by (simp add: rd_def)

lemma wr_append_right [simp]:
  "wr (xs @ t) (length xs + i) v = map_option ((@) xs) (wr t i v)"
  by (simp add: wr_def list_update_append)

lemma wr_append_right_0 [simp]: "wr (xs @ t) (length xs) v = map_option ((@) xs) (wr t 0 v)"
  using wr_append_right [of xs t 0 v] by simp

lemma blit_append_right [simp]:
  "blit (xs @ t) (length xs + i) ys = map_option ((@) xs) (blit t i ys)"
  by (simp add: blit_def)

section \<open>Lists\<close>

lemma take_Suc_drop: "i < length xs \<Longrightarrow> take (Suc n) (drop i xs) = xs ! i # take n (drop (Suc i) xs)"
  by (simp add: Cons_nth_drop_Suc [symmetric])

lemma nth_append_left [simp]: "i < length xs \<Longrightarrow> (xs @ ys) ! i = xs ! i"
  by (simp add: nth_append)

lemma list_eq_by_parts:
  "n \<le> length xs \<Longrightarrow> take n xs = ys \<Longrightarrow> drop n xs = zs \<Longrightarrow> xs = ys @ zs"
  by auto

lemma update_append_left [simp]:
  "i < length xs \<Longrightarrow> (xs @ ys)[i := v] = xs[i := v] @ ys"
  by (simp add: list_update_append)

lemma split_at_window:
  assumes "i + n \<le> length xs"
  obtains pre mid post where "xs = pre @ mid @ post" "length pre = i" "length mid = n"
proof
  show "xs = take i xs @ take n (drop i xs) @ drop (i + n) xs"
    by (metis append_take_drop_id drop_drop add.commute)
qed (use assms in auto)

text \<open>Lists of known length, spelled out: a header of a fixed format.\<close>

lemma length_Suc_conv_Cons: "length xs = Suc n \<Longrightarrow> \<exists>y ys. xs = y # ys \<and> length ys = n"
  by (cases xs) auto

section \<open>C strings\<close>

text \<open>What a callee that takes a C string reads in it.\<close>

definition c_string :: "string \<Rightarrow> string" where
  "c_string d = takeWhile (\<lambda>c. c \<noteq> CHR 0x00) d"

section \<open>Sixteen and thirty-two bit big-endian values\<close>

definition be16 :: "u16 \<Rightarrow> bytes" where
  "be16 v = [ucast (drop_bit 8 v), ucast v]"

definition be32 :: "u32 \<Rightarrow> bytes" where
  "be32 v = [ucast (drop_bit 24 v), ucast (drop_bit 16 v), ucast (drop_bit 8 v), ucast v]"

definition of_be16 :: "u8 \<Rightarrow> u8 \<Rightarrow> u16" where
  "of_be16 hi lo = push_bit 8 (ucast hi) OR ucast lo"

definition of_be32 :: "u8 \<Rightarrow> u8 \<Rightarrow> u8 \<Rightarrow> u8 \<Rightarrow> u32" where
  "of_be32 a b c d =
     push_bit 24 (ucast a) OR push_bit 16 (ucast b) OR push_bit 8 (ucast c) OR ucast d"

lemma length_be16 [simp]: "length (be16 v) = 2"
  by (simp add: be16_def)

lemma length_be32 [simp]: "length (be32 v) = 4"
  by (simp add: be32_def)

lemma of_be16_be16: "of_be16 (ucast (drop_bit 8 v)) (ucast v) = v"
  by (rule bit_word_eqI) (auto simp: of_be16_def bit_simps)

lemma of_be32_be32:
  "of_be32 (ucast (drop_bit 24 v)) (ucast (drop_bit 16 v)) (ucast (drop_bit 8 v)) (ucast v) = v"
proof (rule bit_word_eqI)
  fix n assume "n < LENGTH(32)"
  then consider "n < 8" | "8 \<le> n" "n < 16" | "16 \<le> n" "n < 24" | "24 \<le> n" "n < 32"
    by fastforce
  then show "bit (of_be32 (ucast (drop_bit 24 v)) (ucast (drop_bit 16 v)) (ucast (drop_bit 8 v))
      (ucast v)) n = bit v n"
    by cases (auto simp: of_be32_def bit_simps)
qed

lemma no_bit_past_byte [simp]: "\<not> bit (b :: u8) (8 + n)"
  using bit_imp_le_length [of b "8 + n"] by auto

lemma be16_of_be16: "be16 (of_be16 hi lo) = [hi, lo]"
  by (auto simp: be16_def of_be16_def bit_simps intro!: bit_word_eqI)

lemma byte_mask: "(0xff :: 'a::len word) = mask 8"
  by (simp add: mask_eq_exp_minus_1)

lemma byte_and_ff [simp]: "b AND 0xff = (b :: u8)"
  unfolding byte_mask by (rule bit_word_eqI) (auto simp: bit_simps)

lemma high_byte_of_length:
  assumes "n < 65536"
  shows "word_of_nat (n div 256) = (ucast (drop_bit 8 (word_of_nat n :: u16)) :: u8)"
proof -
  have "drop_bit 8 (word_of_nat n :: u16) = word_of_nat (n div 256)"
    using assms
    by (simp add: word_unat_eq_iff unsigned_drop_bit_eq unsigned_of_nat take_bit_nat_eq_self
        drop_bit_eq_div unat_div_distrib)
  moreover have "ucast (word_of_nat (n div 256) :: u16) = (word_of_nat (n div 256) :: u8)"
    using assms by (simp add: unsigned_of_nat take_bit_nat_eq_self unat_div_distrib)
  ultimately show ?thesis by simp
qed

lemma window_of_prefix: "i + n \<le> m \<Longrightarrow> take n (drop i (take m xs)) = take n (drop i xs)"
  by (simp add: drop_take min_absorb1)

lemma chunk: "drop i f = take n (drop i f) @ drop (i + n) f"
  using append_take_drop_id [of n "drop i f"] by (simp add: add.commute del: append_take_drop_id)

lemma take_two: "i + 2 \<le> length f \<Longrightarrow> take 2 (drop i f) = [f ! i, f ! (i + 1)]"
  by (simp add: numeral_2_eq_2 take_Suc_drop)

end
