(* ===== verification/Dns_Wire.thy ===== *)
theory Dns_Wire
  imports Prelude
begin

text \<open>
  The wire helpers of src/ESPressio_DnsServerPlatform.hpp (namespace \<open>Detail\<close>): the big-endian
  readers and writers and \<open>DecodeDnsName\<close>, the decoder of a possibly compressed domain name.

  The decoder is a loop over a cursor; it terminates because at most eight compression pointers
  are followed and the cursor only grows between two of them. It is compared with a grammar
  \<open>name_at\<close> of compressed names, which has no loop, no counters and no output array: the decoder
  accepts exactly the names of the grammar that use at most eight pointers and spell at most 253
  bytes, and it never reads outside the packet nor writes outside its 254 byte output.
\<close>

section \<open>Big-endian access\<close>

definition read_dns16 :: "bytes \<Rightarrow> nat \<Rightarrow> u16 option" where
  "read_dns16 data i = do {
     hi \<leftarrow> rd data i;
     lo \<leftarrow> rd data (i + 1);
     Some (push_bit 8 (ucast hi) OR ucast lo)
   }"

definition read_dns32 :: "bytes \<Rightarrow> nat \<Rightarrow> u32 option" where
  "read_dns32 data i = do {
     a \<leftarrow> rd data i;
     b \<leftarrow> rd data (i + 1);
     c \<leftarrow> rd data (i + 2);
     d \<leftarrow> rd data (i + 3);
     Some (push_bit 24 (ucast a) OR push_bit 16 (ucast b) OR push_bit 8 (ucast c) OR ucast d)
   }"

definition write_dns16 :: "bytes \<Rightarrow> nat \<Rightarrow> u16 \<Rightarrow> bytes option" where
  "write_dns16 data i v = do {
     d1 \<leftarrow> wr data i (ucast (drop_bit 8 v AND 0xff));
     wr d1 (i + 1) (ucast (v AND 0xff))
   }"

definition write_dns32 :: "bytes \<Rightarrow> nat \<Rightarrow> u32 \<Rightarrow> bytes option" where
  "write_dns32 data i v = do {
     d1 \<leftarrow> wr data i (ucast (drop_bit 24 v AND 0xff));
     d2 \<leftarrow> wr d1 (i + 1) (ucast (drop_bit 16 v AND 0xff));
     d3 \<leftarrow> wr d2 (i + 2) (ucast (drop_bit 8 v AND 0xff));
     wr d3 (i + 3) (ucast (v AND 0xff))
   }"

lemma ucast_mask_byte [simp]: "(ucast (v AND 0xff) :: u8) = ucast (v :: 'a::len word)"
  unfolding byte_mask by (rule bit_word_eqI) (auto simp: bit_simps dest: bit_imp_le_length)

lemma read_dns16_eq:
  "i + 1 < length d \<Longrightarrow> read_dns16 d i = Some (of_be16 (d ! i) (d ! (i + 1)))"
  by (simp add: read_dns16_def of_be16_def)

lemma read_dns16_None_iff [simp]: "read_dns16 d i = None \<longleftrightarrow> length d \<le> i + 1"
  by (auto simp: read_dns16_def rd_def split: bind_splits if_splits)

lemma write_dns16_blit: "write_dns16 d i v = blit d i (be16 v)"
proof (cases "i + 2 \<le> length d")
  case True
  then obtain pre mid post where "d = pre @ mid @ post" "length pre = i" "length mid = 2"
    by (rule split_at_window)
  then show ?thesis
    by (auto simp: numeral_2_eq_2 length_Suc_conv write_dns16_def blit_def be16_def
        list_update_append)
qed (auto simp: write_dns16_def blit_def wr_def split: bind_splits)

lemma write_dns32_blit: "write_dns32 d i v = blit d i (be32 v)"
proof (cases "i + 4 \<le> length d")
  case True
  then obtain pre mid post where "d = pre @ mid @ post" "length pre = i" "length mid = 4"
    by (rule split_at_window)
  then show ?thesis
    by (auto simp: numeral_eq_Suc length_Suc_conv write_dns32_def blit_def be32_def
        list_update_append)
qed (auto simp: write_dns32_def blit_def wr_def split: bind_splits)

lemma write_dns16_append_right [simp]:
  "write_dns16 (xs @ t) (length xs + i) v = map_option ((@) xs) (write_dns16 t i v)"
  by (simp add: write_dns16_blit)

lemma write_dns32_append_right [simp]:
  "write_dns32 (xs @ t) (length xs + i) v = map_option ((@) xs) (write_dns32 t i v)"
  by (simp add: write_dns32_blit)

lemma read_write_dns16: "write_dns16 d i v = Some d' \<Longrightarrow> read_dns16 d' i = Some v"
  by (auto simp: write_dns16_def wr_def read_dns16_eq of_be16_be16 split: if_splits bind_splits)

section \<open>DecodeDnsName\<close>

text \<open>
  The result of the decoder: the decoded bytes and \<open>encodedEnd\<close> when it returns true, or
  \<open>NameBad\<close> when it returns false (its callers then ignore the output parameters). The
  outer \<open>option\<close> is \<open>None\<close> for an access out of bounds.
\<close>

datatype name_outcome = NameOk bytes nat | NameBad

text \<open>
  The output array has 254 bytes; \<open>out\<close> is its used prefix, so \<open>outputLength\<close> is
  \<open>length out\<close>. Writing at \<open>output + outputLength\<close> stays inside the array or is out of bounds.
\<close>

definition put_output :: "bytes \<Rightarrow> bytes \<Rightarrow> bytes option" where
  "put_output out bs = (if length out + length bs \<le> 254 then Some (out @ bs) else None)"

text \<open>The separator and the bounds checks before a label is copied: \<open>None\<close> inside is \<open>return false\<close>.\<close>

definition put_label :: "bytes \<Rightarrow> bytes \<Rightarrow> bytes option option" where
  "put_label out label =
     (if out \<noteq> [] \<and> length out \<ge> 254 - 1 then Some None
      else do {
        out1 \<leftarrow> (if out \<noteq> [] then put_output out [0x2e] else Some out);
        if length out1 + length label > 253 then Some None
        else do {
          out2 \<leftarrow> put_output out1 label;
          Some (Some out2)
        }
      })"

function decode_name_loop ::
    "bytes \<Rightarrow> nat \<Rightarrow> nat \<Rightarrow> bool \<Rightarrow> bytes \<Rightarrow> nat \<Rightarrow> name_outcome option" where
  "decode_name_loop packet cursor jumps jumped out encoded_end =
     (if \<not> cursor < length packet then Some NameBad
      else do {
        len \<leftarrow> rd packet cursor;
        if len = 0 then
          (let encoded_end' = (if jumped then encoded_end else cursor + 1)
           in Some (if length out \<le> 253 then NameOk out encoded_end' else NameBad))
        else if len AND 0xc0 = 0xc0 then
          (if cursor + 1 \<ge> length packet \<or> jumps + 1 > 8 then Some NameBad
           else do {
             lo \<leftarrow> rd packet (cursor + 1);
             let pointer = unat (push_bit 8 (ucast (len AND 0x3f)) OR ucast lo :: u16);
             if pointer \<ge> length packet then Some NameBad
             else decode_name_loop packet pointer (jumps + 1) True out
                    (if jumped then encoded_end else cursor + 2)
           })
        else if len AND 0xc0 \<noteq> 0 \<or> len > 63 then Some NameBad
        else if cursor + 1 + unat len > length packet then Some NameBad
        else do {
          label \<leftarrow> slice packet (cursor + 1) (unat len);
          placed \<leftarrow> put_label out label;
          (case placed of
             None \<Rightarrow> Some NameBad
           | Some out' \<Rightarrow>
               decode_name_loop packet (cursor + 1 + unat len) jumps jumped out'
                 (if jumped then encoded_end else cursor + 1 + unat len))
        }
      })"
  by pat_completeness auto
termination
  by (relation "measures [\<lambda>(p, c, j, d, ou, e). 9 - j, \<lambda>(p, c, j, d, ou, e). length p - c]")
    (auto simp: rd_eq_Some_iff)

declare decode_name_loop.simps [simp del]

definition decode_dns_name :: "bytes \<Rightarrow> nat \<Rightarrow> name_outcome option" where
  "decode_dns_name packet start = decode_name_loop packet start 0 False [] start"

section \<open>The grammar of compressed names\<close>

definition pointer_target :: "u8 \<Rightarrow> u8 \<Rightarrow> nat" where
  "pointer_target hi lo = unat (of_be16 (hi AND 0x3f) lo)"

text \<open>
  \<open>name_at p c j ls e\<close>: at offset \<open>c\<close> of packet \<open>p\<close> stands a name with the labels \<open>ls\<close>,
  spelled with \<open>j\<close> compression pointers, whose encoding at \<open>c\<close> itself ends before \<open>e\<close>.
\<close>

inductive name_at :: "bytes \<Rightarrow> nat \<Rightarrow> nat \<Rightarrow> bytes list \<Rightarrow> nat \<Rightarrow> bool" where
  root: "c < length p \<Longrightarrow> p ! c = 0 \<Longrightarrow> name_at p c 0 [] (c + 1)"
| label: "c < length p \<Longrightarrow> n = unat (p ! c) \<Longrightarrow> 0 < n \<Longrightarrow> n \<le> 63 \<Longrightarrow>
    c + 1 + n \<le> length p \<Longrightarrow> name_at p (c + 1 + n) j ls e \<Longrightarrow>
    name_at p c j (take n (drop (c + 1) p) # ls) e"
| pointer: "c + 1 < length p \<Longrightarrow> p ! c AND 0xc0 = 0xc0 \<Longrightarrow>
    t = pointer_target (p ! c) (p ! (c + 1)) \<Longrightarrow> t < length p \<Longrightarrow>
    name_at p t j ls e \<Longrightarrow> name_at p c (Suc j) ls (c + 2)"

text \<open>The dotted spelling of the labels, after the text already written.\<close>

fun dotted_from :: "bytes \<Rightarrow> bytes list \<Rightarrow> bytes" where
  "dotted_from out [] = out"
| "dotted_from out (l # ls) = dotted_from ((if out = [] then [] else out @ [0x2e]) @ l) ls"

definition dotted :: "bytes list \<Rightarrow> bytes" where
  "dotted ls = dotted_from [] ls"

lemma length_dotted_from: "length out \<le> length (dotted_from out ls)"
  by (induction out ls rule: dotted_from.induct) (auto split: if_splits)

text \<open>The two high bits of a length byte: 00 a label, 11 a pointer, 01 and 10 reserved.\<close>

lemma high_bits_mask: "(0xc0 :: u8) = NOT (mask 6)"
  by (simp add: mask_eq_exp_minus_1)

lemma high_bits_zero_iff: "(b :: u8) AND 0xc0 = 0 \<longleftrightarrow> unat b \<le> 63"
proof -
  have "b AND 0xc0 = 0 \<longleftrightarrow> take_bit 6 b = b"
    unfolding high_bits_mask by (auto simp: bit_eq_iff bit_simps)
  also have "\<dots> \<longleftrightarrow> unat (take_bit 6 b) = unat b" by (metis word_unat_eq_iff)
  also have "\<dots> \<longleftrightarrow> unat b \<le> 63"
    by (simp only: unsigned_take_bit_eq take_bit_nat_eq_self_iff) auto
  finally show ?thesis .
qed

lemma label_byte_not_pointer: "unat (b :: u8) \<le> 63 \<Longrightarrow> b AND 0xc0 \<noteq> 0xc0"
  using high_bits_zero_iff [of b] by auto

lemma pointer_byte_not_zero: "(b :: u8) AND 0xc0 = 0xc0 \<Longrightarrow> b \<noteq> 0"
  by auto

section \<open>The decoder against the grammar\<close>

definition joined :: "bytes \<Rightarrow> bytes \<Rightarrow> bytes" where
  "joined out l = (if out = [] then [] else out @ [0x2e]) @ l"

lemma dotted_from_Cons [simp]: "dotted_from out (l # ls) = dotted_from (joined out l) ls"
  by (simp add: joined_def)

declare dotted_from.simps(2) [simp del]

lemma put_label_eq:
  "length out \<le> 253 \<Longrightarrow> l \<noteq> [] \<Longrightarrow>
     put_label out l = Some (if length (joined out l) \<le> 253 then Some (joined out l) else None)"
  by (cases "out = []") (auto simp: put_label_def put_output_def joined_def Suc_le_eq)

lemma joined_fits:
  "length (dotted_from (joined out l) ls) \<le> n \<Longrightarrow> length (joined out l) \<le> n"
  using length_dotted_from [of "joined out l" ls] by simp

text \<open>One turn of the loop, by the kind of the byte under the cursor.\<close>

lemma loop_past_end: "\<not> c < length p \<Longrightarrow> decode_name_loop p c j d out e = Some NameBad"
  by (simp add: decode_name_loop.simps)

lemma loop_root:
  "c < length p \<Longrightarrow> p ! c = 0 \<Longrightarrow> decode_name_loop p c j d out e =
     Some (if length out \<le> 253 then NameOk out (if d then e else c + 1) else NameBad)"
  by (simp add: decode_name_loop.simps [of p c j d out e])

lemma loop_pointer:
  "c < length p \<Longrightarrow> p ! c AND 0xc0 = 0xc0 \<Longrightarrow> decode_name_loop p c j d out e =
     (if length p \<le> c + 1 \<or> 8 < j + 1 \<or> length p \<le> pointer_target (p ! c) (p ! (c + 1))
      then Some NameBad
      else decode_name_loop p (pointer_target (p ! c) (p ! (c + 1))) (j + 1) True out
             (if d then e else c + 2))"
  using pointer_byte_not_zero [of "p ! c"]
  by (simp add: decode_name_loop.simps [of p c j d out e] pointer_target_def of_be16_def)

lemma loop_label:
  "c < length p \<Longrightarrow> 0 < unat (p ! c) \<Longrightarrow> unat (p ! c) \<le> 63 \<Longrightarrow> length out \<le> 253 \<Longrightarrow>
   decode_name_loop p c j d out e =
     (if length p < c + 1 + unat (p ! c) then Some NameBad
      else let l = take (unat (p ! c)) (drop (c + 1) p) in
        if length (joined out l) \<le> 253
        then decode_name_loop p (c + 1 + unat (p ! c)) j d (joined out l)
               (if d then e else c + 1 + unat (p ! c))
        else Some NameBad)"
  using high_bits_zero_iff [of "p ! c"] label_byte_not_pointer [of "p ! c"]
  by (auto simp: decode_name_loop.simps [of p c j d out e] put_label_eq Let_def
      word_less_nat_alt)

lemma loop_reserved:
  "c < length p \<Longrightarrow> p ! c AND 0xc0 \<noteq> 0xc0 \<Longrightarrow> 63 < unat (p ! c) \<Longrightarrow>
     decode_name_loop p c j d out e = Some NameBad"
  using high_bits_zero_iff [of "p ! c"]
  by (auto simp: decode_name_loop.simps [of p c j d out e])

lemma byte_kinds:
  fixes b :: u8
  obtains (zero) "b = 0" | (ptr) "b AND 0xc0 = 0xc0"
    | (lab) "0 < unat b" "unat b \<le> 63" | (reserved) "b AND 0xc0 \<noteq> 0xc0" "63 < unat b"
  by (cases "b = 0"; cases "b AND 0xc0 = 0xc0"; cases "unat b \<le> 63") (auto simp: unat_gt_0)

lemmas loop_turn = loop_past_end loop_root loop_pointer loop_label loop_reserved

text \<open>
  The induction every proof about the loop uses: the pointer branch may go anywhere but uses up
  one of eight jumps, every other branch moves the cursor forward inside the packet.
\<close>

lemma loop_induct [case_names turn]:
  assumes "\<And>c j d out e.
      (\<And>c' out' e'. j < 8 \<Longrightarrow> P c' (j + 1) True out' e') \<Longrightarrow>
      (\<And>c' out' e'. c < c' \<Longrightarrow> c' \<le> n \<Longrightarrow> P c' j d out' e') \<Longrightarrow> P c j d out e"
  shows "P (c :: nat) (j :: nat) (d :: bool) (out :: bytes) (e :: nat)"
  using assms
  apply induction_schema
    apply pat_completeness
   apply (relation "measures [\<lambda>(c, j, d, ou, e). 8 - j, \<lambda>(c, j, d, ou, e). n - c]")
    apply auto
  done

lemma decode_loop_in_bounds:
  "length out \<le> 253 \<Longrightarrow> decode_name_loop p c j d out e \<noteq> None"
proof (induction c j d out e rule: loop_induct [where n = "length p"])
  case (turn c j d out e)
  then show ?case
    by (cases "c < length p"; cases "p ! c" rule: byte_kinds)
      (auto simp: loop_turn Let_def simp del: not_None_eq)
qed

lemma decode_loop_sound:
  "length out \<le> 253 \<Longrightarrow> decode_name_loop p c j d out e = Some (NameOk nm r) \<Longrightarrow>
     \<exists>k ls r'. name_at p c k ls r' \<and> j + k \<le> max j 8 \<and> nm = dotted_from out ls \<and>
       length nm \<le> 253 \<and> r = (if d then e else r')"
proof (induction c j d out e rule: loop_induct [where n = "length p"])
  case (turn c j d out e)
  show ?case
  proof (cases "c < length p")
    case c: True
    show ?thesis
    proof (cases "p ! c" rule: byte_kinds)
      case zero
      then show ?thesis using turn c name_at.root [OF c zero]
        by (fastforce simp: loop_root split: if_splits)
    next
      case ptr
      let ?t = "pointer_target (p ! c) (p ! (c + 1))"
      from ptr turn(4) c have j: "j < 8" and t: "c + 1 < length p" "?t < length p"
        and dec: "decode_name_loop p ?t (j + 1) True out (if d then e else c + 2) =
          Some (NameOk nm r)"
        by (auto simp: loop_pointer split: if_splits)
      from turn(1) [OF j turn(3) dec] obtain k ls r' where at: "name_at p ?t k ls r'"
        and k: "j + 1 + k \<le> max (j + 1) 8" "nm = dotted_from out ls" "length nm \<le> 253"
          "r = (if d then e else c + 2)"
        by auto
      from name_at.pointer [OF t(1) ptr refl t(2) at] k j show ?thesis
        by (intro exI [of _ "Suc k"] exI [of _ ls] exI [of _ "c + 2"]) auto
    next
      case lab
      let ?n = "unat (p ! c)" and ?l = "take (unat (p ! c)) (drop (c + 1) p)"
      from lab turn(3,4) c have t: "c + 1 + ?n \<le> length p" "length (joined out ?l) \<le> 253"
        and dec: "decode_name_loop p (c + 1 + ?n) j d (joined out ?l)
          (if d then e else c + 1 + ?n) = Some (NameOk nm r)"
        by (auto simp: loop_label Let_def split: if_splits)
      have "c < c + 1 + ?n" by simp
      from turn(2) [OF this t dec] obtain k ls r' where at: "name_at p (c + 1 + ?n) k ls r'"
        and k: "j + k \<le> max j 8" "nm = dotted_from (joined out ?l) ls" "length nm \<le> 253"
          "r = (if d then e else r')"
        by (auto split: if_splits)
      from name_at.label [OF c refl lab t(1) at] k show ?thesis
        by (intro exI [of _ k] exI [of _ "?l # ls"] exI [of _ r']) auto
    qed (use turn c in \<open>auto simp: loop_reserved\<close>)
  qed (use turn in \<open>simp add: loop_past_end\<close>)
qed

lemma decode_loop_complete:
  "name_at p c k ls r \<Longrightarrow> j + k \<le> 8 \<Longrightarrow> length (dotted_from out ls) \<le> 253 \<Longrightarrow>
     decode_name_loop p c j d out e = Some (NameOk (dotted_from out ls) (if d then e else r))"
proof (induction arbitrary: j d out e rule: name_at.induct)
  case (root c p)
  then show ?case by (simp add: loop_root)
next
  case (label c p n j' ls e')
  then show ?case
    using joined_fits [of out "take n (drop (c + 1) p)" ls 253] length_dotted_from [of out]
    by (auto simp: loop_label Let_def joined_def split: if_splits)
next
  case (pointer c p t j' ls e')
  then show ?case by (auto simp: loop_pointer)
qed

lemma name_at_bounds: "name_at p c k ls e \<Longrightarrow> c < e \<and> e \<le> length p"
  by (induction rule: name_at.induct) auto

text \<open>The grammar is unambiguous: an offset spells at most one name.\<close>

inductive_cases name_atE: "name_at p c j ls e"

lemma label_byte_not_zero: "0 < unat (b :: u8) \<Longrightarrow> b \<noteq> 0"
  by auto

lemma name_at_unique:
  "name_at p c j ls e \<Longrightarrow> name_at p c j' ls' e' \<Longrightarrow> j' = j \<and> ls' = ls \<and> e' = e"
proof (induction arbitrary: j' ls' e' rule: name_at.induct)
  case (root c p)
  from root.prems show ?case by (rule name_atE) (use root.hyps(2) in \<open>auto dest: label_byte_not_pointer\<close>)
next
  case (label c p n j ls e)
  from label.prems show ?case
    by (rule name_atE)
      (use label.hyps(2-4) label.IH in \<open>auto dest: label_byte_not_pointer label_byte_not_zero\<close>)
next
  case (pointer c p t j ls e)
  from pointer.prems show ?case
    by (rule name_atE)
      (use pointer.hyps(2,3) pointer.IH in \<open>auto dest: label_byte_not_pointer pointer_byte_not_zero\<close>)
qed

lemma decode_dns_name_total [simp]: "decode_dns_name p s \<noteq> None"
  unfolding decode_dns_name_def by (rule decode_loop_in_bounds) simp

lemma decode_dns_name_iff:
  "decode_dns_name p s = Some (NameOk nm e) \<longleftrightarrow>
     (\<exists>k ls. name_at p s k ls e \<and> k \<le> 8 \<and> nm = dotted ls \<and> length nm \<le> 253)"
proof
  assume "decode_dns_name p s = Some (NameOk nm e)"
  then show "\<exists>k ls. name_at p s k ls e \<and> k \<le> 8 \<and> nm = dotted ls \<and> length nm \<le> 253"
    unfolding decode_dns_name_def dotted_def
    using decode_loop_sound [of "[]" p s 0 False s nm e] by auto
next
  assume "\<exists>k ls. name_at p s k ls e \<and> k \<le> 8 \<and> nm = dotted ls \<and> length nm \<le> 253"
  then obtain k ls where "name_at p s k ls e" "k \<le> 8" "nm = dotted ls" "length nm \<le> 253"
    by blast
  then show "decode_dns_name p s = Some (NameOk nm e)"
    using decode_loop_complete [of p s k ls e 0 "[]" False s]
    by (simp add: decode_dns_name_def dotted_def)
qed

lemma decode_dns_name_end:
  "decode_dns_name p s = Some (NameOk nm e) \<Longrightarrow> length nm \<le> 253 \<and> s < e \<and> e \<le> length p"
  by (auto simp: decode_dns_name_iff dest: name_at_bounds)

section \<open>Plain encodings\<close>

text \<open>The uncompressed encoding of a list of labels, to state what the decoder makes of it.\<close>

definition encode_label :: "bytes \<Rightarrow> bytes" where
  "encode_label l = word_of_nat (length l) # l"

definition encode_name :: "bytes list \<Rightarrow> bytes" where
  "encode_name ls = concat (map encode_label ls) @ [0]"

definition valid_labels :: "bytes list \<Rightarrow> bool" where
  "valid_labels ls \<longleftrightarrow>
     list_all (\<lambda>l. l \<noteq> [] \<and> length l \<le> 63) ls \<and> length (dotted ls) \<le> 253"

lemma name_at_encode:
  "list_all (\<lambda>l. l \<noteq> [] \<and> length l \<le> 63) ls \<Longrightarrow>
     name_at (pre @ encode_name ls @ post) (length pre) 0 ls (length pre + length (encode_name ls))"
proof (induction ls arbitrary: pre)
  case Nil
  then show ?case
    using name_at.root [of "length pre" "pre @ 0 # post"] by (simp add: encode_name_def)
next
  case (Cons l ls)
  let ?p = "pre @ encode_name (l # ls) @ post"
  have len: "unat (word_of_nat (length l) :: u8) = length l"
    using Cons.prems by (simp add: unsigned_of_nat take_bit_nat_eq_self)
  have "name_at ?p (length (pre @ encode_label l)) 0 ls
      (length (pre @ encode_label l) + length (encode_name ls))"
    using Cons.IH [of "pre @ encode_label l"] Cons.prems by (simp add: encode_name_def)
  then have "name_at ?p (length pre + 1 + length l) 0 ls (length pre + length (encode_name (l # ls)))"
    by (simp add: encode_name_def encode_label_def algebra_simps)
  then have "name_at ?p (length pre) 0 (take (length l) (drop (length pre + 1) ?p) # ls)
      (length pre + length (encode_name (l # ls)))"
    using Cons.prems
    by (intro name_at.label) (auto simp: encode_name_def encode_label_def nth_append len Suc_le_eq)
  then show ?case by (simp add: encode_name_def encode_label_def)
qed

lemma decode_encode_name:
  "valid_labels ls \<Longrightarrow>
     decode_dns_name (pre @ encode_name ls @ post) (length pre) =
       Some (NameOk (dotted ls) (length pre + length (encode_name ls)))"
  unfolding decode_dns_name_iff valid_labels_def
  using name_at_encode [of ls pre post] by blast

text \<open>A pointer to a name decodes to the same name; only the two pointer bytes are consumed.\<close>

lemma decode_pointer_to_name:
  assumes "name_at p t k ls e" "k < 8" "length (dotted ls) \<le> 253"
    and "c + 1 < length p" "p ! c AND 0xc0 = 0xc0" "pointer_target (p ! c) (p ! (c + 1)) = t"
    and "t < length p"
  shows "decode_dns_name p c = Some (NameOk (dotted ls) (c + 2))"
  unfolding decode_dns_name_iff
  using name_at.pointer [of c p t k ls e] assms by (intro exI [of _ "Suc k"] exI [of _ ls]) auto

text \<open>A pointer to itself is refused after the eighth jump.\<close>

lemma name_at_self_pointer:
  "name_at p c k ls e \<Longrightarrow> p ! c AND 0xc0 = 0xc0 \<Longrightarrow>
     pointer_target (p ! c) (p ! (c + 1)) \<noteq> c"
proof (induction rule: name_at.induct)
  case (pointer c p t j ls e)
  then show ?case by auto
qed (auto dest: label_byte_not_pointer)

section \<open>The properties of the decoder\<close>

text \<open>C1: \<open>DecodeDnsName\<close> returns on every packet and start offset without an access out of the
  packet or of its output array, and it succeeds exactly on the names of the grammar spelled with
  at most eight compression pointers whose dotted form has at most 253 bytes. It yields that form,
  and the end of the encoding at the start offset, which lies inside the packet.\<close>

theorem dns_name_decoding:
  "\<exists>out. decode_dns_name p s = Some out \<and>
     (\<forall>nm e. out = NameOk nm e \<longleftrightarrow>
        s < e \<and> e \<le> length p \<and> length nm \<le> 253 \<and>
        (\<exists>k \<le> 8. \<exists>ls. name_at p s k ls e \<and> nm = dotted ls))"
proof -
  obtain out where "decode_dns_name p s = Some out"
    using decode_dns_name_total [of p s] by blast
  then show ?thesis
    using decode_dns_name_iff [of p s] name_at_bounds [of p s] by fastforce
qed

text \<open>C2: A name written label by label is decoded back to its dotted form, wherever it stands in
  the packet, and the decoder consumes exactly the encoding.\<close>

theorem dns_name_roundtrip:
  assumes "valid_labels ls"
  shows "decode_dns_name (pre @ encode_name ls @ post) (length pre) =
    Some (NameOk (dotted ls) (length pre + length (encode_name ls)))"
  using assms by (rule decode_encode_name)

theorem dns_name_roundtrip_witness:
  "decode_dns_name ([7] @ encode_name [[0x61], [0x62, 0x63]] @ [9]) 1 =
     Some (NameOk [0x61, 0x2e, 0x62, 0x63] 7)"
  using dns_name_roundtrip [of "[[0x61], [0x62, 0x63]]" "[7]" "[9]"]
  by (simp add: valid_labels_def dotted_def encode_name_def encode_label_def joined_def)

end
