(* ===== verification/Platform_Types.thy ===== *)
theory Platform_Types
  imports Prelude
begin

text \<open>
  The result types the operations return, and the error codes of the layers below. Their
  declarations belong to the ESPressio-System and ESPressio-Web contracts and to ESP-IDF and lwIP;
  the model keeps exactly the enumerators the sources of this repository name, and nothing of
  their numeric values. Where the code keeps a native error code next to a result, the model keeps
  the native error value; a result built without one has \<open>None\<close>.

  Also here: \<open>PlatformResultFromEspError\<close> (src/ESPressio_ClockProvider.hpp) and the three
  translations of native errors into \<open>WebResult\<close> (the HTTP server, WebSocket endpoint and
  WebSocket client sources), with the fact they share: the success of the result is exactly the
  success of the native call.
\<close>

section \<open>Native error codes\<close>

text \<open>\<open>esp_err_t\<close>: the codes the sources name, and every other value.\<close>

datatype esp_err =
    ESP_OK
  | ESP_FAIL
  | ESP_ERR_NO_MEM
  | ESP_ERR_INVALID_ARG
  | ESP_ERR_INVALID_STATE
  | ESP_ERR_NOT_FOUND
  | ESP_ERR_NOT_SUPPORTED
  | ESP_ERR_TIMEOUT
  | ESP_ERR_HTTPD_ALLOC_MEM
  | ESP_ERR_HTTPD_HANDLERS_FULL
  | ESP_ERR_HTTPD_INVALID_REQ
  | ESP_ERR_HTTPD_RESP_SEND
  | ESP_ERR_HTTPD_RESP_HDR
  | ESP_ERR_HTTPD_RESULT_TRUNC
  | ESP_ERR_OTHER int

text \<open>lwIP's \<open>err_t\<close>.\<close>

datatype lwip_err = ERR_OK | ERR_MEM | ERR_ARG | ERR_OTHER int

text \<open>\<open>wifi_mode_t\<close> of the Wi-Fi driver.\<close>

datatype wifi_mode = ModeNull | ModeSta | ModeAp | ModeApSta

section \<open>PlatformResult\<close>

datatype platform_status =
    PS_InvalidArgument
  | PS_OutOfMemory
  | PS_Unsupported
  | PS_Conflict
  | PS_Timeout
  | PS_Unavailable
  | PS_Busy
  | PS_HardwareFailure

datatype platform_result = Succeeded | Failed platform_status "esp_err option"

primrec platform_ok :: "platform_result \<Rightarrow> bool" where
  "platform_ok Succeeded = True"
| "platform_ok (Failed s e) = False"

text \<open>src/ESPressio_ClockProvider.hpp, \<open>PlatformResultFromEspError\<close>\<close>

definition platform_status_of :: "esp_err \<Rightarrow> platform_status" where
  "platform_status_of e = (case e of
       ESP_ERR_INVALID_ARG \<Rightarrow> PS_InvalidArgument
     | ESP_ERR_NO_MEM \<Rightarrow> PS_OutOfMemory
     | ESP_ERR_NOT_SUPPORTED \<Rightarrow> PS_Unsupported
     | ESP_ERR_INVALID_STATE \<Rightarrow> PS_Conflict
     | ESP_ERR_TIMEOUT \<Rightarrow> PS_Timeout
     | _ \<Rightarrow> PS_HardwareFailure)"

definition platform_result_from_esp_error :: "esp_err \<Rightarrow> platform_result" where
  "platform_result_from_esp_error e =
     (if e = ESP_OK then Succeeded else Failed (platform_status_of e) (Some e))"

lemma platform_ok_from_esp_error [simp]:
  "platform_ok (platform_result_from_esp_error e) \<longleftrightarrow> e = ESP_OK"
  by (simp add: platform_result_from_esp_error_def)

lemma platform_result_from_esp_error_ok [simp]:
  "platform_result_from_esp_error e = Succeeded \<longleftrightarrow> e = ESP_OK"
  by (simp add: platform_result_from_esp_error_def)

section \<open>WebResult\<close>

datatype web_error =
    InvalidState
  | InvalidConfiguration
  | ResourceExhausted
  | NotFound
  | Closed
  | ConnectionFailure
  | ProtocolError
  | PlatformFailure
  | AlreadyRunning
  | Unsupported

datatype native = NativeEsp esp_err | NativeLwip lwip_err | NativeInt int

datatype web_result = Success | Failure web_error "native option"

primrec web_ok :: "web_result \<Rightarrow> bool" where
  "web_ok Success = True"
| "web_ok (Failure e n) = False"

abbreviation fail_with :: "web_error \<Rightarrow> web_result" where
  "fail_with e \<equiv> Failure e None"

lemma web_ok_iff [simp]: "web_ok r \<longleftrightarrow> r = Success"
  by (cases r) auto

text \<open>src/ESPressio_HttpServerPlatform.hpp, \<open>ESP32HttpResult\<close>\<close>

definition http_result :: "esp_err \<Rightarrow> web_result" where
  "http_result e = (case e of
       ESP_OK \<Rightarrow> Success
     | ESP_ERR_INVALID_ARG \<Rightarrow> Failure InvalidConfiguration (Some (NativeEsp e))
     | ESP_ERR_NO_MEM \<Rightarrow> Failure ResourceExhausted (Some (NativeEsp e))
     | ESP_ERR_HTTPD_ALLOC_MEM \<Rightarrow> Failure ResourceExhausted (Some (NativeEsp e))
     | ESP_ERR_HTTPD_HANDLERS_FULL \<Rightarrow> Failure ResourceExhausted (Some (NativeEsp e))
     | ESP_ERR_NOT_FOUND \<Rightarrow> Failure NotFound (Some (NativeEsp e))
     | ESP_ERR_HTTPD_INVALID_REQ \<Rightarrow> Failure Closed (Some (NativeEsp e))
     | ESP_ERR_HTTPD_RESP_SEND \<Rightarrow> Failure ConnectionFailure (Some (NativeEsp e))
     | ESP_ERR_HTTPD_RESP_HDR \<Rightarrow> Failure ProtocolError (Some (NativeEsp e))
     | ESP_ERR_HTTPD_RESULT_TRUNC \<Rightarrow> Failure ProtocolError (Some (NativeEsp e))
     | _ \<Rightarrow> Failure PlatformFailure (Some (NativeEsp e)))"

text \<open>src/ESPressio_WebSocketEndpointPlatform.hpp, \<open>ESP32WebSocketResult\<close>\<close>

definition websocket_result :: "esp_err \<Rightarrow> web_result" where
  "websocket_result e = (case e of
       ESP_OK \<Rightarrow> Success
     | ESP_ERR_INVALID_ARG \<Rightarrow> Failure InvalidConfiguration (Some (NativeEsp e))
     | ESP_ERR_NO_MEM \<Rightarrow> Failure ResourceExhausted (Some (NativeEsp e))
     | ESP_ERR_INVALID_STATE \<Rightarrow> Failure InvalidState (Some (NativeEsp e))
     | ESP_ERR_NOT_FOUND \<Rightarrow> Failure Closed (Some (NativeEsp e))
     | _ \<Rightarrow> Failure ConnectionFailure (Some (NativeEsp e)))"

text \<open>src/ESPressio_WebSocketClientPlatform.hpp, \<open>ESP32WebSocketClientResult\<close>\<close>

definition websocket_client_result :: "esp_err \<Rightarrow> web_result" where
  "websocket_client_result e = (case e of
       ESP_OK \<Rightarrow> Success
     | ESP_ERR_INVALID_ARG \<Rightarrow> Failure InvalidConfiguration (Some (NativeEsp e))
     | ESP_ERR_NO_MEM \<Rightarrow> Failure ResourceExhausted (Some (NativeEsp e))
     | ESP_ERR_INVALID_STATE \<Rightarrow> Failure InvalidState (Some (NativeEsp e))
     | _ \<Rightarrow> Failure ConnectionFailure (Some (NativeEsp e)))"

text \<open>
  What every translation promises: success is exactly native success, and a failure keeps the
  native error it was made from.
\<close>

locale error_translation =
  fixes tr :: "esp_err \<Rightarrow> web_result"
  assumes tr_ok: "tr ESP_OK = Success"
    and tr_fail: "e \<noteq> ESP_OK \<Longrightarrow> \<exists>w. tr e = Failure w (Some (NativeEsp e))"
begin

lemma success_iff [simp]: "tr e = Success \<longleftrightarrow> e = ESP_OK"
  using tr_ok tr_fail [of e] by (cases "e = ESP_OK") auto

lemma native_kept: "tr e = Failure w n \<Longrightarrow> n = Some (NativeEsp e)"
  using tr_ok tr_fail [of e] by (cases "e = ESP_OK") auto

lemma injective: "tr a = tr b \<Longrightarrow> a = b"
  using tr_ok tr_fail [of a] tr_fail [of b] by (cases "a = ESP_OK"; cases "b = ESP_OK") auto

end

interpretation http_tr: error_translation http_result
  by unfold_locales (auto simp: http_result_def split: esp_err.splits)

interpretation ws_tr: error_translation websocket_result
  by unfold_locales (auto simp: websocket_result_def split: esp_err.splits)

interpretation wsc_tr: error_translation websocket_client_result
  by unfold_locales (auto simp: websocket_client_result_def split: esp_err.splits)

text \<open>src/ESPressio_DnsServerPlatform.hpp, \<open>DnsLwipError\<close>\<close>

definition dns_lwip_error :: "lwip_err \<Rightarrow> web_error" where
  "dns_lwip_error e = (if e = ERR_MEM then ResourceExhausted else ConnectionFailure)"

end
