(* ===== verification/Dns_Response.thy ===== *)
theory Dns_Response
  imports Dns_Wire Platform_Types
begin

text \<open>
  \<open>ESP32DnsResponsePlatform\<close> of src/ESPressio_DnsServerPlatform.hpp: the response under
  construction in a byte buffer (constructor, \<open>SetResponseCode\<close>, \<open>AddAddressAnswer\<close>,
  \<open>Complete\<close>, \<open>Abort\<close>) with every access to the buffer checked.

  The abstract response of the second half is what a reader of RFC 1035 sees: an identifier, the
  flags echoed from the query, a response code, the question and a list of answers. Its encoding
  is one expression; the operations on the buffer refine the operations on the abstract response,
  so the packet is always the encoding of the answers accepted so far and never exceeds the limit.
\<close>

section \<open>The response object\<close>

text \<open>
  The numeric values behind the enumerators of the DNS contract are not in this repository;
  they are a parameter.
\<close>

record dns_codes =
  code_a :: u16
  code_aaaa :: u16
  code_internet :: u16
  code_format_error :: u8

datatype address_family = IPv4 | IPv6

text \<open>\<open>DnsAddress\<close>: \<open>Bytes\<close> is an array that holds an IPv6 address (16 bytes).\<close>

record dns_address =
  addr_family :: address_family
  addr_bytes :: bytes

text \<open>\<open>ESPRESSIO_ESP32_DNS_MAX_PACKET_BYTES\<close>, at its default.\<close>

definition dns_max_packet :: nat where
  "dns_max_packet = 512"

text \<open>The lwIP control block and the remote address are opaque.\<close>

record dns_response =
  rsp_pcb :: "nat option"
  rsp_remote_address :: nat
  rsp_remote_port :: u16
  rsp_buffer :: bytes
  rsp_answer_count :: u16
  rsp_valid :: bool
  rsp_completed :: bool

text \<open>The constructor. \<open>alloc n\<close>: whether \<open>resize\<close> to \<open>n\<close> bytes gets its memory.\<close>

definition new_response ::
    "(nat \<Rightarrow> bool) \<Rightarrow> nat option \<Rightarrow> nat \<Rightarrow> u16 \<Rightarrow> bytes option \<Rightarrow> nat \<Rightarrow> dns_response option" where
  "new_response alloc pcb remote port request question_end =
     (let fresh = \<lparr>rsp_pcb = pcb, rsp_remote_address = remote, rsp_remote_port = port,
        rsp_buffer = [], rsp_answer_count = 0, rsp_valid = True, rsp_completed = False\<rparr>
      in case request of
        None \<Rightarrow> Some (fresh\<lparr>rsp_valid := False\<rparr>)
      | Some req \<Rightarrow>
          if pcb = None \<or> length req < 12 \<or> question_end > length req
             \<or> question_end > dns_max_packet
          then Some (fresh\<lparr>rsp_valid := False\<rparr>)
          else if \<not> alloc question_end then Some (fresh\<lparr>rsp_valid := False\<rparr>)
          else do {
            source \<leftarrow> slice req 0 question_end;
            b0 \<leftarrow> blit (replicate question_end 0) 0 source;
            query_flags \<leftarrow> read_dns16 req 2;
            let response_flags = 0x8000 OR 0x0400 OR (query_flags AND 0x7900);
            b1 \<leftarrow> write_dns16 b0 2 response_flags;
            b2 \<leftarrow> write_dns16 b1 4 1;
            b3 \<leftarrow> write_dns16 b2 6 0;
            b4 \<leftarrow> write_dns16 b3 8 0;
            b5 \<leftarrow> write_dns16 b4 10 0;
            Some (fresh\<lparr>rsp_buffer := b5\<rparr>)
          })"

definition set_response_code :: "u8 \<Rightarrow> dns_response \<Rightarrow> (web_result \<times> dns_response) option" where
  "set_response_code code r =
     (if \<not> rsp_valid r \<or> rsp_completed r then Some (fail_with InvalidState, r)
      else do {
        flags \<leftarrow> read_dns16 (rsp_buffer r) 2;
        let flags' = (flags AND 0xfff0) OR ucast (code AND 0x0f);
        b \<leftarrow> write_dns16 (rsp_buffer r) 2 flags';
        Some (Success, r\<lparr>rsp_buffer := b\<rparr>)
      })"

definition add_address_answer ::
    "dns_codes \<Rightarrow> (nat \<Rightarrow> bool) \<Rightarrow> dns_address \<Rightarrow> u32 \<Rightarrow> dns_response
      \<Rightarrow> (web_result \<times> dns_response) option" where
  "add_address_answer codes alloc address ttl r =
     (if \<not> rsp_valid r \<or> rsp_completed r then Some (fail_with InvalidState, r)
      else
        let type = (if addr_family address = IPv4 then code_a codes else code_aaaa codes);
            address_length = (if addr_family address = IPv4 then 4 else 16 :: nat);
            required = 12 + address_length;
            start = length (rsp_buffer r)
        in if start + required > dns_max_packet then Some (fail_with ResourceExhausted, r)
        else if \<not> alloc (start + required) then Some (fail_with ResourceExhausted, r)
        else do {
          let b0 = rsp_buffer r @ replicate required 0;
          b1 \<leftarrow> wr b0 start 0xc0;
          b2 \<leftarrow> wr b1 (start + 1) 0x0c;
          b3 \<leftarrow> write_dns16 b2 (start + 2) type;
          b4 \<leftarrow> write_dns16 b3 (start + 4) (code_internet codes);
          b5 \<leftarrow> write_dns32 b4 (start + 6) ttl;
          b6 \<leftarrow> write_dns16 b5 (start + 10) (word_of_nat address_length);
          source \<leftarrow> slice (addr_bytes address) 0 address_length;
          b7 \<leftarrow> blit b6 (start + 12) source;
          let count = rsp_answer_count r + 1;
          b8 \<leftarrow> write_dns16 b7 6 count;
          Some (Success, r\<lparr>rsp_buffer := b8, rsp_answer_count := count\<rparr>)
        })"

text \<open>What lwIP answers to the calls of one \<open>Complete\<close>.\<close>

record lwip_send =
  pbuf_alloc_ok :: bool
  pbuf_take_result :: lwip_err
  udp_sendto_result :: lwip_err

text \<open>A datagram handed to \<open>udp_sendto\<close>: control block, payload, destination.\<close>

record datagram =
  dg_pcb :: nat
  dg_payload :: bytes
  dg_address :: nat
  dg_port :: u16

text \<open>
  \<open>Complete\<close>: the result, the response and the datagrams handed to \<open>udp_sendto\<close>. The size passes
  through \<open>u16_t\<close>. A null control block here would be a null dereference in lwIP.
\<close>

definition complete_response ::
    "lwip_send \<Rightarrow> dns_response \<Rightarrow> (web_result \<times> dns_response \<times> datagram list) option" where
  "complete_response net r =
     (if \<not> rsp_valid r \<or> rsp_completed r
      then Some (if rsp_completed r then Success else fail_with InvalidState, r, [])
      else if \<not> pbuf_alloc_ok net then Some (fail_with ResourceExhausted, r, [])
      else if pbuf_take_result net \<noteq> ERR_OK
      then Some (Failure (dns_lwip_error (pbuf_take_result net))
                   (Some (NativeLwip (pbuf_take_result net))), r, [])
      else do {
        payload \<leftarrow> slice (rsp_buffer r) 0 (unat (word_of_nat (length (rsp_buffer r)) :: u16));
        pcb \<leftarrow> rsp_pcb r;
        let sent = [\<lparr>dg_pcb = pcb, dg_payload = payload,
          dg_address = rsp_remote_address r, dg_port = rsp_remote_port r\<rparr>];
        if udp_sendto_result net \<noteq> ERR_OK
        then Some (Failure (dns_lwip_error (udp_sendto_result net))
                     (Some (NativeLwip (udp_sendto_result net))), r, sent)
        else Some (Success, r\<lparr>rsp_completed := True\<rparr>, sent)
      })"

definition abort_response :: "dns_response \<Rightarrow> dns_response" where
  "abort_response r = r\<lparr>rsp_completed := True\<rparr>"

section \<open>The abstract response\<close>

record dns_answer =
  ans_address :: dns_address
  ans_ttl :: u32

record response_spec =
  spec_id :: bytes
  spec_echo :: u16
  spec_rcode :: u8
  spec_question :: bytes
  spec_answers :: "dns_answer list"

definition address_data :: "dns_address \<Rightarrow> bytes" where
  "address_data a = take (if addr_family a = IPv4 then 4 else 16) (addr_bytes a)"

definition encode_answer :: "dns_codes \<Rightarrow> dns_answer \<Rightarrow> bytes" where
  "encode_answer codes a =
     [0xc0, 0x0c]
     @ be16 (if addr_family (ans_address a) = IPv4 then code_a codes else code_aaaa codes)
     @ be16 (code_internet codes)
     @ be32 (ans_ttl a)
     @ be16 (if addr_family (ans_address a) = IPv4 then 4 else 16)
     @ address_data (ans_address a)"

text \<open>
  QR and AA set, opcode and RD echoed from the query (\<open>spec_echo\<close>), the response code in the
  low four bits.
\<close>

definition spec_flags :: "response_spec \<Rightarrow> u16" where
  "spec_flags s = 0x8400 OR (spec_echo s AND 0x7900) OR ucast (spec_rcode s AND 0x0f)"

definition encode_response :: "dns_codes \<Rightarrow> response_spec \<Rightarrow> bytes" where
  "encode_response codes s =
     spec_id s @ be16 (spec_flags s) @ be16 1 @ be16 (word_of_nat (length (spec_answers s)))
     @ be16 0 @ be16 0 @ spec_question s @ concat (map (encode_answer codes) (spec_answers s))"

definition represents :: "dns_codes \<Rightarrow> response_spec \<Rightarrow> dns_response \<Rightarrow> bool" where
  "represents codes s r \<longleftrightarrow>
     rsp_valid r \<and> rsp_pcb r \<noteq> None \<and> length (spec_id s) = 2 \<and>
     rsp_buffer r = encode_response codes s \<and>
     rsp_answer_count r = word_of_nat (length (spec_answers s)) \<and>
     length (rsp_buffer r) \<le> dns_max_packet"

definition spec_of_query :: "bytes \<Rightarrow> nat \<Rightarrow> response_spec" where
  "spec_of_query req question_end =
     \<lparr>spec_id = take 2 req, spec_echo = of_be16 (req ! 2) (req ! 3), spec_rcode = 0,
      spec_question = take (question_end - 12) (drop 12 req), spec_answers = []\<rparr>"

lemmas response_op_defs =
  new_response_def set_response_code_def add_address_answer_def complete_response_def

text \<open>A header of twelve bytes in front of the rest.\<close>

lemma header_split:
  assumes "12 \<le> length b"
  obtains i0 i1 f0 f1 q0 q1 a0 a1 n0 n1 r0 r1 rest
  where "b = [i0, i1, f0, f1, q0, q1, a0, a1, n0, n1, r0, r1] @ rest"
proof -
  obtain pre mid rest where "b = pre @ mid @ rest" "length pre = 0" "length mid = 12"
    using assms split_at_window [of 0 12 b] by auto
  then show ?thesis
    by (auto simp: numeral_eq_Suc length_Suc_conv intro: that)
qed

text \<open>The writes of the operations into a header spelled out byte by byte.\<close>

lemma header_writes:
  "write_dns16 (i0 # i1 # f0 # f1 # t) 2 v = Some (i0 # i1 # be16 v @ t)"
  "write_dns16 (i0 # i1 # f0 # f1 # q0 # q1 # t) 4 v = Some (i0 # i1 # f0 # f1 # be16 v @ t)"
  "write_dns16 (i0 # i1 # f0 # f1 # q0 # q1 # a0 # a1 # t) 6 v =
     Some (i0 # i1 # f0 # f1 # q0 # q1 # be16 v @ t)"
  "write_dns16 (i0 # i1 # f0 # f1 # q0 # q1 # a0 # a1 # n0 # n1 # t) 8 v =
     Some (i0 # i1 # f0 # f1 # q0 # q1 # a0 # a1 # be16 v @ t)"
  "write_dns16 (i0 # i1 # f0 # f1 # q0 # q1 # a0 # a1 # n0 # n1 # r0 # r1 # t) 10 v =
     Some (i0 # i1 # f0 # f1 # q0 # q1 # a0 # a1 # n0 # n1 # be16 v @ t)"
  by (simp_all add: write_dns16_def be16_def numeral_eq_Suc)

lemma response_bits: "(0x8000 :: u16) OR 0x0400 OR x = 0x8400 OR x"
  by (simp flip: or.assoc)

lemma new_response_represents:
  assumes "12 \<le> length req" "12 \<le> q" "q \<le> length req" "q \<le> dns_max_packet" "alloc q"
  shows "\<exists>r. new_response alloc (Some pcb) remote port (Some req) q = Some r \<and>
     represents codes (spec_of_query req q) r \<and> \<not> rsp_completed r \<and>
     rsp_pcb r = Some pcb \<and> rsp_remote_address r = remote \<and> rsp_remote_port r = port"
proof -
  obtain i0 i1 f0 f1 q0 q1 a0 a1 n0 n1 r0 r1 rest
    where req: "req = [i0, i1, f0, f1, q0, q1, a0, a1, n0, n1, r0, r1] @ rest"
    using assms(1) by (rule header_split)
  obtain m where q: "q = 12 + m" using assms(2) le_Suc_ex by blast
  have whole: "take (12 + m) req = [i0, i1, f0, f1, q0, q1, a0, a1, n0, n1, r0, r1] @ take m rest"
    by (simp add: req numeral_eq_Suc)
  have flags: "read_dns16 req 2 = Some (of_be16 f0 f1)"
    by (simp add: req read_dns16_eq)
  have m: "m \<le> length rest" using assms(3) by (simp add: req q)
  show ?thesis
    using assms m
    by (simp add: new_response_def represents_def q req whole [unfolded req, simplified]
        flags [unfolded req, simplified] header_writes spec_of_query_def encode_response_def
        spec_flags_def be16_def response_bits)
qed

lemma length_encode_answer [simp]:
  "length (address_data a) = (if addr_family a = IPv4 then 4 else 16) \<Longrightarrow>
     length (encode_answer codes \<lparr>ans_address = a, ans_ttl = ttl\<rparr>)
       = 12 + (if addr_family a = IPv4 then 4 else 16)"
  by (simp add: encode_answer_def)

lemma encode_response_header:
  assumes "length (spec_id s) = 2"
  obtains i0 i1 where "spec_id s = [i0, i1]"
    "encode_response codes s = [i0, i1, ucast (drop_bit 8 (spec_flags s)), ucast (spec_flags s),
       0, 1, ucast (drop_bit 8 (word_of_nat (length (spec_answers s)) :: u16)),
       ucast (word_of_nat (length (spec_answers s)) :: u16), 0, 0, 0, 0]
       @ spec_question s @ concat (map (encode_answer codes) (spec_answers s))"
  using assms
  by (auto simp: numeral_2_eq_2 length_Suc_conv encode_response_def be16_def)

text \<open>The low four bits of the flags are the response code and nothing else.\<close>

lemma spec_flags_update:
  "(spec_flags s AND 0xfff0) OR ucast (code AND 0x0f) = spec_flags (s\<lparr>spec_rcode := code\<rparr>)"
proof -
  have split: "(x OR y) AND m = (x AND m) OR (y AND m)" for x y m :: u16
    by (rule bit_word_eqI) (auto simp: bit_simps)
  have "ucast (c AND 0x0f :: u8) AND (0xfff0 :: u16) = 0" for c
  proof -
    have "ucast (c AND 0x0f :: u8) = (ucast c AND 0x0f :: u16)"
      by (simp add: unsigned_and_eq)
    then show ?thesis by (simp add: and.assoc)
  qed
  then show ?thesis
    by (simp add: spec_flags_def split and.assoc or.assoc)
qed

lemma length_encode_response_rcode [simp]:
  "length (encode_response codes (s\<lparr>spec_rcode := c\<rparr>)) = length (encode_response codes s)"
  by (simp add: encode_response_def)

lemma set_response_code_represents:
  assumes "represents codes s r" "\<not> rsp_completed r"
  shows "\<exists>r'. set_response_code code r = Some (Success, r') \<and>
     represents codes (s\<lparr>spec_rcode := code\<rparr>) r' \<and> \<not> rsp_completed r'"
proof -
  from assms have id: "length (spec_id s) = 2"
    and buffer: "rsp_buffer r = encode_response codes s" by (auto simp: represents_def)
  obtain i0 i1 where i: "spec_id s = [i0, i1]"
    and e: "encode_response codes s = [i0, i1, ucast (drop_bit 8 (spec_flags s)),
       ucast (spec_flags s), 0, 1,
       ucast (drop_bit 8 (word_of_nat (length (spec_answers s)) :: u16)),
       ucast (word_of_nat (length (spec_answers s)) :: u16), 0, 0, 0, 0]
       @ spec_question s @ concat (map (encode_answer codes) (spec_answers s))"
    by (rule encode_response_header [OF id])
  have "read_dns16 (encode_response codes s) 2 = Some (spec_flags s)"
    by (simp add: e read_dns16_eq of_be16_be16)
  moreover have "write_dns16 (encode_response codes s) 2 (spec_flags (s\<lparr>spec_rcode := code\<rparr>)) =
      Some (encode_response codes (s\<lparr>spec_rcode := code\<rparr>))"
    by (simp add: e header_writes i encode_response_def be16_def)
  ultimately show ?thesis
    using assms
    by (auto simp: set_response_code_def represents_def spec_flags_update)
qed

lemma encode_response_snoc:
  "encode_response codes (s\<lparr>spec_answers := spec_answers s @ [a]\<rparr>) =
     spec_id s @ be16 (spec_flags s) @ be16 1
     @ be16 (word_of_nat (length (spec_answers s)) + 1) @ be16 0 @ be16 0 @ spec_question s
     @ concat (map (encode_answer codes) (spec_answers s)) @ encode_answer codes a"
  by (simp add: encode_response_def spec_flags_def add.commute)

lemma length_encode_response_snoc:
  "length (encode_response codes (s\<lparr>spec_answers := spec_answers s @ [a]\<rparr>)) =
     length (encode_response codes s) + length (encode_answer codes a)"
  by (simp add: encode_response_snoc) (simp add: encode_response_def)

lemma answer_ttl_write:
  "write_dns32 (c0 # c1 # c2 # c3 # c4 # c5 # t0 # t1 # t2 # t3 # t) 6 v =
     Some (c0 # c1 # c2 # c3 # c4 # c5 # be32 v @ t)"
  by (simp add: write_dns32_def be32_def numeral_eq_Suc)

text \<open>The twelve fixed bytes, then the address, are written behind the buffer as it was.\<close>

definition answer_head :: "u16 \<Rightarrow> u16 \<Rightarrow> u32 \<Rightarrow> u16 \<Rightarrow> bytes" where
  "answer_head type class ttl len =
     [0xc0, 0x0c] @ be16 type @ be16 class @ be32 ttl @ be16 len"

lemma append_answer_head:
  "(do {
      b1 \<leftarrow> wr (b @ replicate (12 + n) 0) (length b) 0xc0;
      b2 \<leftarrow> wr b1 (length b + 1) 0x0c;
      b3 \<leftarrow> write_dns16 b2 (length b + 2) type;
      b4 \<leftarrow> write_dns16 b3 (length b + 4) class;
      b5 \<leftarrow> write_dns32 b4 (length b + 6) ttl;
      b6 \<leftarrow> write_dns16 b5 (length b + 10) len;
      k b6
    }) = k (b @ answer_head type class ttl len @ replicate n 0)"
proof -
  have zeros: "replicate (12 + n) (0 :: u8) =
      0 # 0 # 0 # 0 # 0 # 0 # 0 # 0 # 0 # 0 # 0 # 0 # replicate n 0"
    by (simp add: numeral_eq_Suc)
  show ?thesis
    unfolding zeros
    using wr_append_right [of b _ 1] write_dns16_append_right [of b _ 2]
    by (simp add: header_writes answer_ttl_write be16_def be32_def answer_head_def
        del: update_append_left)
qed

lemma append_answer_data:
  "length data = n \<Longrightarrow>
     blit (b @ answer_head type class ttl len @ replicate n 0) (length b + 12) data
       = Some (b @ answer_head type class ttl len @ data)"
  by (simp add: answer_head_def blit_def)

lemma encode_answer_head:
  "encode_answer codes \<lparr>ans_address = a, ans_ttl = ttl\<rparr> =
     answer_head (if addr_family a = IPv4 then code_a codes else code_aaaa codes)
       (code_internet codes) ttl (if addr_family a = IPv4 then 4 else 16) @ address_data a"
  by (simp add: encode_answer_def answer_head_def)

text \<open>
  An address carries enough bytes for its family (\<open>DnsAddress::Bytes\<close> is a fixed array).
\<close>

definition full_address :: "dns_address \<Rightarrow> bool" where
  "full_address a \<longleftrightarrow> 16 \<le> length (addr_bytes a)"

definition answer_size :: "dns_address \<Rightarrow> nat" where
  "answer_size a = (if addr_family a = IPv4 then 16 else 28)"

lemma full_address_data:
  "full_address a \<Longrightarrow> length (address_data a) = (if addr_family a = IPv4 then 4 else 16)"
  by (auto simp: full_address_def address_data_def)

lemma length_encode_answer_size:
  "full_address a \<Longrightarrow> length (encode_answer codes \<lparr>ans_address = a, ans_ttl = ttl\<rparr>) = answer_size a"
  by (simp add: full_address_data answer_size_def)

lemma add_address_answer_appends:
  assumes "represents codes s r" "\<not> rsp_completed r" "full_address a"
    and fits: "length (rsp_buffer r) + answer_size a \<le> dns_max_packet"
    and alloc: "alloc (length (rsp_buffer r) + answer_size a)"
  shows "\<exists>r'. add_address_answer codes alloc a ttl r = Some (Success, r') \<and>
     represents codes
       (s\<lparr>spec_answers := spec_answers s @ [\<lparr>ans_address = a, ans_ttl = ttl\<rparr>]\<rparr>) r' \<and>
     \<not> rsp_completed r'"
proof -
  define s' where "s' = s\<lparr>spec_answers := spec_answers s @ [\<lparr>ans_address = a, ans_ttl = ttl\<rparr>]\<rparr>"
  let ?n = "if addr_family a = IPv4 then 4 else 16 :: nat"
  let ?b = "rsp_buffer r" and ?e = "encode_answer codes \<lparr>ans_address = a, ans_ttl = ttl\<rparr>"
  from assms(1) have id: "length (spec_id s) = 2" and buffer: "?b = encode_response codes s"
    and count: "rsp_answer_count r = word_of_nat (length (spec_answers s))"
    by (auto simp: represents_def)
  have size: "12 + ?n = answer_size a" by (simp add: answer_size_def)
  have data: "slice (addr_bytes a) 0 ?n = Some (address_data a)"
    using assms(3) by (auto simp: full_address_def address_data_def)
  have len: "word_of_nat ?n = (if addr_family a = IPv4 then 4 else 16 :: u16)" by simp
  have last: "write_dns16 (?b @ ?e) 6 (rsp_answer_count r + 1) = Some (encode_response codes s')"
  proof -
    obtain i0 i1 where "spec_id s = [i0, i1]" and "encode_response codes s =
       [i0, i1, ucast (drop_bit 8 (spec_flags s)), ucast (spec_flags s),
       0, 1, ucast (drop_bit 8 (word_of_nat (length (spec_answers s)) :: u16)),
       ucast (word_of_nat (length (spec_answers s)) :: u16), 0, 0, 0, 0]
       @ spec_question s @ concat (map (encode_answer codes) (spec_answers s))"
      by (rule encode_response_header [OF id])
    then show ?thesis
      by (simp add: buffer count s'_def encode_response_snoc header_writes be16_def)
  qed
  have "add_address_answer codes alloc a ttl r =
      Some (Success, r\<lparr>rsp_buffer := encode_response codes s',
        rsp_answer_count := rsp_answer_count r + 1\<rparr>)"
    unfolding add_address_answer_def Let_def append_answer_head data
    using assms(1,2) fits alloc last
    by (simp add: size represents_def append_answer_data [OF full_address_data [OF assms(3)]]
        encode_answer_head [symmetric] len del: length_encode_answer blit_append_right
        split del: if_split)
  moreover have "length (encode_response codes s') \<le> dns_max_packet"
    using fits buffer length_encode_answer_size [OF assms(3)]
    by (simp add: s'_def length_encode_response_snoc del: length_encode_answer)
  ultimately show ?thesis
    using assms(1,2) count by (auto simp: represents_def s'_def add.commute)
qed

lemma add_address_answer_refused:
  assumes "rsp_valid r" "\<not> rsp_completed r"
    and "dns_max_packet < length (rsp_buffer r) + answer_size a \<or>
      \<not> alloc (length (rsp_buffer r) + answer_size a)"
  shows "add_address_answer codes alloc a ttl r = Some (fail_with ResourceExhausted, r)"
  using assms by (auto simp: add_address_answer_def answer_size_def Let_def split: if_splits)

lemma finished_response_unchanged:
  assumes "\<not> rsp_valid r \<or> rsp_completed r"
  shows "set_response_code code r = Some (fail_with InvalidState, r)"
    and "add_address_answer codes alloc a ttl r = Some (fail_with InvalidState, r)"
    and "\<exists>res. complete_response net r = Some (res, r, [])"
  using assms by (auto simp: response_op_defs)

section \<open>The contract a dispatcher works against\<close>

text \<open>
  A dispatcher of the DNS contract receives the response object and calls its operations in any
  order. \<open>AddAnswer\<close> carries whether the buffer gets the memory it asks for.
\<close>

datatype response_op = SetCode u8 | AddAnswer dns_address u32 bool

fun run_ops ::
    "(u8 \<Rightarrow> 'r \<Rightarrow> (web_result \<times> 'r) option)
      \<Rightarrow> (bool \<Rightarrow> dns_address \<Rightarrow> u32 \<Rightarrow> 'r \<Rightarrow> (web_result \<times> 'r) option)
      \<Rightarrow> response_op list \<Rightarrow> 'r \<Rightarrow> (web_result list \<times> 'r) option" where
  "run_ops set_code add [] r = Some ([], r)"
| "run_ops set_code add (x # xs) r = do {
     (res, r') \<leftarrow> (case x of SetCode c \<Rightarrow> set_code c r | AddAnswer a ttl ok \<Rightarrow> add ok a ttl r);
     (rest, r'') \<leftarrow> run_ops set_code add xs r';
     Some (res # rest, r'')
   }"

fun op_full :: "response_op \<Rightarrow> bool" where
  "op_full (SetCode c) = True"
| "op_full (AddAnswer a ttl ok) = full_address a"

text \<open>
  The same operations on the abstract response: an answer is accepted when the encoding still fits
  the limit with it (and the memory is there), and refused otherwise.
\<close>

fun spec_op :: "dns_codes \<Rightarrow> response_op \<Rightarrow> response_spec \<Rightarrow> web_result \<times> response_spec" where
  "spec_op codes (SetCode c) s = (Success, s\<lparr>spec_rcode := c\<rparr>)"
| "spec_op codes (AddAnswer a ttl ok) s =
     (if length (encode_response codes s) + answer_size a \<le> dns_max_packet \<and> ok
      then (Success, s\<lparr>spec_answers := spec_answers s @ [\<lparr>ans_address = a, ans_ttl = ttl\<rparr>]\<rparr>)
      else (fail_with ResourceExhausted, s))"

fun spec_ops :: "(response_op \<Rightarrow> 's \<Rightarrow> web_result \<times> 's) \<Rightarrow> response_op list \<Rightarrow> 's \<Rightarrow> web_result list \<times> 's"
  where
  "spec_ops step [] s = ([], s)"
| "spec_ops step (x # xs) s =
     (let (res, s') = step x s; (rest, s'') = spec_ops step xs s' in (res # rest, s''))"

locale response_builder =
  fixes set_code :: "u8 \<Rightarrow> 'r \<Rightarrow> (web_result \<times> 'r) option"
    and add :: "bool \<Rightarrow> dns_address \<Rightarrow> u32 \<Rightarrow> 'r \<Rightarrow> (web_result \<times> 'r) option"
    and promised :: "response_op \<Rightarrow> 's \<Rightarrow> web_result \<times> 's"
    and rep :: "'s \<Rightarrow> 'r \<Rightarrow> bool"
  assumes set_code_rep:
      "rep s r \<Longrightarrow> promised (SetCode c) s = (res, s') \<Longrightarrow>
         \<exists>r'. set_code c r = Some (res, r') \<and> rep s' r'"
    and add_rep:
      "rep s r \<Longrightarrow> full_address a \<Longrightarrow> promised (AddAnswer a ttl ok) s = (res, s') \<Longrightarrow>
         \<exists>r'. add ok a ttl r = Some (res, r') \<and> rep s' r'"
begin

lemma op_rep:
  assumes "rep s r" "op_full x" "promised x s = (res, s')"
  shows "\<exists>r'. (case x of SetCode c \<Rightarrow> set_code c r | AddAnswer a ttl ok \<Rightarrow> add ok a ttl r)
      = Some (res, r') \<and> rep s' r'"
  using assms set_code_rep add_rep by (cases x) auto

lemma run_rep:
  "rep s r \<Longrightarrow> list_all op_full xs \<Longrightarrow> spec_ops promised xs s = (results, s') \<Longrightarrow>
     \<exists>r'. run_ops set_code add xs r = Some (results, r') \<and> rep s' r'"
proof (induction xs arbitrary: s r results)
  case (Cons x xs)
  obtain res s1 where p: "promised x s = (res, s1)" by fastforce
  with Cons.prems obtain r1 where x: "(case x of SetCode c \<Rightarrow> set_code c r
      | AddAnswer a ttl ok \<Rightarrow> add ok a ttl r) = Some (res, r1)" "rep s1 r1"
    using op_rep [of s r x res s1] by auto
  obtain rest where "spec_ops promised xs s1 = (rest, s')" "results = res # rest"
    using Cons.prems(3) p by (auto split: prod.splits)
  with Cons.IH [OF x(2)] Cons.prems(2) x(1) show ?case by fastforce
qed simp

end

definition building :: "dns_codes \<Rightarrow> response_spec \<Rightarrow> dns_response \<Rightarrow> bool" where
  "building codes s r \<longleftrightarrow> represents codes s r \<and> \<not> rsp_completed r"

interpretation dns_builder:
  response_builder set_response_code "\<lambda>ok. add_address_answer codes (\<lambda>_. ok)" "spec_op codes"
    "building codes"
  for codes
proof
  fix s r c res s' assume "building codes s r" "spec_op codes (SetCode c) s = (res, s')"
  then show "\<exists>r'. set_response_code c r = Some (res, r') \<and> building codes s' r'"
    using set_response_code_represents [of codes s r c] by (auto simp: building_def)
next
  fix s r a ttl ok res s'
  assume b: "building codes s r" and a: "full_address a"
    and p: "spec_op codes (AddAnswer a ttl ok) s = (res, s')"
  have same: "rsp_buffer r = encode_response codes s"
    using b by (auto simp: building_def represents_def)
  show "\<exists>r'. add_address_answer codes (\<lambda>_. ok) a ttl r = Some (res, r') \<and> building codes s' r'"
  proof (cases "length (rsp_buffer r) + answer_size a \<le> dns_max_packet \<and> ok")
    case True
    then show ?thesis
      using add_address_answer_appends [of codes s r a "\<lambda>_. ok" ttl] a b p
      by (auto simp: building_def same)
  next
    case False
    then show ?thesis
      using add_address_answer_refused [of r a "\<lambda>_. ok" codes ttl] b p
      by (auto simp: building_def represents_def same not_le split: if_splits)
  qed
qed

definition build_response ::
    "dns_codes \<Rightarrow> response_op list \<Rightarrow> dns_response \<Rightarrow> (web_result list \<times> dns_response) option" where
  "build_response codes = run_ops set_response_code (\<lambda>ok. add_address_answer codes (\<lambda>_. ok))"

lemma build_response_building:
  "building codes s r \<Longrightarrow> list_all op_full xs \<Longrightarrow> spec_ops (spec_op codes) xs s = (results, s') \<Longrightarrow>
     \<exists>r'. build_response codes xs r = Some (results, r') \<and> building codes s' r'"
  unfolding build_response_def by (rule dns_builder.run_rep)

lemma spec_ops_full:
  "spec_ops (spec_op codes) xs s = (results, s') \<Longrightarrow> list_all op_full xs \<Longrightarrow>
     list_all (\<lambda>a. full_address (ans_address a)) (spec_answers s) \<Longrightarrow>
     list_all (\<lambda>a. full_address (ans_address a)) (spec_answers s') \<and> length results = length xs"
proof (induction xs arbitrary: s results)
  case (Cons x xs)
  obtain res s1 where p: "spec_op codes x s = (res, s1)" by fastforce
  obtain rest where rest: "spec_ops (spec_op codes) xs s1 = (rest, s')" "results = res # rest"
    using Cons.prems(1) p by (auto split: prod.splits)
  have "list_all (\<lambda>a. full_address (ans_address a)) (spec_answers s1)"
    using p Cons.prems(2,3) by (cases x) (auto split: if_splits)
  then show ?case using Cons.IH [OF rest(1)] Cons.prems(2) rest(2) by simp
qed simp

section \<open>Completion\<close>

definition destination :: "dns_response \<Rightarrow> nat option \<times> nat \<times> u16" where
  "destination r = (rsp_pcb r, rsp_remote_address r, rsp_remote_port r)"

lemma build_response_destination:
  "build_response codes xs r = Some (results, r') \<Longrightarrow> destination r' = destination r"
  unfolding build_response_def
proof (induction xs arbitrary: r results)
  case (Cons x xs)
  have one: "set_response_code c r = Some (res, r1) \<Longrightarrow> destination r1 = destination r"
    "add_address_answer codes alloc a ttl r = Some (res, r1) \<Longrightarrow> destination r1 = destination r"
    for c res r1 alloc a ttl
    by (auto simp: set_response_code_def add_address_answer_def destination_def Let_def
        split: if_splits bind_splits)
  from Cons.prems show ?case
    by (cases x) (auto split: bind_splits dest!: Cons.IH one)
qed simp

lemma complete_response_sends:
  assumes "building codes s r" "destination r = (Some p, remote, port)"
    and "pbuf_alloc_ok net" "pbuf_take_result net = ERR_OK"
  shows "complete_response net r = Some
     (let sent = [\<lparr>dg_pcb = p, dg_payload = encode_response codes s, dg_address = remote,
        dg_port = port\<rparr>]
      in if udp_sendto_result net = ERR_OK then (Success, r\<lparr>rsp_completed := True\<rparr>, sent)
         else (Failure (dns_lwip_error (udp_sendto_result net))
                 (Some (NativeLwip (udp_sendto_result net))), r, sent))"
proof -
  have "unat (word_of_nat (length (rsp_buffer r)) :: u16) = length (rsp_buffer r)"
    using assms
    by (auto simp: building_def represents_def dns_max_packet_def unsigned_of_nat
        take_bit_nat_eq_self)
  then show ?thesis
    using assms
    by (auto simp: building_def represents_def destination_def complete_response_def Let_def)
qed

text \<open>The answer counter never wraps: an answer takes sixteen bytes at least.\<close>

lemma building_answer_count:
  assumes "building codes s r" "list_all (\<lambda>a. full_address (ans_address a)) (spec_answers s)"
  shows "unat (rsp_answer_count r) = length (spec_answers s) \<and> length (spec_answers s) \<le> 31"
proof -
  have size: "16 \<le> length (encode_answer codes a)" if "full_address (ans_address a)" for a
    using length_encode_answer_size [OF that, of codes "ans_ttl a"]
    by (cases a) (auto simp: answer_size_def)
  have "16 * length xs \<le> length (concat (map (encode_answer codes) xs))"
    if "list_all (\<lambda>a. full_address (ans_address a)) xs" for xs
    using that by (induction xs) (auto dest: size)
  from this [OF assms(2)] have "12 + 16 * length (spec_answers s) \<le> 512"
    using assms(1) by (auto simp: building_def represents_def encode_response_def dns_max_packet_def)
  then show ?thesis
    using assms(1)
    by (auto simp: building_def represents_def unsigned_of_nat take_bit_nat_eq_self)
qed

section \<open>The main property\<close>

text \<open>C3: A response prepared from a query, taken through any sequence of \<open>SetResponseCode\<close> and
  \<open>AddAddressAnswer\<close> calls with any outcome of the allocations, never touches the buffer out of
  its bounds. Every call returns what the abstract response promises: an answer is refused exactly
  when the packet would exceed the limit or memory is missing. The buffer is at all times the
  encoding of the answers accepted so far, at most 512 bytes, with an answer count that did not
  wrap. \<open>Complete\<close> then hands exactly this encoding to \<open>udp_sendto\<close>, once, for the address the
  query came from.\<close>

theorem dns_response_refines_spec:
  assumes query: "12 \<le> length req" "12 \<le> q" "q \<le> length req" "q \<le> dns_max_packet" "alloc q"
    and full: "list_all op_full ops"
    and spec: "spec_ops (spec_op codes) ops (spec_of_query req q) = (results, s)"
    and net: "pbuf_alloc_ok net" "pbuf_take_result net = ERR_OK"
  shows "\<exists>r0 r. new_response alloc (Some pcb) remote port (Some req) q = Some r0 \<and>
     build_response codes ops r0 = Some (results, r) \<and>
     rsp_buffer r = encode_response codes s \<and> length (rsp_buffer r) \<le> 512 \<and>
     unat (rsp_answer_count r) = length (spec_answers s) \<and>
     complete_response net r = Some
       (let sent = [\<lparr>dg_pcb = pcb, dg_payload = encode_response codes s, dg_address = remote,
          dg_port = port\<rparr>]
        in if udp_sendto_result net = ERR_OK then (Success, r\<lparr>rsp_completed := True\<rparr>, sent)
           else (Failure (dns_lwip_error (udp_sendto_result net))
                   (Some (NativeLwip (udp_sendto_result net))), r, sent))"
proof -
  obtain r0 where r0: "new_response alloc (Some pcb) remote port (Some req) q = Some r0"
    "building codes (spec_of_query req q) r0" "destination r0 = (Some pcb, remote, port)"
    using new_response_represents [of req q alloc pcb remote port codes] query
    by (auto simp: building_def destination_def)
  obtain r where r: "build_response codes ops r0 = Some (results, r)" "building codes s r"
    using build_response_building [OF r0(2) full spec] by blast
  have "list_all (\<lambda>a. full_address (ans_address a)) (spec_answers s)"
    using spec_ops_full [OF spec full] by (simp add: spec_of_query_def)
  note count = building_answer_count [OF r(2) this]
  have "destination r = (Some pcb, remote, port)"
    using build_response_destination [OF r(1)] r0(3) by simp
  note sends = complete_response_sends [OF r(2) this net]
  show ?thesis
    using r0(1) r count sends by (auto simp: building_def represents_def dns_max_packet_def)
qed

text \<open>A query for the name "a" answered with one IPv4 address.\<close>

definition sample_query :: bytes where
  "sample_query = [0x12, 0x34, 0x01, 0x00, 0, 1, 0, 0, 0, 0, 0, 0, 1, 0x61, 0, 0, 1, 0, 1]"

definition sample_address :: dns_address where
  "sample_address = \<lparr>addr_family = IPv4, addr_bytes = [192, 168, 4, 1] @ replicate 12 0\<rparr>"

theorem dns_response_refines_spec_witness:
  "\<exists>r0 r. new_response (\<lambda>_. True) (Some 7) 8 9 (Some sample_query) 19 = Some r0 \<and>
     build_response \<lparr>code_a = 1, code_aaaa = 28, code_internet = 1, code_format_error = 1\<rparr>
       [AddAnswer sample_address 60 True] r0 = Some ([Success], r) \<and> length (rsp_buffer r) \<le> 512"
  using dns_response_refines_spec [of sample_query 19 "\<lambda>_. True" "[AddAnswer sample_address 60 True]"
      "\<lparr>code_a = 1, code_aaaa = 28, code_internet = 1, code_format_error = 1\<rparr>" "[Success]"
      "(spec_of_query sample_query 19)\<lparr>spec_answers := [\<lparr>ans_address = sample_address, ans_ttl = 60\<rparr>]\<rparr>"
      "\<lparr>pbuf_alloc_ok = True, pbuf_take_result = ERR_OK, udp_sendto_result = ERR_OK\<rparr>" 7 8 9]
  by (auto simp: sample_query_def sample_address_def spec_of_query_def dns_max_packet_def
      full_address_def answer_size_def encode_response_def)

end
