(* ===== verification/Dns_Server.thy ===== *)
theory Dns_Server
  imports Dns_Response
begin

text \<open>
  \<open>ESP32DnsServerPlatform\<close> of src/ESPressio_DnsServerPlatform.hpp: the lifecycle of the listening
  socket (\<open>Initialize\<close>, \<open>Start\<close>, \<open>Stop\<close>, \<open>Reset\<close> and the two functions that run on the
  TCP/IP thread) and the datagram handler \<open>ReceivePacket\<close> with \<open>SendFormatError\<close>.

  lwIP is a parameter: \<open>udp_env\<close> holds its answers to the calls of one operation. The operations
  return the lwIP calls they make, so that the balance of created and removed control blocks, and
  of packet buffers, can be stated.
\<close>

section \<open>Lifecycle\<close>

text \<open>
  Of \<open>DnsServerConfiguration\<close> this code reads the port only. The dispatcher and the control
  block are opaque pointers.
\<close>

record dns_server =
  srv_port :: u16
  srv_dispatcher :: "nat option"
  srv_listening :: bool
  srv_pcb :: "nat option"

text \<open>
  \<open>tcpip_api_call\<close> runs the function on the TCP/IP thread and returns what it returned, or
  refuses with an error without running it.
\<close>

datatype api_call = ApiRuns | ApiRefused lwip_err

record udp_env =
  env_api :: api_call
  env_new_pcb :: "nat option"
  env_bind :: lwip_err

definition env_ok :: "udp_env \<Rightarrow> bool" where
  "env_ok env \<longleftrightarrow> env_api env \<noteq> ApiRefused ERR_OK"

datatype udp_call =
    UdpRecvOff nat
  | UdpRemove nat
  | UdpNew nat
  | UdpBind nat u16
  | UdpRecvOn nat

definition fresh_server :: "u16 \<Rightarrow> dns_server" where
  "fresh_server default_port =
     \<lparr>srv_port = default_port, srv_dispatcher = None, srv_listening = False, srv_pcb = None\<rparr>"

definition remove_pcb :: "dns_server \<Rightarrow> dns_server \<times> udp_call list" where
  "remove_pcb s = (case srv_pcb s of
       None \<Rightarrow> (s, [])
     | Some p \<Rightarrow> (s\<lparr>srv_pcb := None\<rparr>, [UdpRecvOff p, UdpRemove p]))"

text \<open>
  \<open>StartOnTcpipThread\<close>: the new state, \<open>call.Result\<close> and the calls; the function itself always
  returns \<open>ERR_OK\<close> (the owner is the calling object, never null).
\<close>

definition start_on_tcpip_thread ::
    "udp_env \<Rightarrow> u16 \<Rightarrow> dns_server \<Rightarrow> lwip_err \<times> dns_server \<times> udp_call list" where
  "start_on_tcpip_thread env port s =
     (let (s1, old) = remove_pcb s
      in case env_new_pcb env of
        None \<Rightarrow> (ERR_MEM, s1, old)
      | Some p \<Rightarrow>
          if env_bind env \<noteq> ERR_OK
          then (env_bind env, s1\<lparr>srv_pcb := None\<rparr>, old @ [UdpNew p, UdpBind p port, UdpRemove p])
          else (ERR_OK, s1\<lparr>srv_pcb := Some p\<rparr>, old @ [UdpNew p, UdpBind p port, UdpRecvOn p]))"

text \<open>\<open>StopOnTcpipThread\<close>\<close>

definition stop_on_tcpip_thread :: "dns_server \<Rightarrow> lwip_err \<times> dns_server \<times> udp_call list" where
  "stop_on_tcpip_thread s = (let (s1, calls) = remove_pcb s in (ERR_OK, s1, calls))"

definition dns_initialize :: "u16 \<Rightarrow> nat \<Rightarrow> dns_server \<Rightarrow> web_result \<times> dns_server" where
  "dns_initialize port dispatcher s =
     (if srv_listening s then (fail_with InvalidState, s)
      else (Success, s\<lparr>srv_port := port, srv_dispatcher := Some dispatcher\<rparr>))"

definition dns_start :: "udp_env \<Rightarrow> dns_server \<Rightarrow> web_result \<times> dns_server \<times> udp_call list" where
  "dns_start env s =
     (if srv_listening s then (fail_with AlreadyRunning, s, [])
      else if srv_dispatcher s = None then (fail_with InvalidState, s, [])
      else
        let (result, s1, calls) = (case env_api env of
              ApiRefused e \<Rightarrow> (e, s, [])
            | ApiRuns \<Rightarrow> start_on_tcpip_thread env (srv_port s) s)
        in if result \<noteq> ERR_OK
           then (Failure (dns_lwip_error result) (Some (NativeLwip result)), s1, calls)
           else (Success, s1\<lparr>srv_listening := True\<rparr>, calls))"

definition dns_stop :: "udp_env \<Rightarrow> dns_server \<Rightarrow> web_result \<times> dns_server \<times> udp_call list" where
  "dns_stop env s =
     (if \<not> srv_listening s then (Success, s, [])
      else
        let s0 = s\<lparr>srv_listening := False\<rparr>;
            (result, s1, calls) = (case env_api env of
              ApiRefused e \<Rightarrow> (e, s0, [])
            | ApiRuns \<Rightarrow> stop_on_tcpip_thread s0)
        in if result = ERR_OK then (Success, s1, calls)
           else (Failure (dns_lwip_error result) (Some (NativeLwip result)), s1, calls))"

definition dns_reset :: "udp_env \<Rightarrow> u16 \<Rightarrow> dns_server \<Rightarrow> dns_server \<times> udp_call list" where
  "dns_reset env default_port s =
     (let (_, s1, calls) = dns_stop env s
      in (s1\<lparr>srv_dispatcher := None, srv_port := default_port\<rparr>, calls))"

lemmas dns_op_defs = dns_initialize_def dns_start_def dns_stop_def dns_reset_def
  start_on_tcpip_thread_def stop_on_tcpip_thread_def remove_pcb_def

text \<open>One operation, with the lwIP calls it makes.\<close>

inductive dns_step :: "u16 \<Rightarrow> dns_server \<Rightarrow> udp_call list \<Rightarrow> dns_server \<Rightarrow> bool" for default_port :: u16 where
  initialize: "dns_initialize port d s = (res, s') \<Longrightarrow> dns_step default_port s [] s'"
| start: "env_ok env \<Longrightarrow> dns_start env s = (res, s', calls) \<Longrightarrow> dns_step default_port s calls s'"
| stop: "env_ok env \<Longrightarrow> dns_stop env s = (res, s', calls) \<Longrightarrow> dns_step default_port s calls s'"
| reset: "env_ok env \<Longrightarrow> dns_reset env default_port s = (s', calls) \<Longrightarrow>
    dns_step default_port s calls s'"

text \<open>The states an object reaches, with all lwIP calls of its life so far.\<close>

inductive dns_reach :: "u16 \<Rightarrow> udp_call list \<Rightarrow> dns_server \<Rightarrow> bool" for default_port :: u16 where
  fresh: "dns_reach default_port [] (fresh_server default_port)"
| step: "dns_reach default_port calls s \<Longrightarrow> dns_step default_port s later s' \<Longrightarrow>
    dns_reach default_port (calls @ later) s'"

text \<open>Control blocks created and not removed, in order of the calls.\<close>

fun live_after :: "udp_call list \<Rightarrow> nat list \<Rightarrow> nat list" where
  "live_after [] live = live"
| "live_after (UdpNew p # cs) live = live_after cs (live @ [p])"
| "live_after (UdpRemove p # cs) live = live_after cs (remove1 p live)"
| "live_after (_ # cs) live = live_after cs live"

lemma live_after_append: "live_after (cs @ ds) live = live_after ds (live_after cs live)"
  by (induction cs live rule: live_after.induct) auto

definition owned :: "dns_server \<Rightarrow> nat list" where
  "owned s = (case srv_pcb s of None \<Rightarrow> [] | Some p \<Rightarrow> [p])"

definition dns_inv :: "dns_server \<Rightarrow> bool" where
  "dns_inv s \<longleftrightarrow> (srv_listening s \<longrightarrow> srv_pcb s \<noteq> None \<and> srv_dispatcher s \<noteq> None)"

lemma dns_step_inv: "dns_step dp s calls s' \<Longrightarrow> dns_inv s \<Longrightarrow> dns_inv s'"
  by (induction rule: dns_step.induct)
    (auto simp: dns_inv_def env_ok_def dns_op_defs Let_def
      split: if_splits option.splits api_call.splits prod.splits)

lemma dns_step_owned: "dns_step dp s calls s' \<Longrightarrow> live_after calls (owned s) = owned s'"
  by (induction rule: dns_step.induct)
    (auto simp: owned_def dns_op_defs Let_def
      split: if_splits option.splits api_call.splits prod.splits)

lemma dns_reach_inv: "dns_reach dp calls s \<Longrightarrow> dns_inv s"
  by (induction rule: dns_reach.induct)
    (auto simp: dns_inv_def fresh_server_def dest: dns_step_inv [unfolded dns_inv_def])

lemma dns_reach_owned: "dns_reach dp calls s \<Longrightarrow> live_after calls [] = owned s"
  by (induction rule: dns_reach.induct)
    (auto simp: owned_def fresh_server_def live_after_append dest: dns_step_owned)

section \<open>The datagram handler\<close>

text \<open>
  What the handler does, in order. A request is dispatched with its name, type and class and the
  prepared response.
\<close>

datatype dns_event =
    PbufFreeIncoming
  | PbufAlloc
  | PbufFree
  | SendTo datagram
  | Dispatch nat bytes u16 u16 dns_response

text \<open>
  The answers of lwIP and of the allocator to the calls of one \<open>ReceivePacket\<close>:
  \<open>rx_copied\<close> is what \<open>pbuf_copy_partial\<close> returns, \<open>rx_alloc\<close> and \<open>rx_alloc_response\<close> whether
  the two \<open>resize\<close> calls get their memory, the other two answer \<open>SendFormatError\<close>.
\<close>

record receive_env =
  rx_alloc :: bool
  rx_alloc_response :: bool
  rx_copied :: nat
  rx_pbuf_alloc :: bool
  rx_pbuf_take :: lwip_err

definition send_format_error ::
    "dns_codes \<Rightarrow> receive_env \<Rightarrow> nat option \<Rightarrow> nat \<Rightarrow> u16 \<Rightarrow> bytes \<Rightarrow> dns_event list option" where
  "send_format_error codes env pcb remote port request =
     (case pcb of
        None \<Rightarrow> Some []
      | Some p \<Rightarrow>
          if length request < 2 then Some []
          else do {
            id0 \<leftarrow> rd request 0;
            id1 \<leftarrow> rd request 1;
            r0 \<leftarrow> wr (replicate 12 0) 0 id0;
            r1 \<leftarrow> wr r0 1 id1;
            response \<leftarrow> write_dns16 r1 2 (0x8000 OR 0x0400 OR ucast (code_format_error codes));
            if \<not> rx_pbuf_alloc env then Some []
            else Some (PbufAlloc #
              (if rx_pbuf_take env = ERR_OK
               then [SendTo \<lparr>dg_pcb = p, dg_payload = response, dg_address = remote,
                      dg_port = port\<rparr>]
               else []) @ [PbufFree])
          })"

text \<open>
  \<open>ReceivePacket\<close>. The owner, the control block, the packet and the remote address may each be
  null. The bytes copied out of the packet are the packet's bytes when
  \<open>pbuf_copy_partial\<close> reports the full length.
\<close>

definition receive_packet ::
    "dns_codes \<Rightarrow> receive_env \<Rightarrow> dns_server option \<Rightarrow> nat option \<Rightarrow> bytes option \<Rightarrow> nat option
      \<Rightarrow> u16 \<Rightarrow> dns_event list option" where
  "receive_packet codes env owner pcb packet remote_address remote_port =
     (case packet of
        None \<Rightarrow> Some []
      | Some content \<Rightarrow>
          (case (owner, pcb, remote_address) of
             (Some server, Some p, Some remote) \<Rightarrow>
               if \<not> srv_listening server then Some [PbufFreeIncoming]
               else (case srv_dispatcher server of
                   None \<Rightarrow> Some [PbufFreeIncoming]
                 | Some dispatcher \<Rightarrow>
                     let size = length content
                     in if size < 12 \<or> size > dns_max_packet then Some [PbufFreeIncoming]
                     else if \<not> rx_alloc env then Some [PbufFreeIncoming]
                     else if rx_copied env \<noteq> size then Some [PbufFreeIncoming]
                     else do {
                       flags \<leftarrow> read_dns16 content 2;
                       question_count \<leftarrow> read_dns16 content 4;
                       if flags AND 0x8000 \<noteq> 0 \<or> question_count \<noteq> 1
                       then map_option ((#) PbufFreeIncoming)
                              (send_format_error codes env pcb remote remote_port content)
                       else do {
                         decoded \<leftarrow> decode_dns_name content 12;
                         (case decoded of
                            NameBad \<Rightarrow> map_option ((#) PbufFreeIncoming)
                              (send_format_error codes env pcb remote remote_port content)
                          | NameOk name encoded_end \<Rightarrow>
                              if encoded_end + 4 > size
                              then map_option ((#) PbufFreeIncoming)
                                (send_format_error codes env pcb remote remote_port content)
                              else do {
                                type \<leftarrow> read_dns16 content encoded_end;
                                class \<leftarrow> read_dns16 content (encoded_end + 2);
                                let question_end = encoded_end + 4;
                                response \<leftarrow> new_response (\<lambda>_. rx_alloc_response env) pcb remote
                                  remote_port (Some content) question_end;
                                if \<not> rsp_valid response then Some [PbufFreeIncoming]
                                else Some [PbufFreeIncoming,
                                  Dispatch dispatcher name type class response]
                              })
                       }
                     })
           | _ \<Rightarrow> Some [PbufFreeIncoming]))"

lemma send_format_error_eq:
  "send_format_error codes env (Some p) remote port (i0 # i1 # rest) =
     (if \<not> rx_pbuf_alloc env then Some []
      else Some (PbufAlloc #
        (if rx_pbuf_take env = ERR_OK
         then [SendTo \<lparr>dg_pcb = p,
           dg_payload = [i0, i1] @ be16 (0x8400 OR ucast (code_format_error codes)) @ replicate 8 0,
           dg_address = remote, dg_port = port\<rparr>]
         else []) @ [PbufFree]))"
proof -
  have zeros: "replicate 12 (0 :: u8) = 0 # 0 # 0 # 0 # replicate 8 0"
    by (simp add: numeral_eq_Suc)
  show ?thesis
    by (simp add: send_format_error_def zeros header_writes response_bits)
qed

lemma send_format_error_total [simp]: "send_format_error codes env pcb remote port req \<noteq> None"
proof (cases "pcb = None \<or> length req < 2")
  case True
  then show ?thesis by (cases pcb) (auto simp: send_format_error_def)
next
  case False
  moreover obtain i0 i1 rest where "req = i0 # i1 # rest"
    using False by (cases req rule: remdups_adj.cases) auto
  ultimately show ?thesis by (auto simp: send_format_error_eq)
qed

lemma new_response_invalid:
  assumes "pcb = None \<or> length req < 12 \<or> q > length req \<or> q > dns_max_packet \<or> \<not> alloc q"
  shows "\<exists>r. new_response alloc pcb remote port (Some req) q = Some r \<and> \<not> rsp_valid r"
  using assms by (auto simp: new_response_def Let_def)

lemma new_response_total:
  assumes "12 \<le> q"
  shows "new_response alloc pcb remote port (Some req) q \<noteq> None"
proof (cases "pcb = None \<or> length req < 12 \<or> q > length req \<or> q > dns_max_packet \<or> \<not> alloc q")
  case True
  then obtain r where "new_response alloc pcb remote port (Some req) q = Some r"
    using new_response_invalid [of pcb req q alloc] by blast
  then show ?thesis by simp
next
  case False
  then obtain p where "pcb = Some p" by auto
  then show ?thesis
    using new_response_represents [of req q alloc p remote port undefined] assms False
    by auto
qed

text \<open>
  The handler reaches the bytes only with an owner that listens and has a dispatcher, a size
  within the limits, and a complete copy.
\<close>

definition accepted :: "receive_env \<Rightarrow> dns_server option \<Rightarrow> nat option \<Rightarrow> bytes \<Rightarrow> nat option \<Rightarrow> bool"
  where "accepted env owner pcb content remote \<longleftrightarrow>
     pcb \<noteq> None \<and> remote \<noteq> None \<and> rx_alloc env \<and> rx_copied env = length content \<and>
     12 \<le> length content \<and> length content \<le> dns_max_packet \<and>
     (\<exists>s. owner = Some s \<and> srv_listening s \<and> srv_dispatcher s \<noteq> None)"

text \<open>A query with one question whose name and type and class lie inside the packet.\<close>

definition question_of :: "bytes \<Rightarrow> (bytes \<times> nat) option" where
  "question_of content =
     (if of_be16 (content ! 2) (content ! 3) AND 0x8000 \<noteq> 0
         \<or> of_be16 (content ! 4) (content ! 5) \<noteq> 1 then None
      else (case decode_dns_name content 12 of
          Some (NameOk name e) \<Rightarrow> if e + 4 \<le> length content then Some (name, e) else None
        | _ \<Rightarrow> None))"

lemma receive_packet_refused:
  "\<not> accepted env owner pcb content remote \<Longrightarrow>
     receive_packet codes env owner pcb (Some content) remote port = Some [PbufFreeIncoming]"
  by (auto simp: receive_packet_def accepted_def Let_def split: option.splits)

lemma question_of_end:
  "question_of content = Some (name, e) \<Longrightarrow>
     12 < e \<and> e + 4 \<le> length content \<and> length name \<le> 253"
  by (auto simp: question_of_def split: if_splits option.splits name_outcome.splits
      dest: decode_dns_name_end)

lemma receive_packet_malformed:
  assumes "accepted env owner pcb content (Some remote)" "question_of content = None"
  shows "receive_packet codes env owner pcb (Some content) (Some remote) port =
     map_option ((#) PbufFreeIncoming) (send_format_error codes env pcb remote port content)"
proof -
  obtain s p d where o: "owner = Some s" "pcb = Some p" "srv_dispatcher s = Some d"
    "srv_listening s" using assms(1) by (auto simp: accepted_def)
  have c: "rx_alloc env" "rx_copied env = length content" "12 \<le> length content"
    "length content \<le> dns_max_packet" using assms(1) by (auto simp: accepted_def)
  have r: "read_dns16 content 2 = Some (of_be16 (content ! 2) (content ! 3))"
    "read_dns16 content 4 = Some (of_be16 (content ! 4) (content ! 5))"
    using c by (simp_all add: read_dns16_eq)
  obtain out where out: "decode_dns_name content 12 = Some out"
    using decode_dns_name_total [of content 12] by blast
  show ?thesis
    using assms(2) c by (cases out) (auto simp: receive_packet_def o r out Let_def question_of_def
      split: if_splits)
qed

lemma receive_packet_question:
  assumes "accepted env owner pcb content (Some remote)" "question_of content = Some (name, e)"
  shows "receive_packet codes env owner pcb (Some content) (Some remote) port =
     do {
       r \<leftarrow> new_response (\<lambda>_. rx_alloc_response env) pcb remote port (Some content) (e + 4);
       if \<not> rsp_valid r then Some [PbufFreeIncoming]
       else Some [PbufFreeIncoming,
         Dispatch (the (srv_dispatcher (the owner))) name
           (of_be16 (content ! e) (content ! (e + 1)))
           (of_be16 (content ! (e + 2)) (content ! (e + 3))) r]
     }"
proof -
  obtain s p d where o: "owner = Some s" "pcb = Some p" "srv_dispatcher s = Some d"
    "srv_listening s" using assms(1) by (auto simp: accepted_def)
  have c: "rx_alloc env" "rx_copied env = length content" "12 \<le> length content"
    "length content \<le> dns_max_packet" using assms(1) by (auto simp: accepted_def)
  have e: "e + 4 \<le> length content" using question_of_end [OF assms(2)] by simp
  have out: "decode_dns_name content 12 = Some (NameOk name e)"
    "of_be16 (content ! 2) (content ! 3) AND 0x8000 = 0" "of_be16 (content ! 4) (content ! 5) = 1"
    using assms(2)
    by (auto simp: question_of_def split: if_splits option.splits name_outcome.splits)
  have r: "read_dns16 content 2 = Some (of_be16 (content ! 2) (content ! 3))"
    "read_dns16 content 4 = Some 1"
    "read_dns16 content e = Some (of_be16 (content ! e) (content ! (e + 1)))"
    "read_dns16 content (e + 2) = Some (of_be16 (content ! (e + 2)) (content ! (e + 3)))"
    using c e out by (simp_all add: read_dns16_eq numeral_3_eq_3)
  show ?thesis
    using c e r by (simp add: receive_packet_def o out Let_def cong: if_cong)
qed

text \<open>The question section the response carries back is the question of the query.\<close>

lemma receive_packet_dispatches:
  assumes "accepted env owner pcb content (Some remote)" "question_of content = Some (name, e)"
    and "rx_alloc_response env"
  shows "\<exists>r. receive_packet codes env owner pcb (Some content) (Some remote) port =
       Some [PbufFreeIncoming,
         Dispatch (the (srv_dispatcher (the owner))) name
           (of_be16 (content ! e) (content ! (e + 1)))
           (of_be16 (content ! (e + 2)) (content ! (e + 3))) r] \<and>
     building codes (spec_of_query content (e + 4)) r"
proof -
  obtain p where p: "pcb = Some p" using assms(1) by (auto simp: accepted_def)
  have b: "12 \<le> length content" "length content \<le> dns_max_packet"
    using assms(1) by (auto simp: accepted_def)
  obtain r where r: "new_response (\<lambda>_. rx_alloc_response env) (Some p) remote port (Some content)
      (e + 4) = Some r" "represents codes (spec_of_query content (e + 4)) r" "\<not> rsp_completed r"
    using new_response_represents [of content "e + 4" "\<lambda>_. rx_alloc_response env" p remote port codes]
      question_of_end [OF assms(2)] b assms(3) by auto
  then show ?thesis
    unfolding receive_packet_question [OF assms(1,2) [unfolded p]] p
    by (auto simp: building_def represents_def)
qed

lemma receive_packet_in_bounds:
  "receive_packet codes env owner pcb packet remote port \<noteq> None"
proof (cases packet)
  case (Some content)
  show ?thesis
  proof (cases "accepted env owner pcb content remote")
    case False
    then show ?thesis by (simp add: Some receive_packet_refused)
  next
    case True
    then obtain r where r: "remote = Some r" by (auto simp: accepted_def)
    note acc = True [unfolded r]
    show ?thesis
    proof (cases "question_of content")
      case None
      then show ?thesis by (simp add: Some r receive_packet_malformed [OF acc])
    next
      case (Some q)
      then obtain name e where q: "question_of content = Some (name, e)" by (cases q) auto
      have "new_response a pcb r port (Some content) (e + 4) \<noteq> None" for a
        by (rule new_response_total) (use question_of_end [OF q] in simp)
      then show ?thesis
        unfolding \<open>packet = Some content\<close> r receive_packet_question [OF acc q]
        by (auto split: bind_splits)
    qed
  qed
qed (simp add: receive_packet_def)

text \<open>Packet buffers: the incoming one is freed once and first, an outgoing one always.\<close>

lemma send_format_error_balance:
  assumes "send_format_error codes env pcb remote port req = Some ev"
  shows "PbufFreeIncoming \<notin> set ev \<and> count_list ev PbufAlloc = count_list ev PbufFree \<and>
    (\<forall>d n t c r. Dispatch d n t c r \<notin> set ev)"
  using assms
  by (auto simp: send_format_error_def split: option.splits if_splits bind_splits)

lemma receive_packet_frees_once:
  assumes "receive_packet codes env owner pcb (Some content) remote port = Some ev"
  shows "\<exists>rest. ev = PbufFreeIncoming # rest \<and> PbufFreeIncoming \<notin> set rest \<and>
    count_list rest PbufAlloc = count_list rest PbufFree"
proof (cases "accepted env owner pcb content remote")
  case False
  then show ?thesis using assms by (auto simp: receive_packet_refused)
next
  case True
  then obtain r where r: "remote = Some r" by (auto simp: accepted_def)
  note acc = True [unfolded r] and as = assms [unfolded r]
  show ?thesis
  proof (cases "question_of content")
    case None
    then show ?thesis
      using as send_format_error_balance by (fastforce simp: receive_packet_malformed [OF acc])
  next
    case (Some q)
    then obtain name e where q: "question_of content = Some (name, e)" by (cases q) auto
    show ?thesis
      using as unfolding receive_packet_question [OF acc q]
      by (auto split: bind_splits if_splits)
  qed
qed

section \<open>The properties of the server\<close>

text \<open>C4: Whatever arrives, \<open>ReceivePacket\<close> stays inside the packet and its own buffers and frees
  the packet exactly once, before anything else; a buffer it allocates for a reply it frees. The
  dispatcher is called exactly when the object listens, the packet is within the limits and
  holds a query with one well-formed question (and memory is there), and then once, with the name
  of the grammar, with the type and class that follow it, and with a response that is the encoding
  of the empty answer to this query. A malformed query is answered by the twelve-byte format error
  that carries its identifier.\<close>

theorem dns_datagram_handling:
  "\<exists>later. receive_packet codes env owner (Some p) (Some content) (Some remote) port =
       Some (PbufFreeIncoming # later) \<and>
     PbufFreeIncoming \<notin> set later \<and>
     count_list later PbufAlloc = count_list later PbufFree \<and>
     (case (accepted env owner (Some p) content (Some remote), question_of content) of
        (False, _) \<Rightarrow> later = []
      | (True, None) \<Rightarrow> later =
          (if \<not> rx_pbuf_alloc env then []
           else PbufAlloc #
             (if rx_pbuf_take env = ERR_OK
              then [SendTo \<lparr>dg_pcb = p,
                dg_payload = take 2 content @ be16 (0x8400 OR ucast (code_format_error codes))
                  @ replicate 8 0,
                dg_address = remote, dg_port = port\<rparr>]
              else []) @ [PbufFree])
      | (True, Some (name, e)) \<Rightarrow>
          if rx_alloc_response env
          then (\<exists>r. later = [Dispatch (the (srv_dispatcher (the owner))) name
               (of_be16 (content ! e) (content ! (e + 1)))
               (of_be16 (content ! (e + 2)) (content ! (e + 3))) r] \<and>
             building codes (spec_of_query content (e + 4)) r)
          else later = [])"
proof -
  obtain ev where ev: "receive_packet codes env owner (Some p) (Some content) (Some remote) port
      = Some ev" using receive_packet_in_bounds by blast
  from receive_packet_frees_once [OF ev] obtain later where
    later: "ev = PbufFreeIncoming # later" "PbufFreeIncoming \<notin> set later"
      "count_list later PbufAlloc = count_list later PbufFree" by blast
  show ?thesis
  proof (cases "accepted env owner (Some p) content (Some remote)")
    case False
    then show ?thesis by (simp add: receive_packet_refused)
  next
    case acc: True
    then obtain i0 i1 rest where content: "content = i0 # i1 # rest"
      by (cases content rule: remdups_adj.cases) (auto simp: accepted_def)
    show ?thesis
    proof (cases "question_of content")
      case None
      show ?thesis
        unfolding receive_packet_malformed [OF acc None, of codes port]
        using acc None by (simp add: content send_format_error_eq)
    next
      case (Some q)
      then obtain name e where q: "question_of content = Some (name, e)" by (cases q) auto
      show ?thesis
      proof (cases "rx_alloc_response env")
        case True
        from receive_packet_dispatches [OF acc q True, of codes port]
        obtain r where r: "receive_packet codes env owner (Some p) (Some content) (Some remote) port
          = Some [PbufFreeIncoming, Dispatch (the (srv_dispatcher (the owner))) name
               (of_be16 (content ! e) (content ! (e + 1)))
               (of_be16 (content ! (e + 2)) (content ! (e + 3))) r]"
          "building codes (spec_of_query content (e + 4)) r" by blast
        show ?thesis
          unfolding r(1) using acc q True r(2)
          by - (rule exI, intro conjI, rule refl, simp, simp, simp)
      next
        case False
        then obtain r where "new_response (\<lambda>_. rx_alloc_response env) (Some p) remote port
            (Some content) (e + 4) = Some r" "\<not> rsp_valid r"
          using new_response_invalid [of "Some p" content "e + 4" "\<lambda>_. rx_alloc_response env"
              remote port] False by auto
        then show ?thesis
          using acc q False by (simp add: receive_packet_question [OF acc q])
      qed
    qed
  qed
qed

text \<open>C5: In every state an object reaches through its operations, under any answers of lwIP, a
  listening object has a control block and a dispatcher, and of all the control blocks it ever
  created exactly the one it holds is still open: none is lost and none is removed twice.\<close>

theorem dns_lifecycle_balanced:
  assumes "dns_reach default_port calls s"
  shows "(srv_listening s \<longrightarrow> srv_pcb s \<noteq> None \<and> srv_dispatcher s \<noteq> None) \<and>
    live_after calls [] = owned s"
  using dns_reach_inv [OF assms] dns_reach_owned [OF assms] by (simp add: dns_inv_def)

definition sample_udp_env :: udp_env where
  "sample_udp_env = \<lparr>env_api = ApiRuns, env_new_pcb = Some 5, env_bind = ERR_OK\<rparr>"

theorem dns_lifecycle_balanced_witness:
  "\<exists>calls s. dns_reach 53 calls s \<and> srv_listening s \<and> live_after calls [] = [5]"
proof -
  define s1 where "s1 = snd (dns_initialize 53 1 (fresh_server 53))"
  define s2 where "s2 = fst (snd (dns_start sample_udp_env s1))"
  define calls where "calls = snd (snd (dns_start sample_udp_env s1))"
  have "dns_reach 53 ([] @ []) s1"
    by (rule dns_reach.step, rule dns_reach.fresh, rule dns_step.initialize [of 53 1 _ Success])
      (simp add: s1_def dns_initialize_def fresh_server_def)
  then have "dns_reach 53 (([] @ []) @ calls) s2"
    by (rule dns_reach.step)
      (rule dns_step.start [of sample_udp_env _ Success],
        simp_all add: s1_def s2_def calls_def dns_op_defs fresh_server_def sample_udp_env_def
          env_ok_def)
  from this dns_lifecycle_balanced [OF this] show ?thesis
    by (intro exI [of _ "([] @ []) @ calls"] exI [of _ s2])
      (simp add: s1_def s2_def calls_def dns_op_defs fresh_server_def sample_udp_env_def owned_def)
qed

text \<open>C6: A \<open>Stop\<close> that the TCP/IP thread refuses is final. It leaves the control block open, with
  the receive callback still registered on this object, and every later \<open>Stop\<close>, whatever lwIP
  answers then, reports success without a single lwIP call.\<close>

theorem dns_refused_stop_leaks:
  assumes "srv_listening s" "env_api env = ApiRefused e" "e \<noteq> ERR_OK"
  shows "\<exists>s'. dns_stop env s =
      (Failure (dns_lwip_error e) (Some (NativeLwip e)), s', []) \<and> srv_pcb s' = srv_pcb s \<and>
      (\<forall>env'. dns_stop env' s' = (Success, s', []))"
  using assms by (auto simp: dns_stop_def)

theorem dns_refused_stop_leaks_witness:
  "\<exists>s'. dns_stop \<lparr>env_api = ApiRefused ERR_MEM, env_new_pcb = None, env_bind = ERR_OK\<rparr>
      \<lparr>srv_port = 53, srv_dispatcher = Some 1, srv_listening = True, srv_pcb = Some 5\<rparr>
      = (Failure ResourceExhausted (Some (NativeLwip ERR_MEM)), s', []) \<and> srv_pcb s' = Some 5"
  using dns_refused_stop_leaks [of
      "\<lparr>srv_port = 53, srv_dispatcher = Some 1, srv_listening = True, srv_pcb = Some 5\<rparr>"
      "\<lparr>env_api = ApiRefused ERR_MEM, env_new_pcb = None, env_bind = ERR_OK\<rparr>" ERR_MEM]
  by (auto simp: dns_lwip_error_def)

end
