(* ===== verification/Bounded_Fifo.thy ===== *)
theory Bounded_Fifo
  imports Prelude
begin

text \<open>
  Rings of slots read as lists, and the contract of a bounded first-in-first-out buffer as its
  producers and consumers use it. The provider names an invariant and the contents as a list; the
  lemmas say what any sequence of calls does. Raw_Radio.thy provides its receive ring.
\<close>

section \<open>Rings\<close>

text \<open>
  A ring of slots with a read and a write index: the slots from the read index up to the write
  index are in use, one slot stays free.
\<close>

definition ring_used :: "nat \<Rightarrow> nat \<Rightarrow> nat \<Rightarrow> nat" where
  "ring_used n r w = (if r \<le> w then w - r else w + n - r)"

definition ring_list :: "'b list \<Rightarrow> nat \<Rightarrow> nat \<Rightarrow> 'b list" where
  "ring_list q r w = map (\<lambda>i. q ! ((r + i) mod length q)) [0..<ring_used (length q) r w]"

lemma length_ring_list [simp]: "length (ring_list q r w) = ring_used (length q) r w"
  by (simp add: ring_list_def)

lemma ring_list_empty_iff [simp]:
  "r < length q \<Longrightarrow> w < length q \<Longrightarrow> ring_list q r w = [] \<longleftrightarrow> r = w"
  by (auto simp: ring_list_def ring_used_def)

lemma ring_used_full_iff:
  "r < n \<Longrightarrow> w < n \<Longrightarrow> (w + 1) mod n = r \<longleftrightarrow> ring_used n r w = n - 1"
  by (auto simp: mod_Suc ring_used_def split: if_splits)

lemma ring_used_less: "r < n \<Longrightarrow> w < n \<Longrightarrow> ring_used n r w < n"
  by (auto simp: ring_used_def)

lemma ring_used_next_write:
  "r < n \<Longrightarrow> w < n \<Longrightarrow> (w + 1) mod n \<noteq> r \<Longrightarrow> ring_used n r ((w + 1) mod n) = Suc (ring_used n r w)"
  by (auto simp: mod_Suc ring_used_def split: if_splits)

lemma ring_used_next_read:
  "r < n \<Longrightarrow> w < n \<Longrightarrow> r \<noteq> w \<Longrightarrow> ring_used n r w = Suc (ring_used n ((r + 1) mod n) w)"
  by (auto simp: mod_Suc ring_used_def split: if_splits)

lemma ring_write_pos: "r < n \<Longrightarrow> w < n \<Longrightarrow> (r + ring_used n r w) mod n = w"
  by (auto simp: ring_used_def)

lemma ring_pos_less_write:
  assumes "r < n" "w < n" "i < ring_used n r w" shows "w \<noteq> (r + i) mod n"
proof (cases "r + i < n")
  case True
  then show ?thesis using assms by (auto simp: ring_used_def split: if_splits)
next
  case False
  then have "(r + i) mod n = r + i - n"
    using assms ring_used_less [OF assms(1,2)] by (simp add: le_mod_geq)
  then show ?thesis using assms False by (auto simp: ring_used_def split: if_splits)
qed

lemma ring_list_put:
  assumes "r < length q" "w < length q" "(w + 1) mod length q \<noteq> r"
  shows "ring_list (q[w := x]) r ((w + 1) mod length q) = ring_list q r w @ [x]"
  using assms ring_pos_less_write [of r "length q" w] ring_write_pos [of r "length q" w]
  by (auto simp: ring_list_def ring_used_next_write [simplified])

lemma ring_list_get:
  assumes "r < length q" "w < length q" "r \<noteq> w"
  shows "ring_list q r w = q ! r # ring_list q ((r + 1) mod length q) w"
proof -
  have "(r + Suc i) mod length q = ((r + 1) mod length q + i) mod length q" for i
    by (simp add: mod_simps)
  then show ?thesis
    using assms
    by (simp add: ring_list_def ring_used_next_read upt_conv_Cons map_Suc_upt [symmetric] del: upt_Suc)
qed

lemma set_ring_list: "r < length q \<Longrightarrow> set (ring_list q r w) \<subseteq> set q"
  by (auto simp: ring_list_def intro!: nth_mem mod_less_divisor)

section \<open>The contract\<close>

datatype 'x fifo_call = Put 'x | Get

text \<open>The same calls on a plain list with a capacity.\<close>

fun list_call :: "nat \<Rightarrow> 'x fifo_call \<Rightarrow> 'x list \<Rightarrow> (bool \<times> 'x option) \<times> 'x list" where
  "list_call cap (Put x) xs = (if length xs < cap then ((True, None), xs @ [x]) else ((False, None), xs))"
| "list_call cap Get [] = ((False, None), [])"
| "list_call cap Get (x # xs) = ((True, Some x), xs)"

fun run_calls :: "('c \<Rightarrow> 's \<Rightarrow> 'r \<times> 's) \<Rightarrow> 'c list \<Rightarrow> 's \<Rightarrow> 'r list \<times> 's" where
  "run_calls f [] s = ([], s)"
| "run_calls f (c # cs) s = (let (r, s1) = f c s; (rs, s2) = run_calls f cs s1 in (r # rs, s2))"

text \<open>What went in and was accepted, and what came out.\<close>

fun accepted_puts :: "'x fifo_call list \<Rightarrow> (bool \<times> 'x option) list \<Rightarrow> 'x list" where
  "accepted_puts (Put x # cs) ((True, _) # rs) = x # accepted_puts cs rs"
| "accepted_puts (_ # cs) (_ # rs) = accepted_puts cs rs"
| "accepted_puts _ _ = []"

fun gotten :: "(bool \<times> 'x option) list \<Rightarrow> 'x list" where
  "gotten [] = []"
| "gotten ((_, Some x) # rs) = x # gotten rs"
| "gotten ((_, None) # rs) = gotten rs"

lemma list_run_in_order:
  "run_calls (list_call cap) cs xs = (rs, ys) \<Longrightarrow> gotten rs @ ys = xs @ accepted_puts cs rs"
proof (induction cs arbitrary: xs rs)
  case (Cons c cs)
  obtain r xs1 where one: "list_call cap c xs = (r, xs1)" by fastforce
  obtain rs' where rest: "run_calls (list_call cap) cs xs1 = (rs', ys)" "rs = r # rs'"
    using Cons.prems one by (auto split: prod.splits)
  from Cons.IH [OF rest(1)] one show ?case
    by (cases "(cap, c, xs)" rule: list_call.cases) (auto simp: rest(2) split: if_splits)
qed simp

lemma list_run_bounded:
  "run_calls (list_call cap) cs xs = (rs, ys) \<Longrightarrow> length xs \<le> cap \<Longrightarrow> length ys \<le> cap"
proof (induction cs arbitrary: xs rs)
  case (Cons c cs)
  obtain r xs1 where one: "list_call cap c xs = (r, xs1)" by fastforce
  obtain rs' where rest: "run_calls (list_call cap) cs xs1 = (rs', ys)"
    using Cons.prems one by (auto split: prod.splits)
  have "length xs1 \<le> cap"
    using one Cons.prems(2)
    by (cases "(cap, c, xs)" rule: list_call.cases) (auto split: if_splits)
  then show ?case using Cons.IH [OF rest] by simp
qed simp

locale bounded_fifo =
  fixes put :: "'x \<Rightarrow> 'q \<Rightarrow> bool \<times> 'q"
    and get :: "'q \<Rightarrow> 'x option \<times> 'q"
    and cap :: nat
    and valid :: "'x \<Rightarrow> bool"
    and inv :: "'q \<Rightarrow> bool"
    and contents :: "'q \<Rightarrow> 'x list"
  assumes inv_put: "inv q \<Longrightarrow> valid x \<Longrightarrow> inv (snd (put x q))"
    and inv_get: "inv q \<Longrightarrow> inv (snd (get q))"
    and put_ok: "inv q \<Longrightarrow> valid x \<Longrightarrow> fst (put x q) \<longleftrightarrow> length (contents q) < cap"
    and put_contents: "inv q \<Longrightarrow> valid x \<Longrightarrow>
      contents (snd (put x q)) = (if length (contents q) < cap then contents q @ [x] else contents q)"
    and get_result: "inv q \<Longrightarrow> fst (get q) = (case contents q of [] \<Rightarrow> None | x # _ \<Rightarrow> Some x)"
    and get_contents: "inv q \<Longrightarrow> contents (snd (get q)) = tl (contents q)"
begin

definition call :: "'x fifo_call \<Rightarrow> 'q \<Rightarrow> (bool \<times> 'x option) \<times> 'q" where
  "call c q = (case c of
       Put x \<Rightarrow> (let (ok, q') = put x q in ((ok, None), q'))
     | Get \<Rightarrow> (let (r, q') = get q in ((r \<noteq> None, r), q')))"

definition valid_call :: "'x fifo_call \<Rightarrow> bool" where
  "valid_call c = (case c of Put x \<Rightarrow> valid x | Get \<Rightarrow> True)"

lemma call_refines:
  assumes "inv q" "valid_call c"
  shows "inv (snd (call c q)) \<and>
    list_call cap c (contents q) = (fst (call c q), contents (snd (call c q)))"
proof (cases c)
  case (Put x)
  then show ?thesis
    using inv_put [of q x] put_ok [of q x] put_contents [of q x] assms
    by (auto simp: call_def valid_call_def split: prod.splits if_splits)
next
  case Get
  then show ?thesis
    using inv_get [OF assms(1)] get_result [OF assms(1)] get_contents [OF assms(1)]
    by (cases "contents q") (auto simp: call_def split: prod.splits)
qed

lemma run_refines:
  "inv q \<Longrightarrow> list_all valid_call cs \<Longrightarrow> run_calls call cs q = (rs, q') \<Longrightarrow>
     inv q' \<and> run_calls (list_call cap) cs (contents q) = (rs, contents q')"
proof (induction cs arbitrary: q rs)
  case (Cons c cs)
  obtain r q1 where one: "call c q = (r, q1)" by fastforce
  obtain rs' where rest: "run_calls call cs q1 = (rs', q')" "rs = r # rs'"
    using Cons.prems(3) one by (auto split: prod.splits)
  show ?case
    using call_refines [OF Cons.prems(1), of c] Cons.IH [OF _ _ rest(1)] Cons.prems(2) one rest(2)
    by auto
qed simp

text \<open>Nothing is lost, duplicated or reordered, and the capacity is kept.\<close>

lemma run_in_order:
  "inv q \<Longrightarrow> list_all valid_call cs \<Longrightarrow> run_calls call cs q = (rs, q') \<Longrightarrow>
     gotten rs @ contents q' = contents q @ accepted_puts cs rs"
  using run_refines list_run_in_order by blast

lemma run_bounded:
  "inv q \<Longrightarrow> length (contents q) \<le> cap \<Longrightarrow>
     list_all valid_call cs \<Longrightarrow> run_calls call cs q = (rs, q') \<Longrightarrow>
     length (contents q') \<le> cap"
  using run_refines list_run_bounded by blast

end

end
