(* ===== verification/Raw_Radio.thy ===== *)
theory Raw_Radio
  imports Bounded_Fifo Platform_Types "HOL-Library.Sublist"
begin

text \<open>
  \<open>Raw80211Radio\<close> of src/ESPressio_Raw80211Radio.hpp: the frame format (\<open>Send\<close>, \<open>IsOurFrame\<close>,
  \<open>PromiscuousReceive\<close>), the receive ring between the Wi-Fi callback and \<open>DrainInbound\<close>, the
  reconstruction of the receive time, and \<open>Start\<close> and \<open>Stop\<close> with the process-wide callback
  instance.

  \<open>Radio::RadioAddress\<close> belongs to another package. Its operations are the parameter
  \<open>address_api\<close>; the laws the radio relies on are \<open>address_laws\<close>.
\<close>

section \<open>Data\<close>

record 'a address_api =
  ra_bytes :: "'a \<Rightarrow> bytes"
  ra_length :: "'a \<Rightarrow> nat"
  ra_valid :: "'a \<Rightarrow> bool"
  ra_broadcast :: "'a \<Rightarrow> bool"
  ra_from_bytes :: "bytes \<Rightarrow> 'a"

text \<open>
  The byte array of an address holds at least six bytes, and \<open>FromBytes\<close> keeps the bytes it is
  given.
\<close>

definition address_laws :: "'a address_api \<Rightarrow> bool" where
  "address_laws api \<longleftrightarrow>
     (\<forall>a. 6 \<le> length (ra_bytes api a)) \<and>
     (\<forall>m. length m = 6 \<longrightarrow> take 6 (ra_bytes api (ra_from_bytes api m)) = m)"

definition dot11_header_bytes :: nat where "dot11_header_bytes = 24"
definition encapsulation_bytes :: nat where "encapsulation_bytes = 10"
definition maximum_payload_bytes :: nat where "maximum_payload_bytes = 270"
definition maximum_frame_bytes :: nat where
  "maximum_frame_bytes = dot11_header_bytes + encapsulation_bytes + maximum_payload_bytes"

definition llc_snap :: bytes where
  "llc_snap = [0xAA, 0xAA, 0x03, 0x00, 0x00, 0x00, 0x88, 0xB5]"

definition radio_bssid :: bytes where
  "radio_bssid = [0x02, 0x45, 0x53, 0x50, 0x52, 0x01]"

text \<open>\<open>ESPRESSIO_ESP32_RAW_RADIO_RX_QUEUE_DEPTH\<close>, at its default.\<close>

definition rx_queue_depth :: nat where "rx_queue_depth = 4"

lemmas frame_sizes = dot11_header_bytes_def encapsulation_bytes_def maximum_payload_bytes_def
  maximum_frame_bytes_def rx_queue_depth_def

text \<open>\<open>ReceivedPacket\<close>\<close>

record 'a slot =
  sl_source :: 'a
  sl_destination :: 'a
  sl_length :: u16
  sl_rssi :: int
  sl_timestamp :: u64
  sl_payload :: bytes

datatype wifi_interface = STA_Interface | AP_Interface

text \<open>The receiver and the work signal are opaque pointers.\<close>

record 'a radio =
  rd_interface :: wifi_interface
  rd_channel :: u8
  rd_init_station :: bool
  rd_receiver :: "nat option"
  rd_signal :: "nat option"
  rd_local :: 'a
  rd_queue :: "'a slot list"
  rd_write :: u8
  rd_read :: u8
  rd_started :: bool
  rd_was_promiscuous :: bool

text \<open>
  \<open>wifi_promiscuous_pkt_t\<close>: the driver promises that the frame has at least \<open>sig_len\<close> bytes.
\<close>

record promiscuous_packet =
  pk_frame :: bytes
  pk_sig_len :: nat
  pk_rssi :: int
  pk_timestamp :: u32

text \<open>\<open>RadioPacketView\<close>: the payload pointer is null for an empty payload.\<close>

record 'a view =
  vw_source :: 'a
  vw_destination :: 'a
  vw_payload :: "bytes option"
  vw_payload_size :: nat
  vw_rssi :: int
  vw_timestamp :: u64
  vw_broadcast :: bool

section \<open>Frames\<close>

definition is_our_frame :: "bytes option \<Rightarrow> nat \<Rightarrow> bool option" where
  "is_our_frame data len = (case data of
       None \<Rightarrow> Some False
     | Some d \<Rightarrow>
         if len < dot11_header_bytes + encapsulation_bytes then Some False
         else do {
           lo \<leftarrow> rd d 0;
           hi \<leftarrow> rd d 1;
           let frame_control = of_be16 hi lo;
           if frame_control AND 0x00FC \<noteq> 0x0008 then Some False
           else do {
             bssid \<leftarrow> slice d 16 6;
             if bssid \<noteq> radio_bssid then Some False
             else do {
               snap \<leftarrow> slice d dot11_header_bytes 8;
               Some (snap = llc_snap)
             }
           }
         })"

text \<open>\<open>IsBroadcastMac\<close> stops at the first byte that is not \<open>0xFF\<close>.\<close>

fun all_ones :: "nat \<Rightarrow> nat \<Rightarrow> bytes \<Rightarrow> bool option" where
  "all_ones 0 i d = Some True"
| "all_ones (Suc n) i d = do {
     b \<leftarrow> rd d i;
     if b \<noteq> 0xFF then Some False else all_ones n (Suc i) d
   }"

definition is_broadcast_mac :: "bytes option \<Rightarrow> bool option" where
  "is_broadcast_mac address = (case address of None \<Rightarrow> Some False | Some d \<Rightarrow> all_ones 6 0 d)"

text \<open>The frame \<open>Send\<close> assembles, in its fixed array, and the length it hands to the driver.\<close>

definition build_frame :: "'a address_api \<Rightarrow> 'a \<Rightarrow> 'a \<Rightarrow> bytes \<Rightarrow> (bytes \<times> nat) option" where
  "build_frame api local_address destination payload = do {
     let f0 = replicate maximum_frame_bytes 0;
     f1 \<leftarrow> wr f0 0 0x08;
     f2 \<leftarrow> wr f1 1 0x00;
     dst \<leftarrow> slice (ra_bytes api destination) 0 6;
     f3 \<leftarrow> blit f2 4 dst;
     src \<leftarrow> slice (ra_bytes api local_address) 0 6;
     f4 \<leftarrow> blit f3 10 src;
     f5 \<leftarrow> blit f4 16 radio_bssid;
     f6 \<leftarrow> blit f5 dot11_header_bytes llc_snap;
     let length_offset = dot11_header_bytes + 8;
     let size = length payload;
     f7 \<leftarrow> wr f6 length_offset (word_of_nat size AND 0xFF);
     f8 \<leftarrow> wr f7 (length_offset + 1) (word_of_nat (size div 256) AND 0xFF);
     f9 \<leftarrow> (if size \<noteq> 0 then blit f8 (dot11_header_bytes + encapsulation_bytes) payload else Some f8);
     Some (f9, dot11_header_bytes + encapsulation_bytes + size)
   }"

datatype send_status = NotStarted | InvalidAddress | PayloadTooLarge | NoMemory | NativeFailure

datatype send_result = Accepted | Rejected send_status "esp_err option"

datatype radio_event =
    Transmit wifi_interface bytes
  | SendCompleted nat send_result
  | NotifyStarted
  | NotifyStopped
  | SetWiFiMode
  | SetChannel u8
  | RegisterCallback bool
  | SetPromiscuous bool

text \<open>
  \<open>Send\<close>. The payload is a pointer and a size; \<open>None\<close> is the null pointer. The driver's answer
  to \<open>esp_wifi_80211_tx\<close> is \<open>tx\<close>; the bytes it is given are the frame cut at the length.
\<close>

definition radio_send ::
    "'a address_api \<Rightarrow> esp_err \<Rightarrow> 'a \<Rightarrow> bytes option \<Rightarrow> nat \<Rightarrow> 'a radio
      \<Rightarrow> (send_result \<times> radio_event list) option" where
  "radio_send api tx destination payload payload_size r =
     (if \<not> rd_started r
      then Some (Rejected NotStarted None, [SendCompleted payload_size (Rejected NotStarted None)])
      else if \<not> ra_valid api destination \<or> ra_length api destination \<noteq> 6
      then Some (Rejected InvalidAddress None,
        [SendCompleted payload_size (Rejected InvalidAddress None)])
      else if (payload = None \<and> payload_size \<noteq> 0) \<or> payload_size > maximum_payload_bytes
      then Some (Rejected PayloadTooLarge None,
        [SendCompleted payload_size (Rejected PayloadTooLarge None)])
      else do {
        content \<leftarrow> (case payload of None \<Rightarrow> Some [] | Some p \<Rightarrow> slice p 0 payload_size);
        (frame, len) \<leftarrow> build_frame api (rd_local r) destination content;
        sent \<leftarrow> slice frame 0 len;
        let result =
          (if tx = ESP_OK then Accepted
           else if tx = ESP_ERR_NO_MEM then Rejected NoMemory (Some tx)
           else Rejected NativeFailure (Some tx));
        Some (result, [Transmit (rd_interface r) sent, SendCompleted payload_size result])
      })"

section \<open>Receive time\<close>

definition recover_receive_microseconds :: "u64 \<Rightarrow> u32 \<Rightarrow> u64" where
  "recover_receive_microseconds now_us ts =
     (let wrap = 0x100000000;
          wrap_base = now_us AND NOT (wrap - 1);
          receive = wrap_base OR ucast ts;
          half = wrap div 2
      in if receive > now_us \<and> receive - now_us > half then receive - wrap
         else if now_us > receive \<and> now_us - receive > half then receive + wrap
         else receive)"

definition recover_receive_timestamp :: "u64 \<Rightarrow> u32 \<Rightarrow> u64" where
  "recover_receive_timestamp now_ns ts = recover_receive_microseconds (now_ns div 1000) ts * 1000"

section \<open>Reception\<close>

definition ring_next :: "nat \<Rightarrow> u8 \<Rightarrow> u8" where
  "ring_next n i = word_of_nat ((unat i + 1) mod n)"

text \<open>What the callback knows of a frame it accepted.\<close>

record 'a frame_info =
  fi_source :: 'a
  fi_destination :: 'a
  fi_rssi :: int
  fi_timestamp :: u64
  fi_data :: bytes

definition store_packet :: "'a frame_info \<Rightarrow> 'a slot \<Rightarrow> 'a slot option" where
  "store_packet x slot = do {
     payload \<leftarrow> (if fi_data x \<noteq> [] then blit (sl_payload slot) 0 (fi_data x)
                else Some (sl_payload slot));
     Some (slot\<lparr>sl_source := fi_source x, sl_destination := fi_destination x,
       sl_length := word_of_nat (length (fi_data x)), sl_rssi := fi_rssi x,
       sl_timestamp := fi_timestamp x, sl_payload := payload\<rparr>)
   }"

text \<open>The ring: the packet is dropped when the ring is full. The flag is whether it was stored.\<close>

definition enqueue_packet :: "'a frame_info \<Rightarrow> 'a radio \<Rightarrow> (bool \<times> 'a radio) option" where
  "enqueue_packet x r =
     (let write = rd_write r; next = ring_next (length (rd_queue r)) write
      in if next = rd_read r then Some (False, r)
         else do {
           slot \<leftarrow> rd (rd_queue r) (unat write);
           slot' \<leftarrow> store_packet x slot;
           queue \<leftarrow> wr (rd_queue r) (unat write) slot';
           Some (True, r\<lparr>rd_queue := queue, rd_write := next\<rparr>)
         })"

text \<open>
  \<open>PromiscuousReceive\<close>: \<open>self\<close> is the object behind \<open>CallbackInstance\<close>, \<open>now\<close> the monotonic
  clock. The flag is whether the packet was stored, which is when the work signal is raised.
\<close>

definition promiscuous_receive ::
    "'a address_api \<Rightarrow> u64 \<Rightarrow> bool \<Rightarrow> promiscuous_packet option \<Rightarrow> 'a radio
      \<Rightarrow> (bool \<times> 'a radio) option" where
  "promiscuous_receive api now is_data buffer r = (case buffer of
       None \<Rightarrow> Some (False, r)
     | Some packet \<Rightarrow>
         if \<not> rd_started r \<or> \<not> is_data \<or> rd_queue r = [] then Some (False, r)
         else do {
           let frame = pk_frame packet;
           let frame_length = pk_sig_len packet;
           ours \<leftarrow> is_our_frame (Some frame) frame_length;
           if \<not> ours then Some (False, r)
           else do {
             destination_mac \<leftarrow> slice frame 4 6;
             local_mac \<leftarrow> slice (ra_bytes api (rd_local r)) 0 6;
             broadcast \<leftarrow> is_broadcast_mac (Some destination_mac);
             if destination_mac \<noteq> local_mac \<and> \<not> broadcast then Some (False, r)
             else do {
               lo \<leftarrow> rd frame (dot11_header_bytes + 8);
               hi \<leftarrow> rd frame (dot11_header_bytes + 9);
               let payload_length = of_be16 hi lo;
               if unat payload_length > maximum_payload_bytes \<or>
                  dot11_header_bytes + encapsulation_bytes + unat payload_length > frame_length
               then Some (False, r)
               else do {
                 source_mac \<leftarrow> slice frame 10 6;
                 data \<leftarrow> slice frame (dot11_header_bytes + encapsulation_bytes) (unat payload_length);
                 enqueue_packet
                   \<lparr>fi_source = ra_from_bytes api source_mac,
                    fi_destination = ra_from_bytes api destination_mac,
                    fi_rssi = pk_rssi packet,
                    fi_timestamp = recover_receive_timestamp now (pk_timestamp packet),
                    fi_data = data\<rparr> r
               }
             }
           }
         })"

section \<open>Delivery\<close>

definition view_of_slot :: "'a address_api \<Rightarrow> 'a slot \<Rightarrow> 'a view" where
  "view_of_slot api s =
     \<lparr>vw_source = sl_source s, vw_destination = sl_destination s,
      vw_payload = (if sl_length s = 0 then None else Some (take (unat (sl_length s)) (sl_payload s))),
      vw_payload_size = unat (sl_length s), vw_rssi = sl_rssi s, vw_timestamp = sl_timestamp s,
      vw_broadcast = ra_broadcast api (sl_destination s)\<rparr>"

text \<open>
  \<open>DrainInbound\<close>. While the receiver has a packet, anything may happen to the radio: the callback
  may store packets, the receiver may send, stop or start it. \<open>during\<close> lists what happens,
  packet by packet; when the list is used up before the ring is empty the loop still runs (the
  flag is False). The index the loop read before the delivery is the one it advances after it.
\<close>

fun drain_inbound ::
    "'a address_api \<Rightarrow> ('a radio \<Rightarrow> 'a radio) list \<Rightarrow> 'a radio
      \<Rightarrow> ('a view list \<times> 'a radio \<times> bool) option" where
  "drain_inbound api during r =
     (if rd_read r = rd_write r then Some ([], r, True)
      else (case during of
          [] \<Rightarrow> Some ([], r, False)
        | f # fs \<Rightarrow> do {
            let read = rd_read r;
            slot \<leftarrow> rd (rd_queue r) (unat read);
            let r1 = f r;
            let r2 = r1\<lparr>rd_read := ring_next (length (rd_queue r1)) read\<rparr>;
            (views, r', finished) \<leftarrow> drain_inbound api fs r2;
            Some ((if rd_receiver r \<noteq> None then [view_of_slot api slot] else []) @ views,
              r', finished)
          }))"

declare drain_inbound.simps [simp del]

section \<open>Start and stop\<close>

text \<open>The answers of the driver to the calls of one \<open>Start\<close>.\<close>

record start_env =
  se_alloc :: bool
  se_mode :: "wifi_mode option"
  se_set_mode :: bool
  se_set_channel :: esp_err
  se_mac :: "bytes option"
  se_promiscuous :: "bool option"
  se_set_callback :: esp_err
  se_set_promiscuous :: esp_err

definition empty_slot :: "'a \<Rightarrow> 'a slot" where
  "empty_slot no_address = \<lparr>sl_source = no_address, sl_destination = no_address, sl_length = 0,
     sl_rssi = 0, sl_timestamp = 0, sl_payload = replicate maximum_payload_bytes 0\<rparr>"

text \<open>\<open>resize\<close> keeps the elements it has room for.\<close>

definition resize_queue :: "'a \<Rightarrow> 'a slot list \<Rightarrow> 'a slot list" where
  "resize_queue no_address q =
     (if length q \<noteq> rx_queue_depth
      then take rx_queue_depth q @ replicate (rx_queue_depth - length q) (empty_slot no_address)
      else q)"

text \<open>
  The Wi-Fi mode \<open>Start\<close> works with, after it brought the station up where none was active, or
  \<open>None\<close> when that failed; and which interface a mode serves.
\<close>

definition start_mode :: "start_env \<Rightarrow> 'a radio \<Rightarrow> wifi_mode option \<times> radio_event list" where
  "start_mode env r =
     (let mode = (case se_mode env of None \<Rightarrow> ModeNull | Some m \<Rightarrow> m)
      in if (se_mode env = None \<or> mode = ModeNull) \<and> rd_init_station r
         then (if se_set_mode env then Some ModeSta else None, [SetWiFiMode])
         else (Some mode, []))"

definition mode_serves :: "wifi_interface \<Rightarrow> wifi_mode \<Rightarrow> bool" where
  "mode_serves interface mode \<longleftrightarrow>
     mode \<noteq> ModeNull \<and>
     \<not> (interface = STA_Interface \<and> mode = ModeAp) \<and>
     \<not> (interface = AP_Interface \<and> mode = ModeSta)"

text \<open>The last part of \<open>Start\<close>: the address, the callback, promiscuous mode, the indices.\<close>

definition start_receiving ::
    "'a address_api \<Rightarrow> start_env \<Rightarrow> nat \<Rightarrow> bytes \<Rightarrow> 'a radio \<Rightarrow> radio_event list
      \<Rightarrow> bool \<times> nat option \<times> 'a radio \<times> radio_event list" where
  "start_receiving api env me mac r ev =
     (let r1 = r\<lparr>rd_local := ra_from_bytes api mac\<rparr>;
          r2 = (case se_promiscuous env of
              None \<Rightarrow> r1 | Some p \<Rightarrow> r1\<lparr>rd_was_promiscuous := p\<rparr>);
          ev1 = ev @ [RegisterCallback True]
      in if se_set_callback env \<noteq> ESP_OK then (False, None, r2, ev1)
         else
           let ev2 = ev1 @ [SetPromiscuous True]
           in if se_set_promiscuous env \<noteq> ESP_OK
              then (False, None, r2, ev2 @ [RegisterCallback False])
              else (True, Some me, r2\<lparr>rd_read := 0, rd_write := 0, rd_started := True\<rparr>,
                ev2 @ [NotifyStarted]))"

text \<open>
  \<open>Start\<close> of the object \<open>me\<close>; \<open>callback\<close> is the object registered process-wide.
  \<open>no_address\<close> is the default-constructed address.
\<close>

definition radio_start ::
    "'a address_api \<Rightarrow> 'a \<Rightarrow> start_env \<Rightarrow> nat \<Rightarrow> nat option \<Rightarrow> 'a radio
      \<Rightarrow> bool \<times> nat option \<times> 'a radio \<times> radio_event list" where
  "radio_start api no_address env me callback r =
     (if rd_started r then (True, callback, r, [])
      else if callback \<noteq> None \<and> callback \<noteq> Some me then (False, callback, r, [])
      else if length (rd_queue r) \<noteq> rx_queue_depth \<and> \<not> se_alloc env then (False, callback, r, [])
      else
        let r1 = r\<lparr>rd_queue := resize_queue no_address (rd_queue r)\<rparr>;
            (mode, ev0) = start_mode env r1
        in (case mode of
            None \<Rightarrow> (False, callback, r1, ev0)
          | Some m \<Rightarrow>
              if \<not> mode_serves (rd_interface r1) m then (False, callback, r1, ev0)
              else
                let ev1 = ev0 @ (if rd_channel r1 \<noteq> 0 then [SetChannel (rd_channel r1)] else [])
                in if rd_channel r1 \<noteq> 0 \<and> se_set_channel env \<noteq> ESP_OK
                   then (False, callback, r1, ev1)
                   else (case se_mac env of
                       None \<Rightarrow> (False, callback, r1, ev1)
                     | Some mac \<Rightarrow> start_receiving api env me mac r1 ev1)))"

definition radio_stop :: "nat \<Rightarrow> nat option \<Rightarrow> 'a radio \<Rightarrow> nat option \<times> 'a radio \<times> radio_event list" where
  "radio_stop me callback r =
     (if \<not> rd_started r then (callback, r, [])
      else
        let r1 = r\<lparr>rd_started := False\<rparr>;
            (callback', ev) =
              (if callback = Some me
               then (None, RegisterCallback False
                 # (if \<not> rd_was_promiscuous r1 then [SetPromiscuous False] else []))
               else (callback, []))
        in (callback', r1\<lparr>rd_read := 0, rd_write := 0\<rparr>, ev @ [NotifyStopped]))"

definition set_receiver :: "nat option \<Rightarrow> 'a radio \<Rightarrow> 'a radio" where
  "set_receiver receiver r = r\<lparr>rd_receiver := receiver\<rparr>"

definition set_work_signal :: "nat option \<Rightarrow> 'a radio \<Rightarrow> 'a radio" where
  "set_work_signal signal r = r\<lparr>rd_signal := signal\<rparr>"

section \<open>The receive ring is a bounded buffer\<close>

definition slot_ok :: "'a slot \<Rightarrow> bool" where
  "slot_ok s \<longleftrightarrow> length (sl_payload s) = maximum_payload_bytes \<and>
     unat (sl_length s) \<le> maximum_payload_bytes"

definition ring_ok :: "'a radio \<Rightarrow> bool" where
  "ring_ok r \<longleftrightarrow> length (rd_queue r) = rx_queue_depth \<and> list_all slot_ok (rd_queue r) \<and>
     unat (rd_read r) < rx_queue_depth \<and> unat (rd_write r) < rx_queue_depth"

definition info_of_slot :: "'a slot \<Rightarrow> 'a frame_info" where
  "info_of_slot s = \<lparr>fi_source = sl_source s, fi_destination = sl_destination s,
     fi_rssi = sl_rssi s, fi_timestamp = sl_timestamp s,
     fi_data = take (unat (sl_length s)) (sl_payload s)\<rparr>"

definition info_ok :: "'a frame_info \<Rightarrow> bool" where
  "info_ok x \<longleftrightarrow> length (fi_data x) \<le> maximum_payload_bytes"

definition packets :: "'a radio \<Rightarrow> 'a frame_info list" where
  "packets r = map info_of_slot (ring_list (rd_queue r) (unat (rd_read r)) (unat (rd_write r)))"

text \<open>One turn of the delivery loop, without the receiver.\<close>

definition take_packet :: "'a radio \<Rightarrow> 'a frame_info option \<times> 'a radio" where
  "take_packet r =
     (if rd_read r = rd_write r then (None, r)
      else (Some (info_of_slot (rd_queue r ! unat (rd_read r))),
        r\<lparr>rd_read := ring_next (length (rd_queue r)) (rd_read r)\<rparr>))"

definition put_packet :: "'a frame_info \<Rightarrow> 'a radio \<Rightarrow> bool \<times> 'a radio" where
  "put_packet x r = (case enqueue_packet x r of Some result \<Rightarrow> result | None \<Rightarrow> (False, r))"

lemma unat_ring_next:
  "0 < n \<Longrightarrow> n \<le> 255 \<Longrightarrow> unat (ring_next n i) = (unat i + 1) mod n"
  by (simp add: ring_next_def unsigned_of_nat take_bit_nat_eq_self less_trans [OF mod_less_divisor])

lemma ring_next_depth [simp]:
  "unat (ring_next rx_queue_depth i) = Suc (unat i) mod rx_queue_depth"
  "Suc k mod rx_queue_depth < rx_queue_depth"
  using unat_ring_next [of rx_queue_depth i] by (simp_all add: frame_sizes)

lemma ring_index_eq: "unat (i :: u8) = unat j \<longleftrightarrow> i = j"
  by (rule word_unat_eq_iff [symmetric])

lemma store_packet_ok:
  assumes "slot_ok s" "info_ok x"
  obtains s' where "store_packet x s = Some s'" "slot_ok s'" "info_of_slot s' = x"
proof -
  have n: "unat (word_of_nat (length (fi_data x)) :: u16) = length (fi_data x)"
    using assms(2)
    by (auto simp: info_ok_def frame_sizes unsigned_of_nat take_bit_nat_eq_self)
  have "\<exists>s'. store_packet x s = Some s' \<and> slot_ok s' \<and> info_of_slot s' = x"
    using assms n
    by (auto simp: store_packet_def slot_ok_def info_ok_def info_of_slot_def)
  then show ?thesis using that by blast
qed

lemma enqueue_packet_ok:
  assumes "ring_ok r" "info_ok x"
  shows "enqueue_packet x r = Some (put_packet x r) \<and> ring_ok (snd (put_packet x r)) \<and>
    fst (put_packet x r) = (length (packets r) < rx_queue_depth - 1) \<and>
    packets (snd (put_packet x r)) =
      (if length (packets r) < rx_queue_depth - 1 then packets r @ [x] else packets r)"
proof -
  let ?q = "rd_queue r" and ?w = "unat (rd_write r)" and ?r = "unat (rd_read r)"
  have b: "?r < length ?q" "?w < length ?q" "length ?q = rx_queue_depth"
    using assms(1) by (auto simp: ring_ok_def)
  have full: "ring_next (length ?q) (rd_write r) = rd_read r \<longleftrightarrow>
      \<not> length (packets r) < rx_queue_depth - 1"
    using ring_used_full_iff [OF b(1,2)] ring_used_less [OF b(1,2)]
    by (auto simp: ring_index_eq [symmetric] packets_def b(3))
  show ?thesis
  proof (cases "ring_next (length ?q) (rd_write r) = rd_read r")
    case True
    then show ?thesis using full assms(1) by (simp add: enqueue_packet_def put_packet_def Let_def)
  next
    case False
    have "slot_ok (?q ! ?w)" using assms(1) b by (auto simp: ring_ok_def list_all_length)
    then obtain s' where s': "store_packet x (?q ! ?w) = Some s'" "slot_ok s'" "info_of_slot s' = x"
      using assms(2) by (rule store_packet_ok)
    let ?r' = "r\<lparr>rd_queue := ?q[?w := s'], rd_write := ring_next (length ?q) (rd_write r)\<rparr>"
    have e: "enqueue_packet x r = Some (True, ?r')"
      using False b s'(1) by (simp add: enqueue_packet_def Let_def)
    have "(?w + 1) mod length ?q \<noteq> ?r"
      using False by (auto simp: ring_index_eq [symmetric] b(3))
    then have "packets ?r' = packets r @ [x]"
      using ring_list_put [OF b(1,2), of s'] s'(3) by (simp add: packets_def b(3))
    moreover have "ring_ok ?r'"
      using assms(1) s'(2) b
      by (auto simp: ring_ok_def list_all_length nth_list_update)
    ultimately show ?thesis using False full e by (simp add: put_packet_def)
  qed
qed

lemma take_packet_ok:
  assumes "ring_ok r"
  shows "ring_ok (snd (take_packet r)) \<and>
    fst (take_packet r) = (case packets r of [] \<Rightarrow> None | x # _ \<Rightarrow> Some x) \<and>
    packets (snd (take_packet r)) = tl (packets r)"
proof -
  let ?q = "rd_queue r" and ?w = "unat (rd_write r)" and ?r = "unat (rd_read r)"
  have b: "?r < length ?q" "?w < length ?q" "length ?q = rx_queue_depth"
    using assms(1) by (auto simp: ring_ok_def)
  show ?thesis
  proof (cases "rd_read r = rd_write r")
    case True
    then show ?thesis using assms b by (simp add: take_packet_def packets_def ring_list_def ring_used_def)
  next
    case False
    then have "packets r = info_of_slot (?q ! ?r) # map info_of_slot (ring_list ?q ((?r + 1) mod length ?q) ?w)"
      using ring_list_get [OF b(1,2)] by (simp add: packets_def ring_index_eq)
    then show ?thesis
      using False assms b by (simp add: take_packet_def packets_def ring_ok_def)
  qed
qed

interpretation rx_ring:
  bounded_fifo put_packet take_packet "rx_queue_depth - 1" info_ok ring_ok packets
  using enqueue_packet_ok take_packet_ok by unfold_locales (auto split: list.splits)

section \<open>Delivery in order\<close>

definition view_of_info :: "'a address_api \<Rightarrow> 'a frame_info \<Rightarrow> 'a view" where
  "view_of_info api x =
     \<lparr>vw_source = fi_source x, vw_destination = fi_destination x,
      vw_payload = (if fi_data x = [] then None else Some (fi_data x)),
      vw_payload_size = length (fi_data x), vw_rssi = fi_rssi x, vw_timestamp = fi_timestamp x,
      vw_broadcast = ra_broadcast api (fi_destination x)\<rparr>"

lemma view_of_slot_info: "slot_ok s \<Longrightarrow> view_of_slot api s = view_of_info api (info_of_slot s)"
  by (auto simp: slot_ok_def view_of_slot_def view_of_info_def info_of_slot_def frame_sizes
      unat_eq_zero)

text \<open>Packets that the Wi-Fi callback stores while the receiver works.\<close>

definition arrive :: "'a frame_info list \<Rightarrow> 'a radio \<Rightarrow> 'a radio" where
  "arrive xs r = fold (\<lambda>x r. snd (put_packet x r)) xs r"

lemma put_packet_receiver [simp]: "rd_receiver (snd (put_packet x r)) = rd_receiver r"
    "rd_read (snd (put_packet x r)) = rd_read r"
  by (auto simp: put_packet_def enqueue_packet_def Let_def split: option.split bind_splits if_splits)

lemma arrive_appends:
  "ring_ok r \<Longrightarrow> list_all info_ok xs \<Longrightarrow>
     \<exists>ys. subseq ys xs \<and> packets (arrive xs r) = packets r @ ys \<and> ring_ok (arrive xs r) \<and>
       rd_receiver (arrive xs r) = rd_receiver r \<and> rd_read (arrive xs r) = rd_read r"
proof (induction xs arbitrary: r)
  case (Cons x xs)
  let ?r = "snd (put_packet x r)"
  have ok: "ring_ok ?r" "packets ?r = packets r \<or> packets ?r = packets r @ [x]"
    using enqueue_packet_ok [OF Cons.prems(1), of x] Cons.prems(2) by auto
  then obtain ys where ys: "subseq ys xs" "packets (arrive xs ?r) = packets ?r @ ys"
    "ring_ok (arrive xs ?r)" "rd_receiver (arrive xs ?r) = rd_receiver r"
    "rd_read (arrive xs ?r) = rd_read r"
    using Cons.IH [of ?r] Cons.prems(2) by auto
  then have "subseq ys (x # xs) \<and> subseq (x # ys) (x # xs)" by (auto intro: list_emb_Cons)
  with ok(2) ys(2-5) show ?case unfolding arrive_def by fastforce
qed (simp add: arrive_def)

lemma drain_empty: "rd_read r = rd_write r \<Longrightarrow> drain_inbound api fs r = Some ([], r, True)"
  by (simp add: drain_inbound.simps)

lemma drain_unfinished: "rd_read r \<noteq> rd_write r \<Longrightarrow> drain_inbound api [] r = Some ([], r, False)"
  by (simp add: drain_inbound.simps)

lemma drain_turn:
  assumes "rd_read r \<noteq> rd_write r" "unat (rd_read r) < length (rd_queue r)"
    and "rd_receiver r \<noteq> None"
    and "drain_inbound api fs
      ((f r)\<lparr>rd_read := ring_next (length (rd_queue (f r))) (rd_read r)\<rparr>) = Some (views, r', fin)"
  shows "drain_inbound api (f # fs) r =
    Some (view_of_slot api (rd_queue r ! unat (rd_read r)) # views, r', fin)"
  using assms by (simp add: drain_inbound.simps [of api "f # fs"] Let_def)

lemma packets_empty_iff: "ring_ok r \<Longrightarrow> packets r = [] \<longleftrightarrow> rd_read r = rd_write r"
  by (auto simp: packets_def ring_ok_def ring_index_eq)

lemma drain_delivers:
  assumes "ring_ok r" "rd_receiver r \<noteq> None" "list_all (list_all info_ok) xss"
  shows "\<exists>views r' fin arrived.
     drain_inbound api (map arrive xss) r = Some (views, r', fin) \<and> ring_ok r' \<and>
     subseq arrived (concat xss) \<and>
     views @ map (view_of_info api) (packets r') = map (view_of_info api) (packets r @ arrived) \<and>
     (fin \<longleftrightarrow> packets r' = []) \<and>
     (concat xss = [] \<longrightarrow> length (packets r) \<le> length xss \<longrightarrow> fin)"
  using assms
proof (induction xss arbitrary: r)
  case Nil
  show ?case
  proof (cases "rd_read r = rd_write r")
    case True
    then show ?thesis using Nil by (auto simp: drain_empty packets_empty_iff)
  next
    case False
    then show ?thesis using Nil by (auto simp: drain_unfinished packets_empty_iff)
  qed
next
  case (Cons xs xss)
  show ?case
  proof (cases "rd_read r = rd_write r")
    case True
    then show ?thesis
      using Cons.prems by (intro exI [of _ "[]"] exI [of _ r] exI [of _ True])
        (simp add: drain_empty packets_empty_iff)
  next
    case False
    obtain ys where ys: "subseq ys xs" "packets (arrive xs r) = packets r @ ys"
      "ring_ok (arrive xs r)" "rd_receiver (arrive xs r) = rd_receiver r"
      "rd_read (arrive xs r) = rd_read r"
      using arrive_appends [OF Cons.prems(1), of xs] Cons.prems(3) by auto
    let ?a = "arrive xs r"
    let ?r2 = "?a\<lparr>rd_read := ring_next (length (rd_queue ?a)) (rd_read r)\<rparr>"
    obtain p ps where ps: "packets r = p # ps"
      using False packets_empty_iff [OF Cons.prems(1)] by (cases "packets r") auto
    have "packets ?a \<noteq> []" using ys(2) ps by simp
    then have ne: "rd_read ?a \<noteq> rd_write ?a" using packets_empty_iff [OF ys(3)] by simp
    then have taken: "snd (take_packet ?a) = ?r2" by (simp add: take_packet_def ys(5))
    have r2: "ring_ok ?r2" "packets ?r2 = ps @ ys"
      using take_packet_ok [OF ys(3)] ys(2) ps unfolding taken by auto
    have later: "rd_receiver ?r2 \<noteq> None" "list_all (list_all info_ok) xss"
      using Cons.prems(2,3) ys(4) by auto
    obtain views r' fin arrived where ih:
      "drain_inbound api (map arrive xss) ?r2 = Some (views, r', fin)" "ring_ok r'"
      "subseq arrived (concat xss)"
      "views @ map (view_of_info api) (packets r') = map (view_of_info api) (packets ?r2 @ arrived)"
      "fin \<longleftrightarrow> packets r' = []"
      "concat xss = [] \<longrightarrow> length (packets ?r2) \<le> length xss \<longrightarrow> fin"
      using Cons.IH [OF r2(1) later] by blast
    have first: "fst (take_packet r) = Some (info_of_slot (rd_queue r ! unat (rd_read r)))"
      using False by (simp add: take_packet_def)
    have slot: "slot_ok (rd_queue r ! unat (rd_read r))" "unat (rd_read r) < length (rd_queue r)"
      using Cons.prems(1) by (auto simp: ring_ok_def list_all_length)
    have "view_of_slot api (rd_queue r ! unat (rd_read r)) = view_of_info api p"
      using take_packet_ok [OF Cons.prems(1)] first ps by (simp add: view_of_slot_info [OF slot(1)])
    moreover have "drain_inbound api (map arrive (xs # xss)) r =
        Some (view_of_slot api (rd_queue r ! unat (rd_read r)) # views, r', fin)"
      using drain_turn [of r api _ "arrive xs"] False slot(2) Cons.prems(2) ih(1) by simp
    moreover have "xs = [] \<longrightarrow> ys = []" using ys(1) by auto
    ultimately show ?thesis
      using ih(2-) r2(2) ps list_emb_append_mono [OF ys(1) ih(3)]
      by (intro exI [of _ "view_of_info api p # views"] exI [of _ r'] exI [of _ fin]
          exI [of _ "ys @ arrived"]) auto
  qed
qed

section \<open>Stopping inside a delivery\<close>

lemma drain_to_wrap:
  assumes "length (rd_queue r) = rx_queue_depth" "rd_write r = 0" "rd_receiver r \<noteq> None"
    and "0 < unat (rd_read r)" "unat (rd_read r) < rx_queue_depth"
    and "unat (rd_read r) + n = rx_queue_depth"
  shows "drain_inbound api (replicate n id) r =
    Some (map (view_of_slot api) (drop (unat (rd_read r)) (rd_queue r)), r\<lparr>rd_read := 0\<rparr>, True)"
  using assms
proof (induction n arbitrary: r)
  case 0
  then show ?case by simp
next
  case (Suc n)
  let ?i = "unat (rd_read r)" and ?next = "ring_next rx_queue_depth (rd_read r)"
  have i: "?i < length (rd_queue r)" using Suc.prems by simp
  have first: "drop ?i (rd_queue r) = rd_queue r ! ?i # drop (Suc ?i) (rd_queue r)"
    using i by (simp add: Cons_nth_drop_Suc)
  have ne: "rd_read r \<noteq> rd_write r" using Suc.prems by (auto simp: unat_eq_zero)
  show ?case
  proof (cases n)
    case 0
    then have "Suc ?i = rx_queue_depth" using Suc.prems(6) by simp
    then have "unat ?next = 0" by simp
    then have "?next = 0" by (simp only: unat_eq_zero)
    with \<open>Suc ?i = rx_queue_depth\<close> show ?thesis
      using drain_turn [of r api "[]" id "[]" "r\<lparr>rd_read := 0\<rparr>" True] ne i Suc.prems 0
      by (simp add: drain_empty id_def first)
  next
    case (Suc m)
    then have less: "Suc ?i < rx_queue_depth" using Suc.prems(6) by simp
    then have n: "unat ?next = Suc ?i" by simp
    then show ?thesis
      using drain_turn [of r api "replicate n id" id _ "r\<lparr>rd_read := 0\<rparr>" True] ne i less Suc.prems
        Suc.IH [of "r\<lparr>rd_read := ?next\<rparr>"]
      by (simp add: id_def first)
  qed
qed

section \<open>Frames on the air\<close>

definition le16 :: "u16 \<Rightarrow> bytes" where
  "le16 v = [ucast v, ucast (drop_bit 8 v)]"

text \<open>
  A frame of this protocol as it arrives: the driver fills in the flags, the duration and the
  sequence number, and a check sequence may follow.
\<close>

definition air_frame :: "bytes \<Rightarrow> bytes \<Rightarrow> bytes \<Rightarrow> bytes \<Rightarrow> bool" where
  "air_frame dst src payload f \<longleftrightarrow>
     length dst = 6 \<and> length src = 6 \<and> length payload \<le> maximum_payload_bytes \<and>
     (\<exists>fc0 fc1 d0 d1 s0 s1 tail. fc0 AND 0xFC = 0x08 \<and>
        f = [fc0, fc1, d0, d1] @ dst @ src @ radio_bssid @ [s0, s1] @ llc_snap
          @ le16 (word_of_nat (length payload)) @ payload @ tail)"

lemma type_bits: "of_be16 hi lo AND 0x00FC = 0x0008 \<longleftrightarrow> lo AND 0xFC = 0x08"
proof -
  have c: "(0x00FC :: u16) = push_bit 2 (mask 6)" "(0xFC :: u8) = push_bit 2 (mask 6)"
    by (simp_all add: mask_eq_exp_minus_1 push_bit_eq_mult)
  have "of_be16 hi lo AND 0x00FC = ucast (lo AND 0xFC)"
    unfolding of_be16_def c
    by (rule bit_word_eqI) (auto simp: bit_simps simp del: push_bit_numeral)
  moreover have "(ucast (lo AND 0xFC) :: u16) = 0x0008 \<longleftrightarrow> lo AND 0xFC = 0x08"
  proof -
    have "(ucast x :: u16) = 0x0008 \<longleftrightarrow> x = 0x08" for x :: u8
    proof
      assume "(ucast x :: u16) = 0x0008"
      then have "(ucast (ucast x :: u16) :: u8) = ucast (0x0008 :: u16)" by (rule arg_cong)
      then show "x = 0x08" by (simp add: ucast_up_ucast_id is_up)
    qed simp
    then show ?thesis by simp
  qed
  ultimately show ?thesis by simp
qed


lemma le16_of_be16: "le16 (of_be16 hi lo) = [lo, hi]"
  using be16_of_be16 [of hi lo] by (simp add: le16_def be16_def)

lemma of_be16_le16: "of_be16 (le16 v ! 1) (le16 v ! 0) = v"
  by (simp add: le16_def of_be16_be16)

lemma bytes6: "length (m :: bytes) = 6 \<Longrightarrow> \<exists>a b c d e f. m = [a, b, c, d, e, f]"
  by (auto simp: numeral_eq_Suc length_Suc_conv)

lemma length_marks [simp]: "length radio_bssid = 6" "length llc_snap = 8" "length (le16 v) = 2"
  by (simp_all add: radio_bssid_def llc_snap_def le16_def)

lemma is_broadcast_mac_iff:
  "length m = 6 \<Longrightarrow> is_broadcast_mac (Some m) = Some (m = replicate 6 0xFF)"
  by (drule bytes6) (auto simp: is_broadcast_mac_def numeral_eq_Suc)

text \<open>What the checks read in a frame of this form.\<close>

lemma air_frame_fields:
  assumes "air_frame dst src payload f"
  shows "34 + length payload \<le> length f" "f ! 0 AND 0xFC = 0x08"
    "take 6 (drop 4 f) = dst" "take 6 (drop 10 f) = src" "take 6 (drop 16 f) = radio_bssid"
    "take 8 (drop 24 f) = llc_snap" "unat (of_be16 (f ! 33) (f ! 32)) = length payload"
    "take (length payload) (drop 34 f) = payload"
proof -
  obtain fc0 fc1 d0 d1 s0 s1 tail where f: "fc0 AND 0xFC = 0x08"
      "f = [fc0, fc1, d0, d1] @ dst @ src @ radio_bssid @ [s0, s1] @ llc_snap
          @ le16 (word_of_nat (length payload)) @ payload @ tail"
    and len: "length dst = 6" "length src = 6" "length payload \<le> 270"
    using assms by (auto simp: air_frame_def frame_sizes)
  obtain a0 a1 a2 a3 a4 a5 b0 b1 b2 b3 b4 b5 where
    mac: "dst = [a0, a1, a2, a3, a4, a5]" "src = [b0, b1, b2, b3, b4, b5]"
    using bytes6 [OF len(1)] bytes6 [OF len(2)] by blast
  have n: "unat (word_of_nat (length payload) :: u16) = length payload"
    using len(3) by (simp add: unsigned_of_nat take_bit_nat_eq_self)
  show "34 + length payload \<le> length f" "f ! 0 AND 0xFC = 0x08"
    "take 6 (drop 4 f) = dst" "take 6 (drop 10 f) = src" "take 6 (drop 16 f) = radio_bssid"
    "take 8 (drop 24 f) = llc_snap" "take (length payload) (drop 34 f) = payload"
    using f(1) by (simp_all add: f(2) mac radio_bssid_def llc_snap_def le16_def)
  show "unat (of_be16 (f ! 33) (f ! 32)) = length payload"
    by (simp add: f(2) mac radio_bssid_def llc_snap_def le16_def of_be16_be16 n)
qed

lemma air_frame_of_fields:
  assumes "34 + p \<le> length f" "p \<le> 270" "p = unat (of_be16 (f ! 33) (f ! 32))"
    "f ! 0 AND 0xFC = 0x08" "take 6 (drop 16 f) = radio_bssid" "take 8 (drop 24 f) = llc_snap"
  shows "air_frame (take 6 (drop 4 f)) (take 6 (drop 10 f)) (take p (drop 34 f)) f"
proof -
  have "f = drop 0 f" by simp
  also have "\<dots> = take 2 (drop 0 f) @ take 2 (drop 2 f) @ take 6 (drop 4 f) @ take 6 (drop 10 f)
      @ take 6 (drop 16 f) @ take 2 (drop 22 f) @ take 8 (drop 24 f) @ take 2 (drop 32 f)
      @ take p (drop 34 f) @ drop (34 + p) f"
    using chunk [of 0 f 2] chunk [of 2 f 2] chunk [of 4 f 6] chunk [of 10 f 6] chunk [of 16 f 6]
      chunk [of 22 f 2] chunk [of 24 f 8] chunk [of 32 f 2] chunk [of 34 f p] by simp
  finally have "f = [f ! 0, f ! 1, f ! 2, f ! 3] @ take 6 (drop 4 f) @ take 6 (drop 10 f)
      @ radio_bssid @ [f ! 22, f ! 23] @ llc_snap @ [f ! 32, f ! 33]
      @ take p (drop 34 f) @ drop (34 + p) f"
    using assms(1,5,6) take_two [of 0 f] take_two [of 2 f] take_two [of 22 f] take_two [of 32 f]
    by simp
  moreover have "[f ! 32, f ! 33] = le16 (word_of_nat p)"
    using assms(3) by (simp add: le16_of_be16)
  ultimately show ?thesis
    using assms(1,2,4) unfolding air_frame_def frame_sizes by (auto intro!: exI)
qed

lemma is_our_frame_eq:
  assumes "n \<le> length f"
  shows "is_our_frame (Some f) n = Some (34 \<le> n \<and> f ! 0 AND 0xFC = 0x08 \<and>
    take 6 (drop 16 f) = radio_bssid \<and> take 8 (drop 24 f) = llc_snap)"
proof (cases "34 \<le> n")
  case True
  then have "34 \<le> length f" "f \<noteq> []" using assms by auto
  then show ?thesis using True by (simp add: is_our_frame_def frame_sizes Let_def type_bits)
qed (simp add: is_our_frame_def frame_sizes)

definition accepted_info :: "'a address_api \<Rightarrow> u64 \<Rightarrow> promiscuous_packet \<Rightarrow> bytes \<Rightarrow> bytes \<Rightarrow> bytes \<Rightarrow> 'a frame_info"
  where "accepted_info api now pkt dst src payload =
    \<lparr>fi_source = ra_from_bytes api src, fi_destination = ra_from_bytes api dst,
     fi_rssi = pk_rssi pkt,
     fi_timestamp = recover_receive_timestamp now (pk_timestamp pkt), fi_data = payload\<rparr>"

definition addressed_to :: "'a address_api \<Rightarrow> 'a \<Rightarrow> bytes \<Rightarrow> bool" where
  "addressed_to api self dst \<longleftrightarrow> dst = take 6 (ra_bytes api self) \<or> dst = replicate 6 0xFF"

text \<open>The callback as one expression over the frame.\<close>

lemma promiscuous_receive_eq:
  assumes laws: "address_laws api" and r: "ring_ok r" "rd_started r"
    and len: "pk_sig_len pkt \<le> length (pk_frame pkt)"
  defines "f \<equiv> pk_frame pkt"
  shows "promiscuous_receive api now True (Some pkt) r = Some
    (if 34 \<le> pk_sig_len pkt \<and> f ! 0 AND 0xFC = 0x08 \<and> take 6 (drop 16 f) = radio_bssid \<and>
        take 8 (drop 24 f) = llc_snap \<and> addressed_to api (rd_local r) (take 6 (drop 4 f)) \<and>
        unat (of_be16 (f ! 33) (f ! 32)) \<le> 270 \<and>
        34 + unat (of_be16 (f ! 33) (f ! 32)) \<le> pk_sig_len pkt
     then put_packet (accepted_info api now pkt (take 6 (drop 4 f)) (take 6 (drop 10 f))
       (take (unat (of_be16 (f ! 33) (f ! 32))) (drop 34 f))) r
     else (False, r))"
proof -
  have q: "rd_queue r \<noteq> []" using r(1) by (auto simp: ring_ok_def frame_sizes)
  have laws': "slice (ra_bytes api (rd_local r)) 0 6 = Some (take 6 (ra_bytes api (rd_local r)))"
    using laws by (simp add: address_laws_def)
  have put: "enqueue_packet x r = Some (put_packet x r)" if "length (fi_data x) \<le> 270" for x
    using enqueue_packet_ok [OF r(1)] that by (auto simp: info_ok_def frame_sizes)
  show ?thesis
  proof (cases "34 \<le> pk_sig_len pkt")
    case False
    then show ?thesis
      using r q len by (simp add: promiscuous_receive_def f_def [symmetric] is_our_frame_eq Let_def)
  next
    case True
    then have more: "34 \<le> length f" using len by (simp add: f_def)
    have "is_broadcast_mac (Some (take 6 (drop 4 f))) = Some (take 6 (drop 4 f) = replicate 6 0xFF)"
      using more by (intro is_broadcast_mac_iff) simp
    then show ?thesis
      using r q len True more laws'
      by (auto simp: promiscuous_receive_def f_def [symmetric] is_our_frame_eq Let_def frame_sizes
          put accepted_info_def addressed_to_def)
  qed
qed


text \<open>The callback stores exactly the frames of this protocol that are addressed to it.\<close>

lemma promiscuous_receive_stores:
  assumes "address_laws api" "ring_ok r" "rd_started r" "pk_sig_len pkt \<le> length (pk_frame pkt)"
    and air: "air_frame dst src payload (take (pk_sig_len pkt) (pk_frame pkt))"
    and self: "addressed_to api (rd_local r) dst"
  shows "promiscuous_receive api now True (Some pkt) r =
    Some (put_packet (accepted_info api now pkt dst src payload) r)"
proof -
  let ?F = "pk_frame pkt" and ?n = "pk_sig_len pkt"
  note fields = air_frame_fields [OF air]
  have n: "34 + length payload \<le> ?n" using fields(1) by simp
  have p: "length payload \<le> 270" using air by (simp add: air_frame_def frame_sizes)
  have "?F ! 0 AND 0xFC = 0x08" "take 6 (drop 4 ?F) = dst" "take 6 (drop 10 ?F) = src"
    "take 6 (drop 16 ?F) = radio_bssid" "take 8 (drop 24 ?F) = llc_snap"
    "unat (of_be16 (?F ! 33) (?F ! 32)) = length payload"
    "take (length payload) (drop 34 ?F) = payload"
    using fields(2-8) n by (simp_all add: window_of_prefix)
  then show ?thesis
    using n p self by (simp add: promiscuous_receive_eq [OF assms(1-4)])
qed

lemma promiscuous_receive_ignores:
  assumes "address_laws api" "ring_ok r" "rd_started r" "pk_sig_len pkt \<le> length (pk_frame pkt)"
    and none: "\<not> (\<exists>dst src payload. air_frame dst src payload (take (pk_sig_len pkt) (pk_frame pkt)) \<and>
      addressed_to api (rd_local r) dst)"
  shows "promiscuous_receive api now True (Some pkt) r = Some (False, r)"
proof -
  let ?F = "pk_frame pkt" and ?n = "pk_sig_len pkt"
  let ?f = "take ?n ?F" and ?p = "unat (of_be16 (?F ! 33) (?F ! 32))"
  have False if c: "34 \<le> ?n" "?F ! 0 AND 0xFC = 0x08" "take 6 (drop 16 ?F) = radio_bssid"
      "take 8 (drop 24 ?F) = llc_snap" "addressed_to api (rd_local r) (take 6 (drop 4 ?F))"
      "?p \<le> 270" "34 + ?p \<le> ?n"
  proof -
    have "air_frame (take 6 (drop 4 ?f)) (take 6 (drop 10 ?f)) (take ?p (drop 34 ?f)) ?f"
      using c assms(4) by (intro air_frame_of_fields) (simp_all add: window_of_prefix)
    moreover have "take 6 (drop 4 ?f) = take 6 (drop 4 ?F)"
      using c(1) by (simp add: window_of_prefix)
    ultimately show False using none c(5) by auto
  qed
  then show ?thesis by (auto simp: promiscuous_receive_eq [OF assms(1-4)])
qed

section \<open>Assembling a frame\<close>

lemma blit_zeros:
  "length ys \<le> n \<Longrightarrow> blit (pre @ replicate n 0) (length pre) ys = Some (pre @ ys @ replicate (n - length ys) 0)"
  by (simp add: blit_def)

lemma build_frame_eq:
  assumes "address_laws api" "length payload \<le> 270"
  shows "build_frame api self destination payload = Some
    ([0x08, 0, 0, 0] @ take 6 (ra_bytes api destination) @ take 6 (ra_bytes api self) @ radio_bssid
      @ [0, 0] @ llc_snap @ le16 (word_of_nat (length payload)) @ payload
      @ replicate (270 - length payload) 0, 34 + length payload)"
proof -
  have a: "slice (ra_bytes api x) 0 6 = Some (take 6 (ra_bytes api x))"
    "length (take 6 (ra_bytes api x)) = 6" for x
    using assms(1) by (simp_all add: address_laws_def)
  obtain d0 d1 d2 d3 d4 d5 s0 s1 s2 s3 s4 s5 where
    d: "take 6 (ra_bytes api destination) = [d0, d1, d2, d3, d4, d5]" and
    s: "take 6 (ra_bytes api self) = [s0, s1, s2, s3, s4, s5]"
    using bytes6 [OF a(2)] by meson
  have zeros: "replicate 304 (0 :: u8) = [0,0,0,0,0,0,0,0,0,0,0,0,0,0,0,0,0,0,0,0,0,0,0,0,0,0,0,0,0,0,
      0,0,0,0] @ replicate 270 0"
    by (simp add: numeral_eq_Suc)
  define rest where "rest = replicate 270 (0 :: u8)"
  have fill: "take (length payload) rest = replicate (length payload) 0"
    "length rest = 270" "drop (length payload) rest = replicate (270 - length payload) 0"
    using assms(2) by (auto simp: rest_def)
  have lo: "word_of_nat (length payload) = (ucast (word_of_nat (length payload) :: u16) :: u8)"
    using assms(2) by (simp add: unsigned_of_nat take_bit_nat_eq_self)
  have past: "drop (34 + length payload) xs = drop (length payload) (drop 34 xs)" for xs :: bytes
    by (simp add: add.commute)
  show ?thesis
    using fill assms(2)
    by (simp add: past lo build_frame_def frame_sizes zeros rest_def [symmetric] a d s Let_def blit_def
        radio_bssid_def llc_snap_def le16_def high_byte_of_length)
qed


lemma radio_send_transmits:
  assumes "address_laws api" "rd_started r" "ra_valid api destination" "ra_length api destination = 6"
    and "length payload \<le> maximum_payload_bytes"
  shows "\<exists>f result. radio_send api tx destination (Some payload) (length payload) r =
      Some (result, [Transmit (rd_interface r) f, SendCompleted (length payload) result]) \<and>
    (result = Accepted \<longleftrightarrow> tx = ESP_OK) \<and>
    air_frame (take 6 (ra_bytes api destination)) (take 6 (ra_bytes api (rd_local r))) payload f"
proof -
  have macs: "length (take 6 (ra_bytes api x)) = 6" for x
    using assms(1) by (simp add: address_laws_def)
  define f where "f = [0x08, 0, 0, 0] @ take 6 (ra_bytes api destination)
      @ take 6 (ra_bytes api (rd_local r)) @ radio_bssid
      @ [0, 0] @ llc_snap @ le16 (word_of_nat (length payload)) @ payload"
  have p: "length payload \<le> 270" using assms(5) by (simp add: frame_sizes)
  have "build_frame api (rd_local r) destination payload =
      Some (f @ replicate (270 - length payload) 0, 34 + length payload)"
    by (simp add: build_frame_eq [OF assms(1) p] f_def)
  moreover have len: "length f = 34 + length payload"
    using macs by (simp add: f_def)
  moreover have "air_frame (take 6 (ra_bytes api destination)) (take 6 (ra_bytes api (rd_local r)))
      payload f"
    using macs p unfolding air_frame_def f_def frame_sizes by (auto intro!: exI)
  ultimately show ?thesis
    using assms(2-5) by (auto simp: radio_send_def Let_def)
qed

lemma air_frame_append: "air_frame dst src payload f \<Longrightarrow> air_frame dst src payload (f @ tail)"
  unfolding air_frame_def by fastforce

section \<open>The nearest receive time\<close>

lemma wrap_parts:
  "unat ((now AND NOT 0xFFFFFFFF) OR ucast (ts :: u32) :: u64)
     = unat now div 2 ^ 32 * 2 ^ 32 + unat ts"
proof -
  have mask: "(0xFFFFFFFF :: u64) = mask 32" by (simp add: mask_eq_exp_minus_1)
  have "now AND NOT (mask 32) = push_bit 32 (drop_bit 32 now)"
    by (rule bit_word_eqI) (auto simp: bit_simps)
  moreover have disjoint: "push_bit 32 (drop_bit 32 now) AND (ucast ts :: u64) = 0"
    by (rule bit_word_eqI) (auto simp: bit_simps dest: bit_imp_le_length)
  ultimately have "(now AND NOT (mask 32)) OR (ucast ts :: u64) = push_bit 32 (drop_bit 32 now) + ucast ts"
    using disjunctive_add_eq_or [of "push_bit 32 (drop_bit 32 now)" "ucast ts :: u64"] disjoint
    by simp
  moreover have hi: "unat (push_bit 32 (drop_bit 32 now) :: u64) = unat now div 2 ^ 32 * 2 ^ 32"
  proof -
    have "unat now div 4294967296 * 4294967296 < 18446744073709551616"
      using unsigned_less [of now, where ?'a = nat] by simp
    then show ?thesis
      unfolding unsigned_push_bit_eq unsigned_drop_bit_eq
      by (simp add: push_bit_eq_mult drop_bit_eq_div take_bit_nat_eq_self)
  qed
  moreover have lo: "unat (ucast ts :: u64) = unat ts"
    using unsigned_less [of ts, where ?'a = nat] by (simp add: unsigned_ucast_eq take_bit_nat_eq_self)
  moreover have "unat now div 2 ^ 32 * 2 ^ 32 + unat ts < 2 ^ 64"
  proof -
    have "unat now div 4294967296 < 4294967296"
      using unsigned_less [of now, where ?'a = nat] by (simp add: less_mult_imp_div_less)
    then show ?thesis using unsigned_less [of ts, where ?'a = nat] by simp
  qed
  ultimately show ?thesis
    unfolding mask by (simp add: unat_word_ariths)
qed

text \<open>The word arithmetic in integers, whatever the two clocks say.\<close>

lemma recover_cases:
  fixes now :: u64 and ts :: u32
  defines "U \<equiv> uint now div 2 ^ 32 * 2 ^ 32 + uint ts"
  shows "recover_receive_microseconds now ts = of_int
    (if uint now + 2 ^ 31 < U then U - 2 ^ 32 else if U + 2 ^ 31 < uint now then U + 2 ^ 32 else U)"
proof -
  define u where "u = (now AND NOT 0xFFFFFFFF) OR (ucast ts :: u64)"
  have "int (unat u) = U"
    unfolding u_def U_def wrap_parts by (simp add: zdiv_int)
  moreover have "u = of_int (int (unat u))" by simp
  ultimately have u: "int (unat u) = U" "u = of_int U" by (simp_all only:)
  have "recover_receive_microseconds now ts =
      (if unat now + 2 ^ 31 < unat u then u - 0x100000000
       else if unat u + 2 ^ 31 < unat now then u + 0x100000000 else u)"
    by (auto simp: recover_receive_microseconds_def u_def [simplified, symmetric] word_less_nat_alt
        unat_sub_if' Let_def)
  moreover have "unat now + 2 ^ 31 < unat u \<longleftrightarrow> uint now + 2 ^ 31 < U"
    "unat u + 2 ^ 31 < unat now \<longleftrightarrow> U + 2 ^ 31 < uint now"
    unfolding uint_nat u(1) [symmetric] by (simp_all flip: of_nat_less_iff [where ?'a = int])
  moreover have "u - 0x100000000 = of_int (U - 2 ^ 32)" "u + 0x100000000 = of_int (U + 2 ^ 32)"
    unfolding u(2) by simp_all
  ultimately show ?thesis using u(2) by (simp only: split: if_split) simp
qed

text \<open>
  The reconstructed time stands for the integer congruent to the driver's 32-bit time that is nearest
  to the clock, at most half a wrap away. It is negative exactly when the driver's clock is ahead of a
  clock that has run less than half a wrap.
\<close>

lemma recover_nearest:
  fixes now :: u64 and ts :: u32
  shows "\<exists>T. recover_receive_microseconds now ts = of_int T \<and> T mod 2 ^ 32 = uint ts \<and>
    \<bar>T - uint now\<bar> \<le> 2 ^ 31 \<and> (T < 0 \<longleftrightarrow> uint now + 2 ^ 31 < uint ts)"
proof -
  define n where "n = uint now"
  define s where "s = uint ts"
  have s: "0 \<le> s" "s < 2 ^ 32" "0 \<le> n" using uint_lt2p [of ts] by (simp_all add: s_def n_def)
  have n: "n = n div 2 ^ 32 * 2 ^ 32 + n mod 2 ^ 32" "0 \<le> n mod 2 ^ 32" "n mod 2 ^ 32 < 2 ^ 32" "0 \<le> n div 2 ^ 32"
    using s(3) by (simp_all add: pos_imp_zdiv_nonneg_iff)
  define q where "q = n div 2 ^ 32"
  define T where "T = (if n + 2 ^ 31 < q * 2 ^ 32 + s then q * 2 ^ 32 + s - 2 ^ 32
     else if q * 2 ^ 32 + s + 2 ^ 31 < n then q * 2 ^ 32 + s + 2 ^ 32 else q * 2 ^ 32 + s)"
  have "T = (q + (if n + 2 ^ 31 < q * 2 ^ 32 + s then - 1
     else if q * 2 ^ 32 + s + 2 ^ 31 < n then 1 else 0)) * 2 ^ 32 + s" by (simp add: T_def)
  then have "T mod 2 ^ 32 = s" using s by (simp only: mod_mult_self3) simp
  moreover have "q = 0 \<or> 1 \<le> q" using n(4) unfolding q_def by arith
  then have "\<bar>T - n\<bar> \<le> 2 ^ 31 \<and> (T < 0 \<longleftrightarrow> n + 2 ^ 31 < s)"
    using n s unfolding q_def [symmetric] T_def by (elim disjE) (auto split: if_splits)
  moreover have "recover_receive_microseconds now ts = of_int T"
    using recover_cases [of now ts] unfolding T_def q_def n_def s_def .
  ultimately show ?thesis unfolding n_def s_def by blast
qed


section \<open>Several radios\<close>

text \<open>
  All radio objects of the process with the callback instance they share. A delivery advances the
  read index from the value it loaded before it called the receiver, which may be stale by then.
\<close>

record 'a radio_world =
  rw_callback :: "nat option"
  rw_radio :: "nat \<Rightarrow> 'a radio"

definition set_radio :: "nat \<Rightarrow> 'a radio \<Rightarrow> 'a radio_world \<Rightarrow> 'a radio_world" where
  "set_radio i r w = w\<lparr>rw_radio := (rw_radio w)(i := r)\<rparr>"

definition fresh_radio :: "wifi_interface \<Rightarrow> u8 \<Rightarrow> bool \<Rightarrow> 'a \<Rightarrow> 'a radio" where
  "fresh_radio interface channel init_station no_address =
     \<lparr>rd_interface = interface, rd_channel = channel, rd_init_station = init_station,
      rd_receiver = None, rd_signal = None, rd_local = no_address, rd_queue = [], rd_write = 0,
      rd_read = 0, rd_started = False, rd_was_promiscuous = False\<rparr>"

inductive radio_step :: "'a address_api \<Rightarrow> 'a \<Rightarrow> 'a radio_world \<Rightarrow> 'a radio_world \<Rightarrow> bool"
  for api :: "'a address_api" and no_address :: 'a where
  start: "radio_start api no_address env i (rw_callback w) (rw_radio w i) = (ok, cb, r', ev) \<Longrightarrow>
    radio_step api no_address w (set_radio i r' w\<lparr>rw_callback := cb\<rparr>)"
| stop: "radio_stop i (rw_callback w) (rw_radio w i) = (cb, r', ev) \<Longrightarrow>
    radio_step api no_address w (set_radio i r' w\<lparr>rw_callback := cb\<rparr>)"
| receive: "rw_callback w = Some i \<Longrightarrow> pk_sig_len pkt \<le> length (pk_frame pkt) \<Longrightarrow>
    promiscuous_receive api now is_data (Some pkt) (rw_radio w i) = Some (stored, r') \<Longrightarrow>
    radio_step api no_address w (set_radio i r' w)"
| advance: "rd_queue (rw_radio w i) \<noteq> [] \<Longrightarrow>
    radio_step api no_address w
      (set_radio i ((rw_radio w i)\<lparr>rd_read := ring_next (length (rd_queue (rw_radio w i))) j\<rparr>) w)"
| receiver: "radio_step api no_address w (set_radio i (set_receiver rcv (rw_radio w i)) w)"
| signal: "radio_step api no_address w (set_radio i (set_work_signal sig (rw_radio w i)) w)"

inductive radio_reach :: "'a address_api \<Rightarrow> 'a \<Rightarrow> 'a radio_world \<Rightarrow> bool"
  for api :: "'a address_api" and no_address :: 'a where
  fresh: "(\<forall>i. \<exists>interface channel init. rw_radio w i = fresh_radio interface channel init no_address) \<Longrightarrow>
    rw_callback w = None \<Longrightarrow> radio_reach api no_address w"
| step: "radio_reach api no_address w \<Longrightarrow> radio_step api no_address w w' \<Longrightarrow>
    radio_reach api no_address w'"

definition radio_ok :: "'a radio \<Rightarrow> bool" where
  "radio_ok r \<longleftrightarrow> ring_ok r \<or>
     (rd_queue r = [] \<and> \<not> rd_started r \<and> rd_read r = 0 \<and> rd_write r = 0)"

definition radio_inv :: "'a radio_world \<Rightarrow> bool" where
  "radio_inv w \<longleftrightarrow> (\<forall>i. (rw_callback w = Some i \<longleftrightarrow> rd_started (rw_radio w i)) \<and>
     radio_ok (rw_radio w i))"

lemma resize_queue_ok:
  assumes "radio_ok r" shows "ring_ok (r\<lparr>rd_queue := resize_queue n (rd_queue r)\<rparr>)"
proof (cases "ring_ok r")
  case True
  then show ?thesis by (simp add: resize_queue_def ring_ok_def)
next
  case False
  then have "rd_queue r = []" "rd_read r = 0" "rd_write r = 0"
    using assms by (auto simp: radio_ok_def)
  then show ?thesis
    by (simp add: resize_queue_def ring_ok_def slot_ok_def empty_slot_def frame_sizes list_all_iff)
qed

text \<open>What \<open>Start\<close> and \<open>Stop\<close> leave behind.\<close>

lemma start_receiving_cases:
  assumes "start_receiving api env i mac r ev0 = (ok, cb', r', ev)" "ring_ok r" "\<not> rd_started r"
  shows "ring_ok r' \<and> cb' = (if rd_started r' then Some i else None) \<and> ok = rd_started r'"
  using assms
  by (auto simp: start_receiving_def Let_def ring_ok_def frame_sizes split: if_splits option.splits)

lemma radio_start_cases:
  assumes "radio_start api n env i cb r = (ok, cb', r', ev)"
    and "radio_ok r" "cb = Some i \<longleftrightarrow> rd_started r"
  shows "radio_ok r' \<and> (if rd_started r' then cb' = Some i else cb' = cb) \<and>
    (cb = None \<or> cb = Some i \<or> r' = r) \<and> (rd_started r \<longrightarrow> r' = r)"
proof (cases "rd_started r \<or> cb \<noteq> None \<or> length (rd_queue r) \<noteq> rx_queue_depth \<and> \<not> se_alloc env")
  case True
  then have "cb' = cb \<and> r' = r"
    using assms(1,3) by (cases cb) (auto simp: radio_start_def split: if_splits)
  then show ?thesis using assms by auto
next
  case False
  let ?r = "r\<lparr>rd_queue := resize_queue n (rd_queue r)\<rparr>"
  have ring: "ring_ok ?r" "\<not> rd_started ?r" using resize_queue_ok [OF assms(2)] False by auto
  obtain mode ev0 where m: "start_mode env ?r = (mode, ev0)" by fastforce
  have "(cb' = cb \<and> r' = ?r) \<or>
      (\<exists>mac ev0 ok. start_receiving api env i mac ?r ev0 = (ok, cb', r', ev))"
    using assms(1) False m
    by (simp add: radio_start_def Let_def split: option.splits if_split_asm) blast+
  then show ?thesis
    using start_receiving_cases [OF _ ring] ring False
    by (fastforce simp: radio_ok_def)
qed

lemma radio_stop_cases:
  "radio_stop i cb r = (cb', r', ev) \<Longrightarrow> (cb = Some i \<longleftrightarrow> rd_started r) \<Longrightarrow> radio_ok r \<Longrightarrow>
     \<not> rd_started r' \<and> cb' = (if cb = Some i then None else cb) \<and> radio_ok r'"
  by (auto simp: radio_stop_def radio_ok_def ring_ok_def frame_sizes Let_def split: if_splits)

lemma promiscuous_receive_total:
  assumes "address_laws api" "ring_ok r" "rd_started r" "pk_sig_len pkt \<le> length (pk_frame pkt)"
  shows "\<exists>stored r'. promiscuous_receive api now is_data (Some pkt) r = Some (stored, r') \<and>
    ring_ok r' \<and> rd_started r'"
proof (cases is_data)
  case True
  have started: "rd_started (snd (put_packet x r)) = rd_started r" for x
    by (auto simp: put_packet_def enqueue_packet_def Let_def
        split: option.split bind_splits if_splits)
  show ?thesis
  proof (cases "\<exists>dst src payload.
      air_frame dst src payload (take (pk_sig_len pkt) (pk_frame pkt)) \<and>
      addressed_to api (rd_local r) dst")
    case air: True
    then obtain dst src payload where
      a: "air_frame dst src payload (take (pk_sig_len pkt) (pk_frame pkt))"
      "addressed_to api (rd_local r) dst" by blast
    let ?x = "accepted_info api now pkt dst src payload"
    have "info_ok ?x" using a(1) by (simp add: info_ok_def accepted_info_def air_frame_def)
    then show ?thesis
      using promiscuous_receive_stores [OF assms a, of now] enqueue_packet_ok [OF assms(2), of ?x]
        True started [of ?x] assms(3)
      by (cases "put_packet ?x r") auto
  next
    case False
    then show ?thesis
      using promiscuous_receive_ignores [OF assms False, of now] True assms(2,3) by auto
  qed
next
  case False
  then show ?thesis using assms by (auto simp: promiscuous_receive_def)
qed

lemma started_unique:
  "radio_inv w \<Longrightarrow> rd_started (rw_radio w a) \<Longrightarrow> rd_started (rw_radio w b) \<Longrightarrow> a = b"
  unfolding radio_inv_def by (metis option.inject)

lemma radio_step_inv:
  assumes "radio_step api n w w'" "address_laws api" "radio_inv w"
  shows "radio_inv w'"
  using assms
proof (induction rule: radio_step.induct)
  case (start env i w ok cb r' ev)
  have "rw_callback w = Some i \<longleftrightarrow> rd_started (rw_radio w i)" "radio_ok (rw_radio w i)"
    using start.prems(2) by (auto simp: radio_inv_def)
  then show ?case
    using radio_start_cases [OF start.hyps] start.prems(2) started_unique [OF start.prems(2)]
    by (auto simp: radio_inv_def set_radio_def split: if_splits)
next
  case (stop i w cb r' ev)
  have "rw_callback w = Some i \<longleftrightarrow> rd_started (rw_radio w i)" "radio_ok (rw_radio w i)"
    using stop.prems(2) by (auto simp: radio_inv_def)
  then show ?case
    using radio_stop_cases [OF stop.hyps] stop.prems(2) started_unique [OF stop.prems(2)]
    by (auto simp: radio_inv_def set_radio_def split: if_splits)
next
  case (receive w i pkt now is_data stored r')
  have "rd_started (rw_radio w i)" "ring_ok (rw_radio w i)"
    using receive.prems(2) receive.hyps(1) by (auto simp: radio_inv_def radio_ok_def)
  from promiscuous_receive_total [OF receive.prems(1) this(2,1) receive.hyps(2), where now = now and is_data = is_data]
    receive.hyps(3) receive.prems(2) \<open>rd_started (rw_radio w i)\<close>
  show ?case by (auto simp: radio_inv_def set_radio_def radio_ok_def)
next
  case (advance w i j)
  then have "length (rd_queue (rw_radio w i)) = rx_queue_depth"
    by (auto simp: radio_inv_def radio_ok_def ring_ok_def)
  then show ?case using advance
    by (auto simp: radio_inv_def set_radio_def radio_ok_def ring_ok_def)
qed (auto simp: radio_inv_def set_radio_def set_receiver_def set_work_signal_def radio_ok_def ring_ok_def)


lemma radio_reach_inv:
  "radio_reach api n w \<Longrightarrow> address_laws api \<Longrightarrow> radio_inv w"
proof (induction rule: radio_reach.induct)
  case (fresh w)
  have "\<not> rd_started (rw_radio w i) \<and> radio_ok (rw_radio w i)" for i
  proof -
    from fresh(1) obtain a b c where "rw_radio w i = fresh_radio a b c n" by blast
    then show ?thesis by (simp add: fresh_radio_def radio_ok_def)
  qed
  then show ?case using fresh(2) by (simp add: radio_inv_def)
qed (blast intro: radio_step_inv)

section \<open>The properties of the radio\<close>

text \<open>C10: With any number of radio objects, started and stopped in any order under any answers of
  the Wi-Fi driver, the registered callback instance is exactly the one started radio, so at most
  one radio is started; and whatever frame the driver delivers is handled without an access out of
  the frame or of the receive ring.\<close>

theorem radio_exclusive:
  assumes "radio_reach api no_address w" "address_laws api"
  shows "(\<forall>i. rw_callback w = Some i \<longleftrightarrow> rd_started (rw_radio w i)) \<and>
    (\<forall>i pkt is_data now. rd_started (rw_radio w i) \<and> pk_sig_len pkt \<le> length (pk_frame pkt) \<longrightarrow>
      promiscuous_receive api now is_data (Some pkt) (rw_radio w i) \<noteq> None)"
proof -
  have inv: "radio_inv w" using radio_reach_inv [OF assms] .
  have "promiscuous_receive api now is_data (Some pkt) (rw_radio w i) \<noteq> None"
    if "rd_started (rw_radio w i)" "pk_sig_len pkt \<le> length (pk_frame pkt)" for i pkt is_data now
  proof -
    have "ring_ok (rw_radio w i)" using inv that(1) by (auto simp: radio_inv_def radio_ok_def)
    then show ?thesis
      using promiscuous_receive_total [OF assms(2) _ that, where is_data = is_data] by fastforce
  qed
  then show ?thesis using inv by (auto simp: radio_inv_def)
qed

text \<open>A concrete address type: the six bytes themselves, padded.\<close>

definition sample_api :: "bytes address_api" where
  "sample_api = \<lparr>ra_bytes = (\<lambda>a. take 6 a @ replicate (6 - length a) 0), ra_length = length,
     ra_valid = (\<lambda>a. length a = 6), ra_broadcast = (\<lambda>a. a = replicate 6 0xFF),
     ra_from_bytes = (\<lambda>m. m)\<rparr>"

lemma sample_api_laws: "address_laws sample_api"
  by (auto simp: address_laws_def sample_api_def)

definition sample_env :: "bytes \<Rightarrow> start_env" where
  "sample_env mac = \<lparr>se_alloc = True, se_mode = Some ModeSta, se_set_mode = True,
     se_set_channel = ESP_OK, se_mac = Some mac, se_promiscuous = Some False,
     se_set_callback = ESP_OK, se_set_promiscuous = ESP_OK\<rparr>"

definition sample_radio :: "bytes \<Rightarrow> bytes radio" where
  "sample_radio mac = (fresh_radio STA_Interface 0 True [])\<lparr>rd_local := mac, rd_started := True,
     rd_receiver := Some 1, rd_queue := replicate 4 (empty_slot [])\<rparr>"

theorem radio_exclusive_witness:
  "\<exists>w. radio_reach sample_api [] w \<and> rw_callback w = Some 0 \<and> rd_started (rw_radio w 0)"
proof -
  define w0 where "w0 = \<lparr>rw_callback = None, rw_radio = (\<lambda>_. fresh_radio STA_Interface 0 True ([] :: bytes))\<rparr>"
  obtain ok cb r' ev where s: "radio_start sample_api [] (sample_env [1,2,3,4,5,6]) 0 (rw_callback w0)
      (rw_radio w0 0) = (ok, cb, r', ev)" by (meson prod_cases4)
  have "radio_reach sample_api [] w0"
    by (rule radio_reach.fresh) (auto simp: w0_def)
  then have "radio_reach sample_api [] (set_radio 0 r' w0\<lparr>rw_callback := cb\<rparr>)"
    by (rule radio_reach.step) (rule radio_step.start [OF s])
  moreover have "rd_started r' \<and> cb = Some 0"
    using s by (auto simp: radio_start_def w0_def fresh_radio_def sample_env_def start_mode_def
        mode_serves_def start_receiving_def)
  ultimately show ?thesis
    using radio_exclusive [OF _ sample_api_laws, of "[]" "set_radio 0 r' w0\<lparr>rw_callback := cb\<rparr>"]
    by (intro exI [of _ "set_radio 0 r' w0\<lparr>rw_callback := cb\<rparr>"]) (simp add: set_radio_def)
qed


lemma sample_radio_ok [simp]: "ring_ok (sample_radio mac)" "rd_started (sample_radio mac)"
  "rd_local (sample_radio mac) = mac" "rd_receiver (sample_radio mac) = Some 1"
  by (simp_all add: sample_radio_def ring_ok_def fresh_radio_def slot_ok_def empty_slot_def
      frame_sizes list_all_iff)

text \<open>C7: The Wi-Fi callback stores a packet exactly for the frames of this protocol (type, radio
  identifier, encapsulation and a length that fits) that are addressed to this radio or to all:
  then it appends the source, the destination, the signal strength, the receive time and the
  payload of the frame to the ring, unless three packets wait there already. Every other
  frame leaves the radio unchanged.\<close>

theorem radio_reception:
  assumes "address_laws api" "ring_ok r" "rd_started r" "pk_sig_len pkt \<le> length (pk_frame pkt)"
  defines "f \<equiv> take (pk_sig_len pkt) (pk_frame pkt)"
  shows "if \<exists>dst src payload. air_frame dst src payload f \<and> addressed_to api (rd_local r) dst
    then \<exists>dst src payload r'. air_frame dst src payload f \<and> addressed_to api (rd_local r) dst \<and>
      promiscuous_receive api now True (Some pkt) r = Some (length (packets r) < 3, r') \<and>
      ring_ok r' \<and>
      packets r' = packets r @ (if length (packets r) < 3
        then [accepted_info api now pkt dst src payload] else [])
    else promiscuous_receive api now True (Some pkt) r = Some (False, r)"
proof (cases "\<exists>dst src payload. air_frame dst src payload f \<and> addressed_to api (rd_local r) dst")
  case True
  then obtain dst src payload where
    a: "air_frame dst src payload f" "addressed_to api (rd_local r) dst" by blast
  let ?x = "accepted_info api now pkt dst src payload"
  have "info_ok ?x" using a(1) by (simp add: info_ok_def accepted_info_def air_frame_def)
  then have "promiscuous_receive api now True (Some pkt) r =
      Some (length (packets r) < 3, snd (put_packet ?x r)) \<and> ring_ok (snd (put_packet ?x r)) \<and>
      packets (snd (put_packet ?x r)) = packets r @ (if length (packets r) < 3 then [?x] else [])"
    using promiscuous_receive_stores [OF assms(1-4) a(1) [unfolded f_def] a(2), of now]
      enqueue_packet_ok [OF assms(2), of ?x]
    by (cases "put_packet ?x r") (auto simp: rx_queue_depth_def)
  then show ?thesis using a by auto
next
  case False
  show ?thesis
    unfolding if_not_P [OF False]
    by (rule promiscuous_receive_ignores [OF assms(1-4) False [unfolded f_def]])
qed

theorem radio_reception_witness:
  "\<exists>f r'. air_frame [1, 2, 3, 4, 5, 6] [6, 5, 4, 3, 2, 1] [42] f \<and>
     promiscuous_receive sample_api 0 True
       (Some \<lparr>pk_frame = f, pk_sig_len = length f, pk_rssi = 0, pk_timestamp = 0\<rparr>)
       (sample_radio [1, 2, 3, 4, 5, 6]) = Some (True, r') \<and> length (packets r') = 1"
proof -
  let ?r = "sample_radio [1, 2, 3, 4, 5, 6]"
  obtain f where f: "air_frame [1, 2, 3, 4, 5, 6] [6, 5, 4, 3, 2, 1] [42] f"
    using radio_send_transmits [OF sample_api_laws, of "sample_radio [6, 5, 4, 3, 2, 1]" "[1, 2, 3, 4, 5, 6]" "[42]" ESP_OK]
    by (auto simp: sample_api_def sample_radio_def fresh_radio_def frame_sizes)
  moreover have "addressed_to sample_api (rd_local ?r) [1, 2, 3, 4, 5, 6]"
    by (simp add: addressed_to_def sample_api_def sample_radio_def fresh_radio_def)
  moreover have r: "ring_ok ?r" "rd_started ?r" "packets ?r = []"
    by (simp_all add: ring_ok_def packets_def sample_radio_def fresh_radio_def ring_list_def
        ring_used_def frame_sizes empty_slot_def
        slot_ok_def list_all_iff)
  ultimately show ?thesis
    using radio_reception [OF sample_api_laws r(1,2),
        of "\<lparr>pk_frame = f, pk_sig_len = length f, pk_rssi = 0, pk_timestamp = 0\<rparr>" 0]
    by (fastforce split: if_splits)
qed

text \<open>C8: What one radio sends, another one receives: the frame \<open>Send\<close> hands to the driver,
  whatever check sequence follows it on the air, is stored by a started radio that has the destination
  address and an empty ring, with the sender's address as source and exactly the payload, which is
  at most 270 bytes. The sender is started and the destination a valid address of six bytes.\<close>

theorem radio_send_receive:
  assumes laws: "address_laws api"
    and sender: "rd_started a" "ra_valid api destination" "ra_length api destination = 6"
      "length payload \<le> maximum_payload_bytes"
    and receiver: "ring_ok b" "rd_started b" "packets b = []"
      "take 6 (ra_bytes api (rd_local b)) = take 6 (ra_bytes api destination)"
  shows "\<exists>f b'. radio_send api ESP_OK destination (Some payload) (length payload) a =
      Some (Accepted, [Transmit (rd_interface a) f, SendCompleted (length payload) Accepted]) \<and>
    promiscuous_receive api now True (Some \<lparr>pk_frame = f @ fcs, pk_sig_len = length (f @ fcs),
        pk_rssi = rssi, pk_timestamp = ts\<rparr>) b = Some (True, b') \<and>
    packets b' = [\<lparr>fi_source = ra_from_bytes api (take 6 (ra_bytes api (rd_local a))),
      fi_destination = ra_from_bytes api (take 6 (ra_bytes api destination)), fi_rssi = rssi,
      fi_timestamp = recover_receive_timestamp now ts, fi_data = payload\<rparr>]"
proof -
  obtain f where f: "radio_send api ESP_OK destination (Some payload) (length payload) a =
      Some (Accepted, [Transmit (rd_interface a) f, SendCompleted (length payload) Accepted])"
    "air_frame (take 6 (ra_bytes api destination)) (take 6 (ra_bytes api (rd_local a))) payload f"
    using radio_send_transmits [OF laws sender, of ESP_OK] by auto
  let ?pkt = "\<lparr>pk_frame = f @ fcs, pk_sig_len = length (f @ fcs), pk_rssi = rssi, pk_timestamp = ts\<rparr>"
  let ?x = "accepted_info api now ?pkt (take 6 (ra_bytes api destination))
    (take 6 (ra_bytes api (rd_local a))) payload"
  have "promiscuous_receive api now True (Some ?pkt) b = Some (put_packet ?x b)"
    using air_frame_append [OF f(2), of fcs] receiver(4)
    by (intro promiscuous_receive_stores [OF laws receiver(1,2)])
      (simp_all add: addressed_to_def)
  moreover have "info_ok ?x" using sender(4) by (simp add: info_ok_def accepted_info_def)
  ultimately show ?thesis
    using f(1) enqueue_packet_ok [OF receiver(1), of ?x] receiver(3)
    by (cases "put_packet ?x b") (auto simp: rx_queue_depth_def accepted_info_def)
qed

theorem radio_send_receive_witness:
  "\<exists>f b'. radio_send sample_api ESP_OK [6, 5, 4, 3, 2, 1] (Some [42]) 1 (sample_radio [1, 2, 3, 4, 5, 6])
      = Some (Accepted, [Transmit STA_Interface f, SendCompleted 1 Accepted]) \<and>
    promiscuous_receive sample_api 0 True (Some \<lparr>pk_frame = f, pk_sig_len = length f, pk_rssi = 0,
        pk_timestamp = 0\<rparr>) (sample_radio [6, 5, 4, 3, 2, 1]) = Some (True, b') \<and>
    map fi_data (packets b') = [[42]]"
proof -
  have "packets (sample_radio [6, 5, 4, 3, 2, 1]) = []" "rd_interface (sample_radio m) = STA_Interface" for m
    by (simp_all add: packets_def sample_radio_def fresh_radio_def ring_list_def ring_used_def)
  then show ?thesis
    using radio_send_receive [OF sample_api_laws, of "sample_radio [1, 2, 3, 4, 5, 6]" "[6, 5, 4, 3, 2, 1]"
        "[42]" "sample_radio [6, 5, 4, 3, 2, 1]" 0 "[]" 0 0]
    by (auto simp: sample_api_def frame_sizes)
qed


text \<open>C9: \<open>DrainInbound\<close> delivers the stored packets and those that arrive meanwhile in the order
  they were stored, each once and unchanged; it ends exactly with an empty ring, and it does
  end when nothing more arrives, after at most three packets.\<close>

theorem radio_drain_in_order:
  assumes "ring_ok r" "rd_receiver r \<noteq> None" "list_all (list_all info_ok) xss"
  shows "\<exists>views r' finished arrived.
     drain_inbound api (map arrive xss) r = Some (views, r', finished) \<and>
     subseq arrived (concat xss) \<and>
     views @ map (view_of_info api) (packets r') = map (view_of_info api) (packets r @ arrived) \<and>
     (finished \<longleftrightarrow> packets r' = []) \<and>
     (concat xss = [] \<longrightarrow> 3 \<le> length xss \<longrightarrow> finished)"
proof -
  have "length (packets r) \<le> 3"
    using assms(1) ring_used_less [of "unat (rd_read r)" 4 "unat (rd_write r)"]
    by (simp add: packets_def ring_ok_def rx_queue_depth_def)
  then show ?thesis using drain_delivers [OF assms, of api] by (metis le_trans)
qed

definition sample_waiting :: "bytes radio" where
  "sample_waiting = snd (put_packet \<lparr>fi_source = [1], fi_destination = [2], fi_rssi = 0,
     fi_timestamp = 0, fi_data = [42]\<rparr> (sample_radio [1, 2, 3, 4, 5, 6]))"

lemma sample_waiting_eq:
  "ring_ok sample_waiting" "rd_receiver sample_waiting = Some 1" "rd_started sample_waiting"
  "rd_read sample_waiting = 0" "length (rd_queue sample_waiting) = 4"
  "packets sample_waiting = [\<lparr>fi_source = [1], fi_destination = [2], fi_rssi = 0,
     fi_timestamp = 0, fi_data = [42]\<rparr>]"
proof -
  have p: "packets (sample_radio [1, 2, 3, 4, 5, 6]) = []"
    by (simp add: packets_def sample_radio_def fresh_radio_def ring_list_def ring_used_def)
  then show "ring_ok sample_waiting" "packets sample_waiting = [\<lparr>fi_source = [1],
     fi_destination = [2], fi_rssi = 0, fi_timestamp = 0, fi_data = [42]\<rparr>]"
    unfolding sample_waiting_def
    using enqueue_packet_ok [of "sample_radio [1, 2, 3, 4, 5, 6]" "\<lparr>fi_source = [1],
     fi_destination = [2], fi_rssi = 0, fi_timestamp = 0, fi_data = [42]\<rparr>"]
    by (auto simp: info_ok_def frame_sizes)
  then show "length (rd_queue sample_waiting) = 4" by (simp add: ring_ok_def frame_sizes)
  show "rd_receiver sample_waiting = Some 1" "rd_started sample_waiting"
    "rd_read sample_waiting = 0"
    unfolding sample_waiting_def
    by (auto simp: put_packet_def enqueue_packet_def Let_def sample_radio_def fresh_radio_def
        split: option.split bind_splits if_splits)
qed

theorem radio_drain_in_order_witness:
  "\<exists>views r'. drain_inbound sample_api (map arrive [[], [], []]) sample_waiting = Some (views, r', True) \<and>
     map vw_payload views = [Some [42]]"
  using radio_drain_in_order [OF sample_waiting_eq(1), of "[[], [], []]" sample_api]
  by (auto simp: sample_waiting_eq view_of_info_def)

text \<open>A receiver that stops the radio while it has a packet does not end the delivery. \<open>Stop\<close>
  resets the indices, then the loop advances the read index from the value it loaded before, so
  it is past the reset write index, and the loop hands out every remaining slot up to the end of the
  array, whatever is in it, although the radio is stopped and nothing is waiting.\<close>

theorem radio_stop_during_drain:
  fixes me :: nat and r :: "'a radio"
  assumes "ring_ok r" "rd_started r" "rd_receiver r \<noteq> None" "packets r \<noteq> []"
    and "unat (rd_read r) < 3"
  defines "stopping \<equiv> \<lambda>r :: 'a radio. fst (snd (radio_stop me (Some me) r))"
  shows "packets (stopping r) = [] \<and> \<not> rd_started (stopping r) \<and>
    drain_inbound api (stopping # replicate (3 - unat (rd_read r)) id) r =
      Some (map (view_of_slot api) (drop (unat (rd_read r)) (rd_queue r)),
        (stopping r)\<lparr>rd_read := 0\<rparr>, True)"
proof -
  let ?i = "unat (rd_read r)"
  have len: "length (rd_queue r) = 4" "?i < 4" using assms(1) by (auto simp: ring_ok_def rx_queue_depth_def)
  have s: "rd_queue (stopping r) = rd_queue r" "rd_write (stopping r) = 0" "rd_read (stopping r) = 0"
    "rd_receiver (stopping r) = rd_receiver r" "\<not> rd_started (stopping r)"
    using assms(2) by (auto simp: stopping_def radio_stop_def)
  let ?r1 = "(stopping r)\<lparr>rd_read := ring_next 4 (rd_read r)\<rparr>"
  have nxt: "unat (ring_next 4 (rd_read r)) = Suc ?i"
    using ring_next_depth(1) [of "rd_read r"] assms(5) by (simp add: rx_queue_depth_def)
  have "drain_inbound api (replicate (3 - ?i) id) ?r1 =
      Some (map (view_of_slot api) (drop (Suc ?i) (rd_queue r)), ?r1\<lparr>rd_read := 0\<rparr>, True)"
    using drain_to_wrap [of ?r1 "3 - ?i" api] len s assms(3,5) nxt by (simp add: rx_queue_depth_def)
  moreover have "rd_read r \<noteq> rd_write r" using assms(4) packets_empty_iff [OF assms(1)] by simp
  moreover have "drop ?i (rd_queue r) = rd_queue r ! ?i # drop (Suc ?i) (rd_queue r)"
    using len by (simp add: Cons_nth_drop_Suc)
  ultimately have "drain_inbound api (stopping # replicate (3 - ?i) id) r =
      Some (map (view_of_slot api) (drop ?i (rd_queue r)), ?r1\<lparr>rd_read := 0\<rparr>, True)"
    using drain_turn [of r api "replicate (3 - ?i) id" stopping] len s assms(3) by simp
  then show ?thesis using s by (simp add: packets_def ring_list_def ring_used_def)
qed

theorem radio_stop_during_drain_witness:
  "\<exists>views r'. drain_inbound sample_api
     ((\<lambda>r. fst (snd (radio_stop 0 (Some 0) r))) # replicate 3 id) sample_waiting = Some (views, r', True) \<and>
     length views = 4"
  using radio_stop_during_drain [OF sample_waiting_eq(1), of 0 sample_api]
  by (simp add: sample_waiting_eq)

text \<open>C11: The receive time handed to the receiver, for every clock and every driver time: it is, in
  whole microseconds, the time nearest to the clock (at most half a wrap of the driver's 32-bit time away) that
  agrees with the driver's time. The one exception is a driver time more than half a wrap ahead of
  the clock, which only a clock that has run less than 36 minutes can see: the nearest time is then
  before the start of the clock, the 64-bit subtraction wraps, and the receiver gets a time 584
  years ahead. (That the product with 1000 fits is stated for clocks below half of the 64-bit
  range, 292 years.)\<close>

theorem radio_receive_time:
  fixes now :: u64 and ts :: u32
  defines "clock \<equiv> uint now div 1000"
  shows "\<exists>T. recover_receive_timestamp now ts = of_int (T * 1000) \<and> T mod 2 ^ 32 = uint ts \<and>
    \<bar>T - clock\<bar> \<le> 2 ^ 31 \<and>
    (if clock + 2 ^ 31 < uint ts
     then T < 0 \<and> uint (recover_receive_timestamp now ts) = 2 ^ 64 + T * 1000 \<and>
       now < recover_receive_timestamp now ts
     else 0 \<le> T \<and> (uint now < 2 ^ 63 \<longrightarrow> uint (recover_receive_timestamp now ts) = T * 1000))"
proof -
  have c: "uint (now div 1000) = clock" by (simp add: clock_def uint_div_distrib)
  obtain T where T: "recover_receive_microseconds (now div 1000) ts = of_int T" "T mod 2 ^ 32 = uint ts"
    "\<bar>T - clock\<bar> \<le> 2 ^ 31" "T < 0 \<longleftrightarrow> clock + 2 ^ 31 < uint ts"
    using recover_nearest [of "now div 1000" ts] unfolding c by blast
  have r: "recover_receive_timestamp now ts = of_int (T * 1000)"
    by (simp add: recover_receive_timestamp_def T(1))
  then have u: "uint (recover_receive_timestamp now ts) = T * 1000 mod 2 ^ 64"
    by (simp only: uint_word_of_int) simp
  have clock: "0 \<le> clock" "clock * 1000 \<le> uint now"
    unfolding clock_def by (simp add: pos_imp_zdiv_nonneg_iff) presburger
  have "T * 1000 mod 2 ^ 64 = T * 1000" if "0 \<le> T" "uint now < 2 ^ 63"
    using that T(3) clock by (intro mod_pos_pos_trivial) auto
  moreover have "T * 1000 mod 2 ^ 64 = 2 ^ 64 + T * 1000 \<and> uint now < 2 ^ 64 + T * 1000" if "T < 0"
  proof -
    have "uint ts < 2 ^ 32" using uint_lt2p [of ts] by simp
    then have "clock < 2 ^ 31" using that T(4) by simp
    then have "uint now < 2 ^ 31 * 1000" unfolding clock_def by simp
    moreover have "- (2 ^ 31) \<le> T" using T(3) clock(1) by arith
    moreover have "(2 ^ 64 + T * 1000) mod 2 ^ 64 = 2 ^ 64 + T * 1000"
      using that \<open>- (2 ^ 31) \<le> T\<close> by (intro mod_pos_pos_trivial) auto
    ultimately show ?thesis by simp
  qed
  ultimately show ?thesis
    using T(2-4) r u by (intro exI [of _ T]) (auto simp: word_less_def)
qed


theorem radio_receive_time_witness:
  "uint (recover_receive_timestamp 5000000000000 7) = (2 ^ 32 + 7) * 1000 \<and>
   2 ^ 63 < uint (recover_receive_timestamp 1000000 0x90000000)"
proof -
  obtain T :: int where T: "T mod 2 ^ 32 = 7" "\<bar>T - 5000000000\<bar> \<le> 2 ^ 31"
    "uint (recover_receive_timestamp 5000000000000 7) = T * 1000"
    using radio_receive_time [of 5000000000000 7] by auto
  moreover obtain k where "T = k * 2 ^ 32 + 7" using T(1) by (metis div_mult_mod_eq)
  ultimately have "0 < k" "k < 2" by auto
  then have "T = 2 ^ 32 + 7" using \<open>T = k * 2 ^ 32 + 7\<close> by (cases "k = 1") auto
  moreover obtain S :: int where "\<bar>S - 1000\<bar> \<le> 2 ^ 31"
    "uint (recover_receive_timestamp 1000000 0x90000000) = 2 ^ 64 + S * 1000"
    using radio_receive_time [of 1000000 "0x90000000"] by auto
  ultimately show ?thesis using T(3) by simp
qed

end
