(* ===== verification/WiFi_Platform.thy ===== *)
theory WiFi_Platform
  imports Complex_Main Platform_Types Prelude
begin

text \<open>
  \<open>WiFiPlatform\<close> of src/ESPressio_WiFiPlatform.hpp: the operations of the Wi-Fi core on the Arduino
  and ESP-IDF drivers (\<open>Apply\<close>, \<open>Disable\<close>, \<open>ConnectClient\<close>, \<open>DisconnectClient\<close>,
  \<open>StartAccessPoint\<close>, \<open>StopAccessPoint\<close>, \<open>StartScan\<close>, \<open>Poll\<close>, \<open>GetRadioState\<close>), with the reconnect
  machine inside \<open>Poll\<close>; and the radio policy of src/ESPressio_WiFiRadio.hpp.

  The drivers are a parameter: \<open>wifi_env\<close> holds their answers to the calls of one operation,
  and each operation returns the calls it makes. \<open>wifi_build\<close> says which names the preprocessor
  knows, because the code tests some of them.
\<close>

section \<open>Data\<close>

text \<open>\<open>IPAddress\<close> of Arduino and \<open>IPv4Address\<close> of the Wi-Fi core.\<close>

datatype ip_address = IPAddress u8 u8 u8 u8
datatype ipv4 = IPv4Address u8 u8 u8 u8

fun from_ip :: "ip_address \<Rightarrow> ipv4" where
  "from_ip (IPAddress a b c d) = IPv4Address a b c d"

fun to_ip :: "ipv4 \<Rightarrow> ip_address" where
  "to_ip (IPv4Address a b c d) = IPAddress a b c d"

fun is_zero_address :: "ipv4 \<Rightarrow> bool" where
  "is_zero_address (IPv4Address a b c d) \<longleftrightarrow> a = 0 \<and> b = 0 \<and> c = 0 \<and> d = 0"

record network_address =
  na_address :: ipv4
  na_gateway :: ipv4
  na_subnet :: ipv4
  na_dns1 :: ipv4
  na_dns2 :: ipv4

definition no_network :: network_address where
  "no_network = \<lparr>na_address = IPv4Address 0 0 0 0, na_gateway = IPv4Address 0 0 0 0,
     na_subnet = IPv4Address 0 0 0 0, na_dns1 = IPv4Address 0 0 0 0, na_dns2 = IPv4Address 0 0 0 0\<rparr>"

datatype op_mode = OpDisabled | OpClient | OpAccessPoint | OpAccessPointClient | OpAPUntilClient | OpOff
datatype address_mode = DHCP | StaticAddress
datatype client_state =
  CS_Disconnected | CS_Connecting | CS_Connected | CS_Reconnecting | CS_Disconnecting | CS_Failed
datatype ap_state = AP_Disabled | AP_Starting | AP_Active | AP_Failed
datatype scan_state = ScanIdle | Scanning | ScanComplete | ScanFailed
datatype wifi_status =
  WS_Success | WS_InvalidConfiguration | WS_PlatformError | WS_NotSupported | WS_Busy
datatype wl_status = WL_CONNECTED | WL_CONNECT_FAILED | WL_NO_SSID_AVAIL | WL_OTHER
datatype auth_mode =
  AuthOpen | AuthWep | AuthWpa | AuthWpa2 | AuthWpaWpa2 | AuthWpa3 | AuthWpa2Wpa3 | AuthOther
datatype security = SecOpen | SecWEP | SecWPA | SecWPA2 | SecWPA_WPA2 | SecWPA3 | SecWPA2_WPA3 | SecUnknown

record client_profile =
  pf_enabled :: bool
  pf_ssid :: string
  pf_password :: string
  pf_addressing :: address_mode
  pf_static :: network_address

record client_selection =
  cc_enabled :: bool
  cc_ssid :: string
  cc_password :: string
  cc_addressing :: address_mode
  cc_static :: network_address

record dhcp_config =
  dh_enabled :: bool
  dh_lease_start :: ipv4
  dh_lease_end :: ipv4
  dh_lease_seconds :: u32

record ap_config =
  ap_enabled :: bool
  ap_ssid :: string
  ap_password :: string
  ap_channel :: u8
  ap_hidden :: bool
  ap_max_clients :: u8
  ap_network :: network_address
  ap_dhcp :: dhcp_config

text \<open>
  The backoff multiplier is a floating-point number; the model computes with its exact value as
  a rational, so the rounding of \<open>std::pow\<close> is not in it.
\<close>

record reconnect_policy =
  rp_enabled :: bool
  rp_maximum_attempts :: u32
  rp_initial_delay :: u32
  rp_maximum_delay :: u32
  rp_multiplier :: rat
  rp_timeout :: u32

record wifi_config =
  wc_mode :: op_mode
  wc_hostname :: string
  wc_client :: client_selection
  wc_automatic :: bool
  wc_networks :: "client_profile list"
  wc_ap :: ap_config
  wc_reconnect :: reconnect_policy
  wc_tx_power :: int
  wc_power_save :: bool

text \<open>\<open>PlatformConfiguration\<close>: what the platform retains.\<close>

record retained_config =
  cf_mode :: op_mode
  cf_client :: client_selection
  cf_ap :: ap_config
  cf_reconnect :: reconnect_policy
  cf_tx_power :: int
  cf_power_save :: bool

record client_runtime =
  cl_state :: client_state
  cl_ssid :: string
  cl_rssi :: int
  cl_channel :: u8
  cl_network :: network_address
  cl_reconnect :: u32

record ap_runtime =
  ar_state :: ap_state
  ar_ssid :: string
  ar_channel :: u8
  ar_network :: network_address
  ar_stations :: u16

record runtime =
  rt_mode :: op_mode
  rt_client :: client_runtime
  rt_ap :: ap_runtime
  rt_scan :: scan_state
  rt_revision :: u32

definition fresh_client :: client_runtime where
  "fresh_client = \<lparr>cl_state = CS_Disconnected, cl_ssid = [], cl_rssi = 0, cl_channel = 0,
     cl_network = no_network, cl_reconnect = 0\<rparr>"

definition fresh_ap :: ap_runtime where
  "fresh_ap = \<lparr>ar_state = AP_Disabled, ar_ssid = [], ar_channel = 0, ar_network = no_network,
     ar_stations = 0\<rparr>"

text \<open>A default-constructed runtime state; its mode is that of the core's default.\<close>

definition fresh_runtime :: "op_mode \<Rightarrow> runtime" where
  "fresh_runtime mode = \<lparr>rt_mode = mode, rt_client = fresh_client, rt_ap = fresh_ap,
     rt_scan = ScanIdle, rt_revision = 0\<rparr>"

type_synonym mac = bytes

record wifi =
  wf_config :: retained_config
  wf_state :: runtime
  wf_profile :: client_profile
  wf_has_profile :: bool
  wf_manual :: bool
  wf_scan_running :: bool
  wf_attempt_started :: u32
  wf_next_reconnect :: u32
  wf_attempts :: u32
  wf_stations :: "mac list"

datatype wifi_call =
    SetMode wifi_mode
  | SetHostname string
  | ConfigDhcp
  | ConfigStatic ip_address ip_address ip_address ip_address ip_address
  | SoftApConfig ip_address ip_address ip_address
  | SoftAp string "string option" u8 bool u8
  | DhcpsStop
  | DhcpsRange ipv4 ipv4
  | DhcpsLease u32
  | DhcpsStart
  | SetMaxTxPower int
  | SetPowerSave bool
  | WiFiBegin string "string option"
  | WiFiDisconnect
  | SoftApDisconnect
  | ScanNetworks
  | ScanDelete

record scan_entry =
  se_ssid :: string
  se_rssi :: int
  se_channel :: int
  se_auth :: auth_mode
  se_bssid :: "mac option"

record scan_result =
  sr_ssid :: string
  sr_rssi :: int
  sr_channel :: u8
  sr_security :: security
  sr_hidden :: bool
  sr_bssid :: mac

text \<open>
  Which names are preprocessor macros in the build, and the code of the "already started" error
  where it is one.
\<close>

record wifi_build =
  wb_requested_ip :: bool
  wb_lease_time :: bool
  wb_already_started :: "esp_err option"
  wb_wpa3 :: bool
  wb_wpa2_wpa3 :: bool

text \<open>
  The answers of the drivers to the calls of one operation. The clock and the connection status
  are read at most twice; the second reading has its own field.
\<close>

record wifi_env =
  we_mode :: bool
  we_config :: bool
  we_soft_config :: bool
  we_soft_ap :: bool
  we_netif :: bool
  we_requested_ip :: esp_err
  we_lease_time :: esp_err
  we_dhcps_start :: esp_err
  we_disconnect :: bool
  we_soft_disconnect :: bool
  we_scan_start :: int
  we_scan_complete :: int
  we_scan_entry :: "nat \<Rightarrow> scan_entry"
  we_now :: u64
  we_now_later :: u64
  we_status :: wl_status
  we_status_later :: wl_status
  we_ssid :: string
  we_rssi :: int
  we_channel :: int
  we_local_ip :: ip_address
  we_gateway :: ip_address
  we_subnet :: ip_address
  we_dns1 :: ip_address
  we_dns2 :: ip_address
  we_soft_ip :: ip_address
  we_station_num :: u8
  we_sta_list :: "mac list option"

section \<open>Configuration\<close>

definition persistent_ap :: "op_mode \<Rightarrow> bool" where
  "persistent_ap m \<longleftrightarrow> m = OpAccessPoint \<or> m = OpAccessPointClient"

definition can_host_ap :: "op_mode \<Rightarrow> bool" where
  "can_host_ap m \<longleftrightarrow> persistent_ap m \<or> m = OpAPUntilClient"

definition uses_client :: "op_mode \<Rightarrow> bool" where
  "uses_client m \<longleftrightarrow> m = OpClient \<or> m = OpAccessPointClient \<or> m = OpAPUntilClient"

definition validate_credential :: "string \<Rightarrow> bool" where
  "validate_credential pw \<longleftrightarrow> pw = [] \<or> (8 \<le> length pw \<and> length pw \<le> 63)"

definition validate_profile :: "client_profile \<Rightarrow> bool" where
  "validate_profile p \<longleftrightarrow> length (pf_ssid p) \<le> 32 \<and> validate_credential (pf_password p)"

definition validate_config :: "wifi_config \<Rightarrow> bool" where
  "validate_config c =
     (if length (wc_hostname c) > 32 then False
      else if length (ap_ssid (wc_ap c)) > 32 \<or> length (cc_ssid (wc_client c)) > 32 then False
      else if \<not> validate_credential (ap_password (wc_ap c)) \<or>
              \<not> validate_credential (cc_password (wc_client c)) then False
      else if \<not> list_all validate_profile (wc_networks c) then False
      else if ap_channel (wc_ap c) < 1 \<or> ap_channel (wc_ap c) > 14 then False
      else if ap_max_clients (wc_ap c) = 0 then False
      else if rp_multiplier (wc_reconnect c) < 1 then False
      else if rp_maximum_delay (wc_reconnect c) < rp_initial_delay (wc_reconnect c) then False
      else True)"

definition retain_configuration :: "wifi_config \<Rightarrow> retained_config" where
  "retain_configuration c =
     \<lparr>cf_mode = wc_mode c, cf_client = wc_client c, cf_ap = wc_ap c, cf_reconnect = wc_reconnect c,
      cf_tx_power = wc_tx_power c, cf_power_save = wc_power_save c\<rparr>"

definition now_milliseconds :: "u64 \<Rightarrow> u32" where
  "now_milliseconds ns = ucast (ns div 1000000)"

definition time_reached :: "u32 \<Rightarrow> u32 \<Rightarrow> bool" where
  "time_reached now target \<longleftrightarrow> 0 \<le> sint (now - target)"

definition bump :: "wifi \<Rightarrow> wifi" where
  "bump w = w\<lparr>wf_state := (wf_state w)\<lparr>rt_revision := rt_revision (wf_state w) + 1\<rparr>\<rparr>"

definition set_client_state :: "client_state \<Rightarrow> wifi \<Rightarrow> wifi" where
  "set_client_state s w = w\<lparr>wf_state := (wf_state w)\<lparr>rt_client :=
     (rt_client (wf_state w))\<lparr>cl_state := s\<rparr>\<rparr>\<rparr>"

definition set_reconnect_attempt :: "u32 \<Rightarrow> wifi \<Rightarrow> wifi" where
  "set_reconnect_attempt n w = w\<lparr>wf_state := (wf_state w)\<lparr>rt_client :=
     (rt_client (wf_state w))\<lparr>cl_reconnect := n\<rparr>\<rparr>\<rparr>"

definition set_ap_state :: "ap_state \<Rightarrow> wifi \<Rightarrow> wifi" where
  "set_ap_state s w = w\<lparr>wf_state := (wf_state w)\<lparr>rt_ap := (rt_ap (wf_state w))\<lparr>ar_state := s\<rparr>\<rparr>\<rparr>"

definition set_scan_state :: "scan_state \<Rightarrow> wifi \<Rightarrow> wifi" where
  "set_scan_state s w = w\<lparr>wf_state := (wf_state w)\<lparr>rt_scan := s\<rparr>\<rparr>"

lemmas wifi_field_defs = bump_def set_client_state_def set_reconnect_attempt_def set_ap_state_def
  set_scan_state_def

section \<open>Driver configuration\<close>

definition configure_client_address :: "wifi_env \<Rightarrow> address_mode \<Rightarrow> network_address \<Rightarrow> bool \<times> wifi_call list" where
  "configure_client_address env mode network =
     (we_config env,
      [if mode = DHCP then ConfigDhcp
       else ConfigStatic (to_ip (na_address network)) (to_ip (na_gateway network))
         (to_ip (na_subnet network)) (to_ip (na_dns1 network)) (to_ip (na_dns2 network))])"

definition configure_client_address_legacy :: "wifi_env \<Rightarrow> wifi \<Rightarrow> bool \<times> wifi_call list" where
  "configure_client_address_legacy env w =
     configure_client_address env (cc_addressing (cf_client (wf_config w))) (cc_static (cf_client (wf_config w)))"

definition configure_dhcp_server :: "wifi_build \<Rightarrow> wifi_env \<Rightarrow> dhcp_config \<Rightarrow> bool \<times> wifi_call list" where
  "configure_dhcp_server build env c =
     (if \<not> we_netif env then (False, [])
      else if \<not> dh_enabled c then (True, [DhcpsStop])
      else
        let range = (if wb_requested_ip build then [DhcpsRange (dh_lease_start c) (dh_lease_end c)] else []);
            minutes = max 1 (dh_lease_seconds c div 60);
            lease = (if wb_lease_time build then [DhcpsLease minutes] else [])
        in if wb_requested_ip build \<and> we_requested_ip env \<noteq> ESP_OK then (False, DhcpsStop # range)
        else if wb_lease_time build \<and> we_lease_time env \<noteq> ESP_OK then (False, DhcpsStop # range @ lease)
        else (we_dhcps_start env = ESP_OK \<or> wb_already_started build = Some (we_dhcps_start env),
          DhcpsStop # range @ lease @ [DhcpsStart]))"

definition configure_access_point :: "wifi_build \<Rightarrow> wifi_env \<Rightarrow> wifi \<Rightarrow> bool \<times> wifi_call list" where
  "configure_access_point build env w =
     (let ap = cf_ap (wf_config w)
      in if \<not> ap_enabled ap \<or> ap_ssid ap = [] then (False, [])
      else
        let c1 = SoftApConfig (to_ip (na_address (ap_network ap))) (to_ip (na_gateway (ap_network ap)))
              (to_ip (na_subnet (ap_network ap)));
            password = (if ap_password ap = [] then None else Some (ap_password ap));
            c2 = SoftAp (ap_ssid ap) password (ap_channel ap) (ap_hidden ap) (ap_max_clients ap)
        in if \<not> we_soft_config env then (False, [c1])
        else if \<not> we_soft_ap env then (False, [c1, c2])
        else let (ok, calls) = configure_dhcp_server build env (ap_dhcp ap) in (ok, c1 # c2 # calls))"

text \<open>The transmit power is an 8-bit signed number in quarter dBm.\<close>

definition clamp_tx_power :: "int \<Rightarrow> int" where
  "clamp_tx_power dbm = (let a = (if dbm < 2 then 2 else dbm) in if a > 20 then 20 else a)"

definition quarter_dbm :: "int \<Rightarrow> int" where
  "quarter_dbm dbm = signed_take_bit 7 (clamp_tx_power dbm * 4)"

definition apply_radio_settings :: "wifi \<Rightarrow> wifi_call list" where
  "apply_radio_settings w =
     [SetMaxTxPower (quarter_dbm (cf_tx_power (wf_config w))), SetPowerSave (cf_power_save (wf_config w))]"

text \<open>src/ESPressio_WiFiRadio.hpp, \<open>ApplyWiFiRadioPolicy\<close>\<close>

definition apply_radio_policy :: "esp_err \<Rightarrow> esp_err \<Rightarrow> int \<Rightarrow> bool \<Rightarrow> bool \<times> wifi_call list" where
  "apply_radio_policy set_power set_ps tx_power power_save =
     (if set_power \<noteq> ESP_OK then (False, [SetMaxTxPower (quarter_dbm tx_power)])
      else (set_ps = ESP_OK, [SetMaxTxPower (quarter_dbm tx_power), SetPowerSave power_save]))"

section \<open>The client connection\<close>

definition active_ssid :: "wifi \<Rightarrow> string" where
  "active_ssid w = (if wf_has_profile w then pf_ssid (wf_profile w) else cc_ssid (cf_client (wf_config w)))"

definition active_password :: "wifi \<Rightarrow> string" where
  "active_password w =
     (if wf_has_profile w then pf_password (wf_profile w) else cc_password (cf_client (wf_config w)))"

definition begin_client :: "u64 \<Rightarrow> bool \<Rightarrow> wifi \<Rightarrow> wifi \<times> wifi_call list" where
  "begin_client now reconnect w =
     (if active_ssid w = [] then (bump (set_client_state CS_Failed w), [])
      else
        let w1 = set_client_state (if reconnect then CS_Reconnecting else CS_Connecting) w;
            w2 = set_reconnect_attempt (wf_attempts w) w1;
            w3 = bump (w2\<lparr>wf_attempt_started := now_milliseconds now\<rparr>)
        in (w3, [WiFiBegin (active_ssid w)
             (if active_password w = [] then None else Some (active_password w))]))"

definition backoff_delay :: "reconnect_policy \<Rightarrow> u32 \<Rightarrow> u32" where
  "backoff_delay p attempts =
     (let initial = of_nat (unat (rp_initial_delay p));
          delay = (if attempts > 1 then initial * rp_multiplier p ^ unat (attempts - 1) else initial)
      in word_of_int \<lfloor>min delay (of_nat (unat (rp_maximum_delay p)))\<rfloor>)"

definition schedule_reconnect :: "u64 \<Rightarrow> wifi \<Rightarrow> wifi" where
  "schedule_reconnect now w =
     (let p = cf_reconnect (wf_config w)
      in if wf_manual w \<or> \<not> rp_enabled p then bump (set_client_state CS_Disconnected w)
      else if rp_maximum_attempts p \<noteq> 0 \<and> wf_attempts w \<ge> rp_maximum_attempts p
      then bump (set_client_state CS_Failed w)
      else
        let attempts = wf_attempts w + 1;
            w1 = w\<lparr>wf_attempts := attempts,
              wf_next_reconnect := now_milliseconds now + backoff_delay p attempts\<rparr>
        in bump (set_reconnect_attempt attempts (set_client_state CS_Reconnecting w1)))"

definition poll_reconnect :: "wifi_env \<Rightarrow> wifi \<Rightarrow> wifi \<times> wifi_call list" where
  "poll_reconnect env w =
     (let client = cf_client (wf_config w); p = cf_reconnect (wf_config w);
          state = cl_state (rt_client (wf_state w))
      in if \<not> uses_client (cf_mode (wf_config w)) \<or> \<not> cc_enabled client \<or> wf_manual w \<or> active_ssid w = []
      then (w, [])
      else if we_status env = WL_CONNECTED then (w\<lparr>wf_attempts := 0, wf_next_reconnect := 0\<rparr>, [])
      else if state = CS_Connected then (schedule_reconnect (we_now env) w, [])
      else if state = CS_Connecting then
        let elapsed = now_milliseconds (we_now env) - wf_attempt_started w
        in if we_status env = WL_CONNECT_FAILED \<or> we_status env = WL_NO_SSID_AVAIL \<or>
              elapsed \<ge> rp_timeout p
           then (schedule_reconnect (we_now_later env) w, []) else (w, [])
      else if state = CS_Reconnecting \<and> wf_next_reconnect w \<noteq> 0 \<and>
          time_reached (now_milliseconds (we_now env)) (wf_next_reconnect w)
      then begin_client (we_now_later env) True (w\<lparr>wf_next_reconnect := 0\<rparr>)
      else (w, []))"

section \<open>The runtime state\<close>

definition state_changed :: "runtime \<Rightarrow> runtime \<Rightarrow> bool" where
  "state_changed a b \<longleftrightarrow>
     rt_mode a \<noteq> rt_mode b \<or>
     cl_state (rt_client a) \<noteq> cl_state (rt_client b) \<or>
     cl_ssid (rt_client a) \<noteq> cl_ssid (rt_client b) \<or>
     cl_rssi (rt_client a) \<noteq> cl_rssi (rt_client b) \<or>
     cl_channel (rt_client a) \<noteq> cl_channel (rt_client b) \<or>
     na_address (cl_network (rt_client a)) \<noteq> na_address (cl_network (rt_client b)) \<or>
     cl_reconnect (rt_client a) \<noteq> cl_reconnect (rt_client b) \<or>
     ar_state (rt_ap a) \<noteq> ar_state (rt_ap b) \<or>
     ar_ssid (rt_ap a) \<noteq> ar_ssid (rt_ap b) \<or>
     ar_channel (rt_ap a) \<noteq> ar_channel (rt_ap b) \<or>
     ar_stations (rt_ap a) \<noteq> ar_stations (rt_ap b) \<or>
     na_address (ar_network (rt_ap a)) \<noteq> na_address (ar_network (rt_ap b)) \<or>
     rt_scan a \<noteq> rt_scan b"

definition observed_client :: "wifi_env \<Rightarrow> wifi \<Rightarrow> client_runtime" where
  "observed_client env w =
     (if \<not> uses_client (cf_mode (wf_config w)) then fresh_client
      else
        let c = rt_client (wf_state w); connected = (we_status_later env = WL_CONNECTED)
        in \<lparr>cl_state = (if connected then CS_Connected
              else if wf_manual w then CS_Disconnected else cl_state c),
            cl_ssid = (if connected then we_ssid env else active_ssid w),
            cl_rssi = (if connected then we_rssi env else 0),
            cl_channel = (if connected then word_of_int (we_channel env) else 0),
            cl_network = \<lparr>na_address = from_ip (we_local_ip env), na_gateway = from_ip (we_gateway env),
              na_subnet = from_ip (we_subnet env), na_dns1 = from_ip (we_dns1 env),
              na_dns2 = from_ip (we_dns2 env)\<rparr>,
            cl_reconnect = wf_attempts w\<rparr>)"

definition observed_ap :: "wifi_env \<Rightarrow> wifi \<Rightarrow> ap_runtime" where
  "observed_ap env w =
     (let cfg = cf_ap (wf_config w)
      in if \<not> can_host_ap (cf_mode (wf_config w)) then fresh_ap
      else if we_soft_ip env = IPAddress 0 0 0 0 then fresh_ap
      else \<lparr>ar_state = AP_Active, ar_ssid = ap_ssid cfg, ar_channel = ap_channel cfg,
        ar_network = (ap_network cfg)\<lparr>na_address := from_ip (we_soft_ip env)\<rparr>,
        ar_stations = ucast (we_station_num env)\<rparr>)"

definition refresh_state :: "wifi_env \<Rightarrow> wifi \<Rightarrow> wifi" where
  "refresh_state env w =
     (let after = (wf_state w)\<lparr>rt_mode := cf_mode (wf_config w), rt_client := observed_client env w,
          rt_ap := observed_ap env w\<rparr>
      in if state_changed after (wf_state w)
         then w\<lparr>wf_state := after\<lparr>rt_revision := rt_revision (wf_state w) + 1\<rparr>\<rparr>
         else w)"

section \<open>Scanning\<close>

definition convert_security :: "wifi_build \<Rightarrow> auth_mode \<Rightarrow> security" where
  "convert_security build mode = (case mode of
       AuthOpen \<Rightarrow> SecOpen
     | AuthWep \<Rightarrow> SecWEP
     | AuthWpa \<Rightarrow> SecWPA
     | AuthWpa2 \<Rightarrow> SecWPA2
     | AuthWpaWpa2 \<Rightarrow> SecWPA_WPA2
     | AuthWpa3 \<Rightarrow> if wb_wpa3 build then SecWPA3 else SecUnknown
     | AuthWpa2Wpa3 \<Rightarrow> if wb_wpa2_wpa3 build then SecWPA2_WPA3 else SecUnknown
     | AuthOther \<Rightarrow> SecUnknown)"

definition scan_result_of :: "wifi_build \<Rightarrow> scan_entry \<Rightarrow> scan_result" where
  "scan_result_of build e =
     \<lparr>sr_ssid = se_ssid e, sr_rssi = se_rssi e, sr_channel = word_of_int (se_channel e),
      sr_security = convert_security build (se_auth e), sr_hidden = (se_ssid e = []),
      sr_bssid = (case se_bssid e of None \<Rightarrow> replicate 6 0 | Some b \<Rightarrow> take 6 b)\<rparr>"

text \<open>\<open>WIFI_SCAN_RUNNING\<close> is \<open>- 1\<close> and \<open>WIFI_SCAN_FAILED\<close> is \<open>- 2\<close> in the Arduino core.\<close>

definition poll_scan ::
    "wifi_build \<Rightarrow> wifi_env \<Rightarrow> scan_result list option \<Rightarrow> wifi
      \<Rightarrow> scan_result list option \<times> wifi \<times> wifi_call list" where
  "poll_scan build env completed w =
     (if \<not> wf_scan_running w then (completed, w, [])
      else if we_scan_complete env = - 1 then (completed, w, [])
      else if we_scan_complete env < 0
      then (completed, bump (set_scan_state ScanFailed (w\<lparr>wf_scan_running := False\<rparr>)), [])
      else (map_option (\<lambda>_. map (\<lambda>i. scan_result_of build (we_scan_entry env i))
               [0..<nat (we_scan_complete env)]) completed,
            bump (set_scan_state ScanComplete (w\<lparr>wf_scan_running := False\<rparr>)), [ScanDelete]))"

section \<open>Events\<close>

datatype wifi_event =
    IPAddressAcquired network_address
  | IPAddressLost
  | StationConnected mac
  | StationDisconnected mac

definition build_network_events :: "runtime \<Rightarrow> runtime \<Rightarrow> wifi_event list" where
  "build_network_events before after =
     (let had = \<not> is_zero_address (na_address (cl_network (rt_client before)));
          has = \<not> is_zero_address (na_address (cl_network (rt_client after)))
      in if \<not> had \<and> has then [IPAddressAcquired (cl_network (rt_client after))]
         else if had \<and> \<not> has then [IPAddressLost] else [])"

definition build_station_events :: "wifi_env \<Rightarrow> wifi \<Rightarrow> wifi_event list \<times> wifi" where
  "build_station_events env w =
     (if \<not> can_host_ap (cf_mode (wf_config w)) \<or> we_soft_ip env = IPAddress 0 0 0 0
      then ([], w\<lparr>wf_stations := []\<rparr>)
      else (case we_sta_list env of
          None \<Rightarrow> ([], w)
        | Some stations \<Rightarrow>
            (map StationConnected (filter (\<lambda>m. m \<notin> set (wf_stations w)) stations)
             @ map StationDisconnected (filter (\<lambda>m. m \<notin> set stations) (wf_stations w)),
             w\<lparr>wf_stations := stations\<rparr>)))"

text \<open>\<open>events\<close> says whether the caller passed an event list.\<close>

definition wifi_poll ::
    "wifi_build \<Rightarrow> wifi_env \<Rightarrow> scan_result list option \<Rightarrow> bool \<Rightarrow> wifi
      \<Rightarrow> runtime \<times> scan_result list option \<times> wifi_event list \<times> wifi \<times> wifi_call list" where
  "wifi_poll build env completed events w =
     (let before = wf_state w;
          (w1, calls1) = poll_reconnect env w;
          w2 = refresh_state env w1;
          (completed', w3, calls2) = poll_scan build env completed w2;
          (evs, w4) = (if events
            then (let (station, w') = build_station_events env w3
                  in (build_network_events before (wf_state w3) @ station, w'))
            else ([], w3))
      in (wf_state w4, completed', evs, w4, calls1 @ calls2))"

section \<open>Operations\<close>

definition driver_mode :: "op_mode \<Rightarrow> wifi_mode" where
  "driver_mode m = (case m of
       OpDisabled \<Rightarrow> ModeNull
     | OpClient \<Rightarrow> ModeSta
     | OpAccessPoint \<Rightarrow> ModeAp
     | OpAccessPointClient \<Rightarrow> ModeApSta
     | OpAPUntilClient \<Rightarrow> ModeSta
     | OpOff \<Rightarrow> ModeNull)"

definition automatic_profiles :: "wifi_config \<Rightarrow> bool" where
  "automatic_profiles c \<longleftrightarrow>
     uses_client (wc_mode c) \<and> cc_enabled (wc_client c) \<and> wc_automatic c \<and> wc_networks c \<noteq> []"

text \<open>The part of \<open>Apply\<close> after the driver is in its mode.\<close>

definition apply_active :: "wifi_build \<Rightarrow> wifi_env \<Rightarrow> wifi_config \<Rightarrow> wifi \<Rightarrow> wifi_status \<times> wifi \<times> wifi_call list"
  where
  "apply_active build env c w =
     (let host = (if wc_hostname c \<noteq> [] then [SetHostname (wc_hostname c)] else []);
          (address_ok, address_calls) = (if uses_client (wc_mode c) \<and> \<not> automatic_profiles c
            then configure_client_address_legacy env w else (True, []))
      in if \<not> address_ok then (WS_PlatformError, w, host @ address_calls)
      else
        let (ap_ok, ap_calls) = (if persistent_ap (wc_mode c)
              then configure_access_point build env w else (True, []))
        in if \<not> ap_ok then (WS_PlatformError, w, host @ address_calls @ ap_calls)
        else
          let (w1, begin_calls) =
            (if uses_client (wc_mode c) \<and> cc_enabled (wc_client c) \<and> \<not> automatic_profiles c \<and>
                cc_ssid (wc_client c) \<noteq> []
             then begin_client (we_now env) False w else (w, []))
          in (WS_Success, refresh_state env w1,
              host @ address_calls @ ap_calls @ apply_radio_settings w @ begin_calls))"

text \<open>\<open>default_mode\<close> is the mode of a default-constructed runtime state; it is overwritten.\<close>

definition wifi_apply :: "wifi_build \<Rightarrow> wifi_env \<Rightarrow> wifi_config \<Rightarrow> wifi \<Rightarrow> wifi_status \<times> wifi \<times> wifi_call list"
  where
  "wifi_apply build env c w =
     (if \<not> validate_config c then (WS_InvalidConfiguration, w, [])
      else
        let w1 = w\<lparr>wf_config := retain_configuration c, wf_manual := False, wf_attempts := 0,
              wf_next_reconnect := 0, wf_has_profile := False, wf_scan_running := False\<rparr>;
            set_mode = SetMode (driver_mode (wc_mode c))
        in if \<not> we_mode env then (WS_PlatformError, w1, [set_mode])
        else if wc_mode c = OpOff \<or> wc_mode c = OpDisabled
        then (WS_Success, bump (w1\<lparr>wf_state := fresh_runtime (wc_mode c), wf_stations := []\<rparr>), [set_mode])
        else
          let (status, w2, calls) = apply_active build env c w1 in (status, w2, set_mode # calls))"

definition wifi_disable :: "wifi_env \<Rightarrow> wifi \<Rightarrow> wifi_status \<times> wifi \<times> wifi_call list" where
  "wifi_disable env w =
     (let w1 = w\<lparr>wf_manual := True, wf_scan_running := False\<rparr>
      in if \<not> we_mode env then (WS_PlatformError, w1, [SetMode ModeNull])
      else (WS_Success,
        bump (w1\<lparr>wf_config := (wf_config w1)\<lparr>cf_mode := OpOff\<rparr>, wf_state := fresh_runtime OpOff,
          wf_stations := []\<rparr>), [SetMode ModeNull]))"

definition connect_client :: "wifi_env \<Rightarrow> wifi \<Rightarrow> wifi_status \<times> wifi \<times> wifi_call list" where
  "connect_client env w =
     (let client = cf_client (wf_config w)
      in if \<not> uses_client (cf_mode (wf_config w)) \<or> \<not> cc_enabled client \<or> cc_ssid client = []
      then (WS_InvalidConfiguration, w, [])
      else
        let w1 = w\<lparr>wf_has_profile := False\<rparr>;
            (ok, calls) = configure_client_address_legacy env w1
        in if \<not> ok then (WS_PlatformError, w1, calls)
        else
          let (w2, begin_calls) = begin_client (we_now env) False (w1\<lparr>wf_manual := False, wf_attempts := 0\<rparr>)
          in (WS_Success, w2, calls @ begin_calls))"

definition connect_profile :: "wifi_env \<Rightarrow> client_profile \<Rightarrow> wifi \<Rightarrow> wifi_status \<times> wifi \<times> wifi_call list" where
  "connect_profile env p w =
     (if \<not> uses_client (cf_mode (wf_config w)) \<or> \<not> cc_enabled (cf_client (wf_config w)) \<or>
         \<not> pf_enabled p \<or> pf_ssid p = [] then (WS_InvalidConfiguration, w, [])
      else if \<not> validate_profile p then (WS_InvalidConfiguration, w, [])
      else
        let w1 = w\<lparr>wf_profile := p, wf_has_profile := True\<rparr>;
            (ok, calls) = configure_client_address env (pf_addressing p) (pf_static p)
        in if \<not> ok then (WS_PlatformError, w1, calls)
        else
          let (w2, begin_calls) = begin_client (we_now env) False (w1\<lparr>wf_manual := False, wf_attempts := 0\<rparr>)
          in (WS_Success, w2, calls @ begin_calls))"

definition disconnect_client :: "wifi_env \<Rightarrow> wifi \<Rightarrow> wifi_status \<times> wifi \<times> wifi_call list" where
  "disconnect_client env w =
     (if \<not> uses_client (cf_mode (wf_config w)) then (WS_NotSupported, w, [])
      else
        let w1 = bump (set_client_state CS_Disconnecting (w\<lparr>wf_manual := True\<rparr>));
            w2 = bump (set_client_state CS_Disconnected w1)
        in (if we_disconnect env then WS_Success else WS_PlatformError, w2, [WiFiDisconnect]))"

definition start_access_point :: "wifi_build \<Rightarrow> wifi_env \<Rightarrow> wifi \<Rightarrow> wifi_status \<times> wifi \<times> wifi_call list" where
  "start_access_point build env w =
     (let mode = cf_mode (wf_config w); ap = cf_ap (wf_config w)
      in if \<not> can_host_ap mode \<or> \<not> ap_enabled ap \<or> ap_ssid ap = [] then (WS_NotSupported, w, [])
      else
        let mode_calls = (if mode = OpAPUntilClient then [SetMode ModeApSta] else [])
        in if mode = OpAPUntilClient \<and> \<not> we_mode env then (WS_PlatformError, w, mode_calls)
        else
          let w1 = bump (set_ap_state AP_Starting w);
              (ok, calls) = configure_access_point build env w1
          in if \<not> ok then (WS_PlatformError, bump (set_ap_state AP_Failed w1), mode_calls @ calls)
             else (WS_Success, bump (set_ap_state AP_Active w1), mode_calls @ calls))"

definition stop_access_point :: "wifi_env \<Rightarrow> wifi \<Rightarrow> wifi_status \<times> wifi \<times> wifi_call list" where
  "stop_access_point env w =
     (let mode = cf_mode (wf_config w)
      in if \<not> can_host_ap mode then (WS_NotSupported, w, [])
      else if \<not> we_soft_disconnect env then (WS_PlatformError, w, [SoftApDisconnect])
      else
        let mode_calls = (if mode = OpAPUntilClient then [SetMode ModeSta] else [])
        in if mode = OpAPUntilClient \<and> \<not> we_mode env
           then (WS_PlatformError, w, SoftApDisconnect # mode_calls)
           else
             let w1 = set_ap_state AP_Disabled w;
                 w2 = w1\<lparr>wf_state := (wf_state w1)\<lparr>rt_ap := (rt_ap (wf_state w1))\<lparr>ar_network := no_network\<rparr>\<rparr>,
                   wf_stations := []\<rparr>
             in (WS_Success, bump w2, SoftApDisconnect # mode_calls))"

definition start_scan :: "wifi_env \<Rightarrow> wifi \<Rightarrow> wifi_status \<times> wifi \<times> wifi_call list" where
  "start_scan env w =
     (if cf_mode (wf_config w) = OpOff \<or> cf_mode (wf_config w) = OpDisabled then (WS_NotSupported, w, [])
      else if wf_scan_running w then (WS_Busy, w, [])
      else if we_scan_start env = - 2
      then (WS_PlatformError, bump (set_scan_state ScanFailed w), [ScanNetworks])
      else (WS_Success, bump (set_scan_state Scanning (w\<lparr>wf_scan_running := True\<rparr>)), [ScanNetworks]))"

section \<open>The radio state\<close>

text \<open>The answers to the calls of \<open>GetRadioState\<close>: \<open>None\<close> where the driver fails.\<close>

record radio_query =
  rq_mode :: "wifi_mode option"
  rq_status :: wl_status
  rq_channel :: "u8 option"
  rq_station_mac :: "mac option"
  rq_ap_mac :: "mac option"

datatype radio_mode = RadioOff | RadioStation | RadioAccessPoint | RadioAccessPointStation

record radio_state =
  rs_mode :: radio_mode
  rs_station_active :: bool
  rs_ap_active :: bool
  rs_station_connected :: bool
  rs_scanning :: bool
  rs_channel :: u8
  rs_station_mac :: mac
  rs_ap_mac :: mac

definition fresh_radio_state :: radio_state where
  "fresh_radio_state = \<lparr>rs_mode = RadioOff, rs_station_active = False, rs_ap_active = False,
     rs_station_connected = False, rs_scanning = False, rs_channel = 0,
     rs_station_mac = replicate 6 0, rs_ap_mac = replicate 6 0\<rparr>"

definition get_radio_state :: "radio_query \<Rightarrow> wifi \<Rightarrow> radio_state" where
  "get_radio_state q w = (case rq_mode q of
       None \<Rightarrow> fresh_radio_state
     | Some mode \<Rightarrow>
         let s1 = (case mode of
               ModeSta \<Rightarrow> fresh_radio_state\<lparr>rs_mode := RadioStation, rs_station_active := True\<rparr>
             | ModeAp \<Rightarrow> fresh_radio_state\<lparr>rs_mode := RadioAccessPoint, rs_ap_active := True\<rparr>
             | ModeApSta \<Rightarrow> fresh_radio_state\<lparr>rs_mode := RadioAccessPointStation,
                 rs_station_active := True, rs_ap_active := True\<rparr>
             | ModeNull \<Rightarrow> fresh_radio_state\<lparr>rs_mode := RadioOff\<rparr>);
             s2 = s1\<lparr>rs_station_connected := rs_station_active s1 \<and> rq_status q = WL_CONNECTED,
               rs_scanning := wf_scan_running w\<rparr>;
             s3 = (case rq_channel q of
                 Some c \<Rightarrow> if mode \<noteq> ModeNull then s2\<lparr>rs_channel := c\<rparr> else s2
               | None \<Rightarrow> s2);
             s4 = (case rq_station_mac q of
                 Some m \<Rightarrow> if rs_station_active s3 then s3\<lparr>rs_station_mac := m\<rparr> else s3
               | None \<Rightarrow> s3)
         in (case rq_ap_mac q of
             Some m \<Rightarrow> if rs_ap_active s4 then s4\<lparr>rs_ap_mac := m\<rparr> else s4
           | None \<Rightarrow> s4))"

section \<open>Timers\<close>

lemma sign_bit_u32: "\<not> bit (uint (x :: u32)) 31 \<longleftrightarrow> unat x < 2 ^ 31"
proof -
  have less: "unat x < 2 ^ 32" using unsigned_less [of x, where ?'a = nat] by simp
  have int: "uint x = int (unat x)" by simp
  have "bit (uint x) 31 \<longleftrightarrow> odd (unat x div 2 ^ 31)"
    unfolding int bit_of_nat_iff_bit by (rule bit_iff_odd)
  moreover have "unat x div 2 ^ 31 = (if unat x < 2 ^ 31 then 0 else 1)"
  proof (cases "unat x < 2 ^ 31")
    case False
    then have "unat x div 2 ^ 31 = Suc ((unat x - 2 ^ 31) div 2 ^ 31)"
      by (simp add: le_div_geq not_less)
    then show ?thesis using less False by simp
  qed simp
  ultimately show ?thesis by simp
qed

lemma time_reached_iff:
  "time_reached now target \<longleftrightarrow> unat (now - target) < 2 ^ 31"
  using sign_bit_u32 [of "now - target"] by (simp add: time_reached_def sint_uint)

text \<open>A timer of \<open>delay\<close> started at \<open>t\<close> is due from then on for half the range of the clock.\<close>

lemma timer_due_iff:
  fixes t delay elapsed :: u32
  assumes "unat delay < 2 ^ 31" "unat elapsed < 2 ^ 31"
  shows "time_reached (t + elapsed) (t + delay) \<longleftrightarrow> unat delay \<le> unat elapsed"
proof -
  have "t + elapsed - (t + delay) = elapsed - delay" by simp
  then show ?thesis using assms by (auto simp: time_reached_iff unat_sub_if')
qed

section \<open>The reconnect machine\<close>

text \<open>When \<open>Poll\<close> looks after the client at all.\<close>

definition pollable :: "wifi \<Rightarrow> bool" where
  "pollable w \<longleftrightarrow> uses_client (cf_mode (wf_config w)) \<and> cc_enabled (cf_client (wf_config w)) \<and>
     active_ssid w \<noteq> []"

abbreviation client_of :: "wifi \<Rightarrow> client_state" where
  "client_of w \<equiv> cl_state (rt_client (wf_state w))"

lemma wifi_fields [simp]:
  "wf_config (bump w) = wf_config w" "wf_manual (bump w) = wf_manual w"
  "wf_attempts (bump w) = wf_attempts w" "wf_next_reconnect (bump w) = wf_next_reconnect w"
  "client_of (bump w) = client_of w" "active_ssid (bump w) = active_ssid w"
  "wf_config (set_client_state s w) = wf_config w" "wf_manual (set_client_state s w) = wf_manual w"
  "wf_attempts (set_client_state s w) = wf_attempts w"
  "wf_next_reconnect (set_client_state s w) = wf_next_reconnect w"
  "client_of (set_client_state s w) = s" "active_ssid (set_client_state s w) = active_ssid w"
  "wf_config (set_reconnect_attempt n w) = wf_config w"
  "wf_manual (set_reconnect_attempt n w) = wf_manual w"
  "wf_attempts (set_reconnect_attempt n w) = wf_attempts w"
  "wf_next_reconnect (set_reconnect_attempt n w) = wf_next_reconnect w"
  "client_of (set_reconnect_attempt n w) = client_of w"
  "active_ssid (set_reconnect_attempt n w) = active_ssid w"
  "wf_config (set_ap_state a w) = wf_config w" "wf_manual (set_ap_state a w) = wf_manual w"
  "wf_attempts (set_ap_state a w) = wf_attempts w" "client_of (set_ap_state a w) = client_of w"
  "active_ssid (set_ap_state a w) = active_ssid w"
  "wf_next_reconnect (set_ap_state a w) = wf_next_reconnect w"
  "wf_config (set_scan_state c w) = wf_config w" "wf_manual (set_scan_state c w) = wf_manual w"
  "wf_attempts (set_scan_state c w) = wf_attempts w" "client_of (set_scan_state c w) = client_of w"
  "active_ssid (set_scan_state c w) = active_ssid w"
  "wf_next_reconnect (set_scan_state c w) = wf_next_reconnect w"
  by (simp_all add: wifi_field_defs active_ssid_def)

lemma refresh_state_fields [simp]:
  "wf_config (refresh_state env w) = wf_config w" "wf_manual (refresh_state env w) = wf_manual w"
  "wf_attempts (refresh_state env w) = wf_attempts w"
  "wf_next_reconnect (refresh_state env w) = wf_next_reconnect w"
  "active_ssid (refresh_state env w) = active_ssid w"
  by (simp_all add: refresh_state_def active_ssid_def Let_def)

lemma refresh_state_client:
  "client_of (refresh_state env w) = cl_state (observed_client env w)"
  by (auto simp: refresh_state_def Let_def state_changed_def)

lemma poll_scan_fields:
  assumes "poll_scan build env c w = (c', w', calls)"
  shows "wf_config w' = wf_config w" "wf_manual w' = wf_manual w" "wf_attempts w' = wf_attempts w"
    "wf_next_reconnect w' = wf_next_reconnect w" "active_ssid w' = active_ssid w"
    "client_of w' = client_of w"
  using assms by (auto simp: poll_scan_def wifi_field_defs active_ssid_def split: if_splits)

lemma build_station_events_fields:
  assumes "build_station_events env w = (ev, w')"
  shows "wf_config w' = wf_config w" "wf_manual w' = wf_manual w" "wf_attempts w' = wf_attempts w"
    "wf_next_reconnect w' = wf_next_reconnect w" "active_ssid w' = active_ssid w"
    "wf_state w' = wf_state w"
  using assms by (auto simp: build_station_events_def active_ssid_def split: if_splits option.splits)

text \<open>What a poll does to the reconnect machine.\<close>

lemma wifi_poll_machine:
  assumes "wifi_poll build env c events w = (st, c', ev, w', calls)"
  obtains w1 calls1 calls2 where "poll_reconnect env w = (w1, calls1)" "calls = calls1 @ calls2"
    "set calls2 \<subseteq> {ScanDelete}"
    "wf_config w' = wf_config w1" "wf_manual w' = wf_manual w1" "wf_attempts w' = wf_attempts w1"
    "wf_next_reconnect w' = wf_next_reconnect w1" "active_ssid w' = active_ssid w1"
    "client_of w' = cl_state (observed_client env w1)"
proof -
  obtain w1 calls1 where 1: "poll_reconnect env w = (w1, calls1)" by fastforce
  obtain c2 w3 calls2 where 3: "poll_scan build env c (refresh_state env w1) = (c2, w3, calls2)"
    by (meson prod_cases3)
  have s: "set calls2 \<subseteq> {ScanDelete}" using 3 by (auto simp: poll_scan_def split: if_splits)
  obtain ev4 w4 where 4: "build_station_events env w3 = (ev4, w4)" by fastforce
  have calls: "calls = calls1 @ calls2" and w: "w' = w3 \<or> w' = w4"
    using assms by (auto simp: wifi_poll_def 1 3 4 Let_def split: if_splits)
  note f = poll_scan_fields [OF 3] and g = build_station_events_fields [OF 4]
  show ?thesis
  proof (rule that [OF 1 calls s])
    show "wf_config w' = wf_config w1" "wf_manual w' = wf_manual w1" "wf_attempts w' = wf_attempts w1"
      "wf_next_reconnect w' = wf_next_reconnect w1" "active_ssid w' = active_ssid w1"
      using w by (elim disjE; simp add: f g)+
    show "client_of w' = cl_state (observed_client env w1)"
      using w by (elim disjE; simp add: f g refresh_state_client)
  qed
qed

text \<open>
  After its one retry the client waits in \<open>Reconnecting\<close> with no timer: nothing in \<open>Poll\<close> leads
  out of this state but a connection made by somebody else.
\<close>

definition waiting_forever :: "wifi \<Rightarrow> bool" where
  "waiting_forever w \<longleftrightarrow> pollable w \<and> \<not> wf_manual w \<and> client_of w = CS_Reconnecting \<and>
     wf_next_reconnect w = 0"

lemma waiting_forever_poll:
  assumes "waiting_forever w" "we_status env \<noteq> WL_CONNECTED" "we_status_later env \<noteq> WL_CONNECTED"
    and "wifi_poll build env c events w = (st, c', ev, w', calls)"
  shows "waiting_forever w' \<and> set calls \<subseteq> {ScanDelete} \<and> cl_state (rt_client st) = CS_Reconnecting"
proof -
  obtain w1 calls1 calls2 where p: "poll_reconnect env w = (w1, calls1)" "calls = calls1 @ calls2"
    "set calls2 \<subseteq> {ScanDelete}"
    "wf_config w' = wf_config w1" "wf_manual w' = wf_manual w1" "wf_attempts w' = wf_attempts w1"
    "wf_next_reconnect w' = wf_next_reconnect w1" "active_ssid w' = active_ssid w1"
    "client_of w' = cl_state (observed_client env w1)"
    using wifi_poll_machine [OF assms(4)] by blast
  have st: "st = wf_state w'" using assms(4) by (auto simp: wifi_poll_def Let_def split: prod.splits)
  have "w1 = w" "calls1 = []"
    using p(1) assms(1,2) by (auto simp: poll_reconnect_def waiting_forever_def pollable_def Let_def)
  moreover have "cl_state (observed_client env w) = CS_Reconnecting"
    using assms(1,3) by (auto simp: observed_client_def waiting_forever_def pollable_def Let_def)
  ultimately show ?thesis
    using assms(1) p st by (auto simp: waiting_forever_def pollable_def)
qed

lemma active_ssid_updates [simp]:
  "active_ssid (w\<lparr>wf_next_reconnect := a\<rparr>) = active_ssid w"
  "active_ssid (w\<lparr>wf_attempt_started := a\<rparr>) = active_ssid w"
  "active_ssid (w\<lparr>wf_attempts := a\<rparr>) = active_ssid w"
  "active_ssid (w\<lparr>wf_manual := b\<rparr>) = active_ssid w"
  "active_ssid (w\<lparr>wf_scan_running := b\<rparr>) = active_ssid w"
  "active_ssid (w\<lparr>wf_stations := ms\<rparr>) = active_ssid w"
  "active_ssid (w\<lparr>wf_state := st\<rparr>) = active_ssid w"
  by (simp_all add: active_ssid_def)

fun poll_run :: "wifi_build \<Rightarrow> wifi_env list \<Rightarrow> wifi \<Rightarrow> wifi \<times> wifi_call list" where
  "poll_run build [] w = (w, [])"
| "poll_run build (env # envs) w =
     (let (_, _, _, w1, calls) = wifi_poll build env None True w; (w2, later) = poll_run build envs w1
      in (w2, calls @ later))"

definition unconnected :: "wifi_env \<Rightarrow> bool" where
  "unconnected env \<longleftrightarrow> we_status env \<noteq> WL_CONNECTED \<and> we_status_later env \<noteq> WL_CONNECTED"

lemma waiting_forever_run:
  "waiting_forever w \<Longrightarrow> list_all unconnected envs \<Longrightarrow> poll_run build envs w = (w', calls) \<Longrightarrow>
     waiting_forever w' \<and> set calls \<subseteq> {ScanDelete}"
proof (induction envs arbitrary: w calls)
  case (Cons env envs)
  obtain st c ev w1 calls1 where p: "wifi_poll build env None True w = (st, c, ev, w1, calls1)"
    by (meson prod_cases5)
  obtain later where r: "poll_run build envs w1 = (w', later)" "calls = calls1 @ later"
    using Cons.prems(3) p by (auto split: prod.splits)
  have "waiting_forever w1" "set calls1 \<subseteq> {ScanDelete}"
    using waiting_forever_poll [OF Cons.prems(1) _ _ p] Cons.prems(2) by (auto simp: unconnected_def)
  with Cons.IH [OF _ _ r(1)] Cons.prems(2) r(2) show ?case by auto
qed simp

text \<open>A poll that tries again leaves the client waiting.\<close>

lemma retry_waits:
  assumes "wifi_poll build env c events w = (st, c', ev, w', calls)" "unconnected env"
    and "WiFiBegin s pw \<in> set calls"
  shows "waiting_forever w'"
proof -
  obtain w1 calls1 calls2 where p: "poll_reconnect env w = (w1, calls1)" "calls = calls1 @ calls2"
    "set calls2 \<subseteq> {ScanDelete}"
    "wf_config w' = wf_config w1" "wf_manual w' = wf_manual w1" "wf_attempts w' = wf_attempts w1"
    "wf_next_reconnect w' = wf_next_reconnect w1" "active_ssid w' = active_ssid w1"
    "client_of w' = cl_state (observed_client env w1)"
    using wifi_poll_machine [OF assms(1)] by blast
  have retry: "WiFiBegin s pw \<in> set calls1" using assms(3) p(2,3) by auto
  have "pollable w \<and> \<not> wf_manual w \<and> begin_client (we_now_later env) True (w\<lparr>wf_next_reconnect := 0\<rparr>)
      = (w1, calls1)"
    using p(1) retry by (auto simp: poll_reconnect_def pollable_def Let_def split: if_splits)
  then have "pollable w1 \<and> \<not> wf_manual w1 \<and> client_of w1 = CS_Reconnecting \<and> wf_next_reconnect w1 = 0"
    by (auto simp: begin_client_def pollable_def Let_def)
  then show ?thesis
    using p assms(2)
    by (auto simp: waiting_forever_def pollable_def observed_client_def unconnected_def Let_def)
qed

section \<open>All operations\<close>

datatype wifi_op =
    ApplyOp wifi_config
  | DisableOp
  | ConnectOp
  | ConnectProfileOp client_profile
  | DisconnectOp
  | StartAPOp
  | StopAPOp
  | StartScanOp
  | PollOp "scan_result list option" bool

definition run_wifi_op :: "wifi_build \<Rightarrow> wifi_env \<Rightarrow> wifi_op \<Rightarrow> wifi \<Rightarrow> wifi \<times> wifi_call list" where
  "run_wifi_op build env op w = (case op of
       ApplyOp c \<Rightarrow> snd (wifi_apply build env c w)
     | DisableOp \<Rightarrow> snd (wifi_disable env w)
     | ConnectOp \<Rightarrow> snd (connect_client env w)
     | ConnectProfileOp p \<Rightarrow> snd (connect_profile env p w)
     | DisconnectOp \<Rightarrow> snd (disconnect_client env w)
     | StartAPOp \<Rightarrow> snd (start_access_point build env w)
     | StopAPOp \<Rightarrow> snd (stop_access_point env w)
     | StartScanOp \<Rightarrow> snd (start_scan env w)
     | PollOp c events \<Rightarrow> snd (snd (snd (wifi_poll build env c events w))))"

definition fresh_wifi :: "retained_config \<Rightarrow> client_profile \<Rightarrow> op_mode \<Rightarrow> wifi" where
  "fresh_wifi config profile mode =
     \<lparr>wf_config = config, wf_state = fresh_runtime mode, wf_profile = profile,
      wf_has_profile = False, wf_manual = False, wf_scan_running = False, wf_attempt_started = 0,
      wf_next_reconnect = 0, wf_attempts = 0, wf_stations = []\<rparr>"

text \<open>
  The states reached when the connection does not change between the two readings of its status
  inside one operation.
\<close>

inductive wifi_reach :: "wifi_build \<Rightarrow> wifi \<Rightarrow> bool" for build :: wifi_build where
  fresh: "wifi_reach build (fresh_wifi config profile mode)"
| step: "wifi_reach build w \<Longrightarrow> we_status_later env = we_status env \<Longrightarrow>
    run_wifi_op build env op w = (w', calls) \<Longrightarrow> wifi_reach build w'"

definition reconnect_inv :: "wifi \<Rightarrow> bool" where
  "reconnect_inv w \<longleftrightarrow> wf_attempts w \<le> 1 \<and>
     (\<not> wf_manual w \<longrightarrow> client_of w = CS_Connected \<or> client_of w = CS_Connecting \<longrightarrow> wf_attempts w = 0) \<and>
     (\<not> wf_manual w \<longrightarrow> wf_attempts w \<noteq> 0 \<longrightarrow> pollable w)"

lemma begin_client_fields:
  assumes "begin_client now re w = (w', calls)"
  shows "wf_config w' = wf_config w" "wf_manual w' = wf_manual w" "wf_attempts w' = wf_attempts w"
    "active_ssid w' = active_ssid w"
  using assms by (auto simp: begin_client_def Let_def split: if_splits)

lemma reconnect_inv_zero: "wf_attempts w = 0 \<Longrightarrow> reconnect_inv w"
  by (simp add: reconnect_inv_def)

lemma apply_zero:
  assumes "wifi_apply build env c w = (s, w', calls)" "validate_config c"
  shows "wf_attempts w' = 0"
proof -
  have active: "wf_attempts w2 = 0"
    if "apply_active build env c w1 = (s, w2, calls')" "wf_attempts w1 = 0" for w1 w2 s calls'
    using that by (auto simp: apply_active_def Let_def dest: begin_client_fields(3)
        split: if_splits prod.splits)
  show ?thesis
    using assms by (auto simp: wifi_apply_def Let_def dest!: active split: if_splits prod.splits)
qed


lemma poll_reconnect_inv:
  assumes "poll_reconnect env w = (w1, calls)" "reconnect_inv w"
    and "we_status_later env = we_status env"
    and "wf_config w' = wf_config w1" "wf_manual w' = wf_manual w1" "wf_attempts w' = wf_attempts w1"
    and "active_ssid w' = active_ssid w1" "client_of w' = cl_state (observed_client env w1)"
  shows "reconnect_inv w'"
proof -
  have scheduled: "wf_config (schedule_reconnect now w) = wf_config w \<and>
      wf_manual (schedule_reconnect now w) = wf_manual w \<and>
      active_ssid (schedule_reconnect now w) = active_ssid w \<and>
      wf_attempts (schedule_reconnect now w) \<in> {wf_attempts w, wf_attempts w + 1} \<and>
      client_of (schedule_reconnect now w) \<in> {CS_Disconnected, CS_Failed, CS_Reconnecting}" for now
    by (auto simp: schedule_reconnect_def Let_def)
  show ?thesis
  proof (cases "wf_manual w \<or> \<not> pollable w")
    case True
    then have "w1 = w" using assms(1) by (auto simp: poll_reconnect_def pollable_def Let_def)
    then show ?thesis
      using assms(2,4-8) True by (auto simp: reconnect_inv_def pollable_def)
  next
    case False
    then have p: "uses_client (cf_mode (wf_config w))" "pollable w" "\<not> wf_manual w"
      by (auto simp: pollable_def)
    show ?thesis
    proof (cases "we_status env = WL_CONNECTED")
      case True
      then have "w1 = w\<lparr>wf_attempts := 0, wf_next_reconnect := 0\<rparr>"
        using assms(1) p by (auto simp: poll_reconnect_def pollable_def Let_def)
      then show ?thesis using assms(6) by (simp add: reconnect_inv_zero)
    next
      case unconnected: False
      then have client: "client_of w' = client_of w1" "wf_manual w' = wf_manual w1" "pollable w'"
        if "wf_config w1 = wf_config w" "wf_manual w1 = wf_manual w" "active_ssid w1 = active_ssid w"
        using that assms(3-8) p by (auto simp: observed_client_def pollable_def Let_def)
      consider (keep) "w1 = w"
        | (sched) now where "w1 = schedule_reconnect now w" "client_of w \<in> {CS_Connected, CS_Connecting}"
        | (retry) "begin_client (we_now_later env) True (w\<lparr>wf_next_reconnect := 0\<rparr>) = (w1, calls)"
        using assms(1) p unconnected
        by (auto simp: poll_reconnect_def pollable_def Let_def split: if_splits)
      then show ?thesis
      proof cases
        case keep
        then show ?thesis using client assms(2,6) by (simp add: reconnect_inv_def)
      next
        case (sched now)
        then have "wf_attempts w = 0" using assms(2) p by (auto simp: reconnect_inv_def)
        then show ?thesis using client sched(1) scheduled [of now] assms(6)
          by (auto simp: reconnect_inv_def)
      next
        case retry
        then have "client_of w1 \<in> {CS_Reconnecting, CS_Failed}"
          by (auto simp: begin_client_def Let_def split: if_splits)
        then show ?thesis
          using client begin_client_fields [OF retry] assms(2,6) by (auto simp: reconnect_inv_def)
      qed
    qed
  qed
qed


lemma wifi_op_inv:
  assumes "run_wifi_op build env op w = (w', calls)" "reconnect_inv w"
    and "we_status_later env = we_status env"
  shows "reconnect_inv w'"
proof (cases op)
  case (ApplyOp c)
  obtain s where a: "wifi_apply build env c w = (s, w', calls)"
    using assms(1) ApplyOp by (cases "wifi_apply build env c w") (auto simp: run_wifi_op_def)
  show ?thesis
  proof (cases "validate_config c")
    case True
    then show ?thesis using apply_zero [OF a] by (simp add: reconnect_inv_zero)
  next
    case False
    then show ?thesis using a assms(2) by (simp add: wifi_apply_def)
  qed
next
  case ConnectOp
  then have "w' = w \<or> wf_attempts w' = 0 \<or> (pollable w' \<and> w' = w\<lparr>wf_has_profile := False\<rparr>)"
    using assms(1)
    by (auto simp: run_wifi_op_def connect_client_def Let_def pollable_def active_ssid_def
        split: if_splits prod.splits dest: begin_client_fields(3))
  then show ?thesis using assms(2) by (auto simp: reconnect_inv_def)
next
  case (ConnectProfileOp p)
  then have "w' = w \<or> wf_attempts w' = 0 \<or>
      (pollable w' \<and> w' = w\<lparr>wf_profile := p, wf_has_profile := True\<rparr>)"
    using assms(1)
    by (auto simp: run_wifi_op_def connect_profile_def Let_def pollable_def active_ssid_def
        split: if_splits prod.splits dest: begin_client_fields(3))
  then show ?thesis using assms(2) by (auto simp: reconnect_inv_def)
next
  case (PollOp c events)
  obtain st c' ev where p: "wifi_poll build env c events w = (st, c', ev, w', calls)"
    using assms(1) PollOp by (cases "wifi_poll build env c events w") (auto simp: run_wifi_op_def)
  show ?thesis
    by (rule wifi_poll_machine [OF p])
      (use poll_reconnect_inv [OF _ assms(2,3)] in blast)
next
  case StartAPOp
  then show ?thesis
    using assms(1,2)
    by (auto simp: run_wifi_op_def start_access_point_def Let_def reconnect_inv_def pollable_def
        split: if_splits prod.splits)
next
  case StopAPOp
  then show ?thesis
    using assms(1,2)
    by (auto simp: run_wifi_op_def stop_access_point_def Let_def reconnect_inv_def pollable_def
        split: if_splits)
next
  case StartScanOp
  then show ?thesis
    using assms(1,2)
    by (auto simp: run_wifi_op_def start_scan_def Let_def reconnect_inv_def pollable_def
        split: if_splits)
next
  case DisableOp
  then show ?thesis
    using assms(1,2)
    by (auto simp: run_wifi_op_def wifi_disable_def Let_def reconnect_inv_def split: if_splits)
next
  case DisconnectOp
  then show ?thesis
    using assms(1,2)
    by (auto simp: run_wifi_op_def disconnect_client_def Let_def reconnect_inv_def split: if_splits)
qed

lemma wifi_reach_inv: "wifi_reach build w \<Longrightarrow> reconnect_inv w"
  by (induction rule: wifi_reach.induct)
    (auto intro: reconnect_inv_zero wifi_op_inv simp: fresh_wifi_def)

section \<open>Delays\<close>

lemma floor_min_nat: "\<lfloor>min (of_nat a :: rat) (of_nat b)\<rfloor> = int (min a b)"
  by (auto simp: min_def)

lemma backoff_delay_first:
  assumes "attempts \<le> 1"
  shows "backoff_delay p attempts = min (rp_initial_delay p) (rp_maximum_delay p)"
proof -
  have "\<not> 1 < attempts" using assms by simp
  have "backoff_delay p attempts =
      word_of_nat (min (unat (rp_initial_delay p)) (unat (rp_maximum_delay p)))"
    unfolding backoff_delay_def Let_def floor_min_nat if_not_P [OF \<open>\<not> 1 < attempts\<close>]
    by simp
  then show ?thesis by (auto simp: min_def word_le_nat_alt)
qed

lemma floor_bounds:
  "0 \<le> d \<Longrightarrow> 0 \<le> \<lfloor>min d (of_nat m :: rat)\<rfloor> \<and> \<lfloor>min d (of_nat m)\<rfloor> \<le> int m"
  by (auto simp: min_def floor_le_iff le_floor_iff) 

lemma backoff_delay_bounded:
  assumes "0 \<le> rp_multiplier p"
  shows "unat (backoff_delay p n) \<le> unat (rp_maximum_delay p)"
proof -
  define m where "m = unat (rp_maximum_delay p)"
  define a where "a = unat (rp_initial_delay p)"
  define d where "d = (if n > 1 then of_nat a * rp_multiplier p ^ unat (n - 1) else of_nat a)"
  have "0 \<le> d" using assms by (simp add: d_def)
  then have f: "0 \<le> \<lfloor>min d (of_nat m)\<rfloor>" "\<lfloor>min d (of_nat m)\<rfloor> \<le> int m"
    using floor_bounds by blast+
  have "m < 2 ^ 32"
    unfolding m_def using unsigned_less [of "rp_maximum_delay p", where ?'a = nat] by simp
  then have "unat (word_of_int \<lfloor>min d (of_nat m)\<rfloor> :: u32) \<le> m"
    using f by (simp add: unsigned_of_int take_bit_int_eq_self nat_le_iff)
  then show ?thesis by (simp only: backoff_delay_def Let_def d_def a_def m_def)
qed

text \<open>How a lost connection is retried.\<close>

lemma lost_connection_scheduled:
  assumes "pollable w" "\<not> wf_manual w" "client_of w = CS_Connected"
    and "rp_enabled (cf_reconnect (wf_config w))" "wf_attempts w = 0"
    and "rp_maximum_attempts (cf_reconnect (wf_config w)) = 0 \<or> 1 \<le> rp_maximum_attempts (cf_reconnect (wf_config w))"
    and "we_status env \<noteq> WL_CONNECTED"
  defines "p \<equiv> cf_reconnect (wf_config w)"
  shows "\<exists>w1. poll_reconnect env w = (w1, []) \<and> wf_config w1 = wf_config w \<and> wf_manual w1 = wf_manual w \<and>
    active_ssid w1 = active_ssid w \<and> active_password w1 = active_password w \<and>
    client_of w1 = CS_Reconnecting \<and> wf_attempts w1 = 1 \<and>
    wf_next_reconnect w1 = now_milliseconds (we_now env) + min (rp_initial_delay p) (rp_maximum_delay p)"
proof -
  have "\<not> rp_maximum_attempts (cf_reconnect (wf_config w)) \<noteq> 0 \<or>
      \<not> rp_maximum_attempts (cf_reconnect (wf_config w)) \<le> wf_attempts w"
    using assms(5,6) by auto
  then show ?thesis
    using assms
    by (auto simp: poll_reconnect_def schedule_reconnect_def pollable_def Let_def backoff_delay_first
        wifi_field_defs active_ssid_def active_password_def)
qed

lemma retry_when_due:
  assumes "pollable w" "\<not> wf_manual w" "client_of w = CS_Reconnecting" "wf_next_reconnect w \<noteq> 0"
    and "we_status env \<noteq> WL_CONNECTED"
  shows "snd (poll_reconnect env w) =
    (if time_reached (now_milliseconds (we_now env)) (wf_next_reconnect w)
     then [WiFiBegin (active_ssid w) (if active_password w = [] then None else Some (active_password w))]
     else [])"
proof -
  have "active_password (w\<lparr>wf_next_reconnect := 0\<rparr>) = active_password w"
    by (simp add: active_password_def)
  then show ?thesis
    using assms
    by (auto simp: poll_reconnect_def begin_client_def pollable_def Let_def)
qed

text \<open>A client that waits for its retry, with the timer \<open>deadline\<close> (0 for none).\<close>

definition waiting_until :: "u32 \<Rightarrow> wifi \<Rightarrow> bool" where
  "waiting_until deadline w \<longleftrightarrow> pollable w \<and> \<not> wf_manual w \<and> client_of w = CS_Reconnecting \<and>
     wf_next_reconnect w = deadline"

abbreviation retry_call :: "wifi \<Rightarrow> wifi_call" where
  "retry_call w \<equiv> WiFiBegin (active_ssid w) (if active_password w = [] then None else Some (active_password w))"

lemma waiting_until_zero: "waiting_until 0 w \<longleftrightarrow> waiting_forever w"
  by (simp add: waiting_until_def waiting_forever_def)

lemma wifi_poll_password:
  assumes "wifi_poll build env c events w = (st, c', ev, w', calls)" "poll_reconnect env w = (w1, calls1)"
  shows "active_password w' = active_password w1"
proof -
  obtain c2 w3 calls2 where 3: "poll_scan build env c (refresh_state env w1) = (c2, w3, calls2)"
    by (meson prod_cases3)
  obtain ev4 w4 where 4: "build_station_events env w3 = (ev4, w4)" by fastforce
  have "active_password w3 = active_password w1" "active_password w4 = active_password w3"
    using 3 4 by (auto simp: poll_scan_def build_station_events_def refresh_state_def wifi_field_defs
        active_password_def Let_def split: if_splits option.splits)
  then show ?thesis using assms by (auto simp: wifi_poll_def 3 4 Let_def split: if_splits)
qed

lemma waiting_until_poll:
  assumes "waiting_until deadline w" "deadline \<noteq> 0" "unconnected env"
    and "wifi_poll build env c events w = (st, c', ev, w', calls)"
  shows "if time_reached (now_milliseconds (we_now env)) deadline
    then waiting_forever w' \<and> set calls \<subseteq> {retry_call w, ScanDelete} \<and> retry_call w \<in> set calls
    else waiting_until deadline w' \<and> retry_call w' = retry_call w \<and> set calls \<subseteq> {ScanDelete}"
proof -
  obtain w1 calls1 calls2 where p: "poll_reconnect env w = (w1, calls1)" "calls = calls1 @ calls2"
    "set calls2 \<subseteq> {ScanDelete}"
    "wf_config w' = wf_config w1" "wf_manual w' = wf_manual w1" "wf_attempts w' = wf_attempts w1"
    "wf_next_reconnect w' = wf_next_reconnect w1" "active_ssid w' = active_ssid w1"
    "client_of w' = cl_state (observed_client env w1)"
    using wifi_poll_machine [OF assms(4)] by blast
  note c = retry_when_due [of w env]
  have w: "pollable w" "\<not> wf_manual w" "client_of w = CS_Reconnecting" "wf_next_reconnect w = deadline"
    "we_status env \<noteq> WL_CONNECTED" "we_status_later env \<noteq> WL_CONNECTED"
    using assms(1,3) by (auto simp: waiting_until_def unconnected_def)
  show ?thesis
  proof (cases "time_reached (now_milliseconds (we_now env)) deadline")
    case True
    then have "calls1 = [retry_call w]" using c w p(1) assms(2) by simp
    then have "retry_call w \<in> set calls" "set calls \<subseteq> {retry_call w, ScanDelete}" using p(2,3) by auto
    then show ?thesis using True retry_waits [OF assms(4,3)] by auto
  next
    case False
    then have "w1 = w" "calls1 = []"
      using p(1) w by (auto simp: poll_reconnect_def pollable_def Let_def)
    moreover have "client_of w' = CS_Reconnecting"
      using w p(9) \<open>w1 = w\<close> by (auto simp: observed_client_def pollable_def Let_def)
    ultimately show ?thesis
      using False w p wifi_poll_password [OF assms(4) p(1)]
      by (auto simp: waiting_until_def pollable_def)
  qed
qed

lemma waiting_until_run:
  "waiting_until deadline w \<Longrightarrow> deadline \<noteq> 0 \<Longrightarrow> list_all unconnected envs \<Longrightarrow>
   poll_run build envs w = (w', calls) \<Longrightarrow>
     set calls \<subseteq> {retry_call w, ScanDelete} \<and>
     (retry_call w \<in> set calls \<longleftrightarrow>
       (\<exists>env \<in> set envs. time_reached (now_milliseconds (we_now env)) deadline))"
proof (induction envs arbitrary: w calls)
  case (Cons env envs)
  obtain st c ev w1 calls1 where p: "wifi_poll build env None True w = (st, c, ev, w1, calls1)"
    by (meson prod_cases5)
  obtain later where r: "poll_run build envs w1 = (w', later)" "calls = calls1 @ later"
    using Cons.prems(4) p by (auto split: prod.splits)
  have u: "unconnected env" "list_all unconnected envs" using Cons.prems(3) by auto
  note one = waiting_until_poll [OF Cons.prems(1,2) u(1) p]
  show ?case
  proof (cases "time_reached (now_milliseconds (we_now env)) deadline")
    case True
    then show ?thesis using one waiting_forever_run [OF _ u(2) r(1)] r(2) by auto
  next
    case False
    then show ?thesis using one Cons.IH [OF _ Cons.prems(2) u(2) r(1)] r(2) by auto
  qed
qed simp

text \<open>With no retry due at all: the reconnection is switched off.\<close>

definition given_up :: "wifi \<Rightarrow> bool" where
  "given_up w \<longleftrightarrow> client_of w = CS_Disconnected \<and> pollable w"

lemma given_up_run:
  "given_up w \<Longrightarrow> list_all unconnected envs \<Longrightarrow> poll_run build envs w = (w', calls) \<Longrightarrow>
     set calls \<subseteq> {ScanDelete}"
proof (induction envs arbitrary: w calls)
  case (Cons env envs)
  obtain st c ev w1 calls1 where p: "wifi_poll build env None True w = (st, c, ev, w1, calls1)"
    by (meson prod_cases5)
  obtain later where r: "poll_run build envs w1 = (w', later)" "calls = calls1 @ later"
    using Cons.prems(3) p by (auto split: prod.splits)
  obtain w2 calls2 calls3 where m: "poll_reconnect env w = (w2, calls2)" "calls1 = calls2 @ calls3"
    "set calls3 \<subseteq> {ScanDelete}" "wf_config w1 = wf_config w2" "active_ssid w1 = active_ssid w2"
    "client_of w1 = cl_state (observed_client env w2)"
    using wifi_poll_machine [OF p] by blast
  have "w2 = w" "calls2 = []"
    using m(1) Cons.prems(1,2) by (auto simp: poll_reconnect_def given_up_def pollable_def
        unconnected_def Let_def split: if_splits)
  moreover have "given_up w1"
    using m(4-6) Cons.prems(1,2) \<open>w2 = w\<close>
    by (auto simp: given_up_def pollable_def observed_client_def unconnected_def Let_def)
  ultimately show ?case using Cons.IH [OF _ _ r(1)] Cons.prems(2) r(2) m(2,3) by auto
qed simp

lemma lost_connection_poll:
  assumes "wifi_reach build w" "pollable w" "\<not> wf_manual w" "client_of w = CS_Connected"
    and "unconnected env" "wifi_poll build env c events w = (st, c', ev, w', calls)"
  defines "p \<equiv> cf_reconnect (wf_config w)"
  shows "set calls \<subseteq> {ScanDelete} \<and>
    (if rp_enabled p
     then waiting_until (now_milliseconds (we_now env) + min (rp_initial_delay p) (rp_maximum_delay p)) w' \<and>
       retry_call w' = retry_call w
     else given_up w')"
proof -
  obtain w1 calls1 calls2 where m: "poll_reconnect env w = (w1, calls1)" "calls = calls1 @ calls2"
    "set calls2 \<subseteq> {ScanDelete}"
    "wf_config w' = wf_config w1" "wf_manual w' = wf_manual w1" "wf_attempts w' = wf_attempts w1"
    "wf_next_reconnect w' = wf_next_reconnect w1" "active_ssid w' = active_ssid w1"
    "client_of w' = cl_state (observed_client env w1)"
    using wifi_poll_machine [OF assms(6)] by blast
  have a: "wf_attempts w = 0"
    using wifi_reach_inv [OF assms(1)] assms(3,4) by (auto simp: reconnect_inv_def)
  have u: "we_status env \<noteq> WL_CONNECTED" "we_status_later env \<noteq> WL_CONNECTED"
    using assms(5) by (auto simp: unconnected_def)
  have w1: "w1 = schedule_reconnect (we_now env) w" "calls1 = []"
    using m(1) assms(2-4) u(1) by (auto simp: poll_reconnect_def pollable_def Let_def)
  show ?thesis
  proof (cases "rp_enabled p")
    case True
    have "rp_maximum_attempts p = 0 \<or> 1 \<le> rp_maximum_attempts p"
      by (metis word_gt_0 word_less_1 not_less)
    then obtain w2 where s: "poll_reconnect env w = (w2, [])" "wf_config w2 = wf_config w"
      "wf_manual w2 = wf_manual w" "active_ssid w2 = active_ssid w" "active_password w2 = active_password w"
      "client_of w2 = CS_Reconnecting" "wf_next_reconnect w2 =
        now_milliseconds (we_now env) + min (rp_initial_delay p) (rp_maximum_delay p)"
      using lost_connection_scheduled [OF assms(2-4) _ a _ u(1)] True unfolding p_def by blast
    then have "w2 = w1" using m(1) by simp
    then have "client_of w' = CS_Reconnecting"
      using m(9) s(2,3,6) u assms(2,3) by (auto simp: observed_client_def pollable_def Let_def)
    then show ?thesis
      using True m w1(2) s \<open>w2 = w1\<close> assms(2,3) wifi_poll_password [OF assms(6) m(1)]
      by (auto simp: waiting_until_def pollable_def)
  next
    case False
    then have s: "wf_config w1 = wf_config w" "wf_manual w1 = wf_manual w" "active_ssid w1 = active_ssid w"
      "client_of w1 = CS_Disconnected"
      using w1(1) by (simp_all add: schedule_reconnect_def p_def)
    then have "client_of w' = CS_Disconnected"
      using m(9) u assms(2,3) by (auto simp: observed_client_def pollable_def Let_def)
    then show ?thesis
      using False m w1(2) s assms(2) by (auto simp: given_up_def pollable_def)
  qed
qed


text \<open>The clock in whole milliseconds, without the wrap of the 32-bit number the code compares.\<close>

definition clock_ms :: "wifi_env \<Rightarrow> nat" where
  "clock_ms env = unat (we_now env) div 1000000"

lemma now_milliseconds_clock: "now_milliseconds (we_now env) = of_nat (clock_ms env)"
proof -
  have "clock_ms env = unat (we_now env div 1000000)" by (simp add: clock_ms_def unat_div_distrib)
  then show ?thesis by (simp only: now_milliseconds_def of_nat_unat)
qed

lemma timer_due_clock:
  assumes "clock_ms env \<le> clock_ms e" "clock_ms e < clock_ms env + 2 ^ 31" "unat delay < 2 ^ 31"
  shows "time_reached (now_milliseconds (we_now e)) (now_milliseconds (we_now env) + delay) \<longleftrightarrow>
    clock_ms env + unat delay \<le> clock_ms e"
proof -
  define n where "n = clock_ms e - clock_ms env"
  have n: "clock_ms e = clock_ms env + n" "n < 2 ^ 31" using assms(1,2) by (auto simp: n_def)
  then have "unat (of_nat n :: u32) = n" by (simp add: unat_of_nat)
  then show ?thesis
    using timer_due_iff [of delay "of_nat n" "now_milliseconds (we_now env)"] n assms(3)
    by (simp add: now_milliseconds_clock)
qed


section \<open>Stations\<close>

text \<open>What a listener that applies the events knows.\<close>

fun apply_station_events :: "wifi_event list \<Rightarrow> mac set \<Rightarrow> mac set" where
  "apply_station_events [] S = S"
| "apply_station_events (StationConnected m # es) S = apply_station_events es (insert m S)"
| "apply_station_events (StationDisconnected m # es) S = apply_station_events es (S - {m})"
| "apply_station_events (_ # es) S = apply_station_events es S"

lemma apply_station_append:
  "apply_station_events (a @ b) S = apply_station_events b (apply_station_events a S)"
  by (induction a S rule: apply_station_events.induct) auto

lemma apply_connected: "apply_station_events (map StationConnected ms) S = S \<union> set ms"
  by (induction ms arbitrary: S) auto

lemma apply_disconnected: "apply_station_events (map StationDisconnected ms) S = S - set ms"
  by (induction ms arbitrary: S) auto

lemma count_filter_list: "count_list (filter P xs) m = (if P m then count_list xs m else 0)"
  by (induction xs) auto

lemma count_connected:
  "count_list (map StationConnected xs) (StationConnected m) = count_list xs m"
  "count_list (map StationDisconnected xs) (StationConnected m) = 0"
  "count_list (map StationDisconnected xs) (StationDisconnected m) = count_list xs m"
  "count_list (map StationConnected xs) (StationDisconnected m) = 0"
  by (induction xs) auto

text \<open>Whether \<open>Poll\<close> asks the driver for the stations: the mode has an access point and it is up.\<close>

definition hosting :: "wifi_env \<Rightarrow> wifi \<Rightarrow> bool" where
  "hosting env w \<longleftrightarrow> can_host_ap (cf_mode (wf_config w)) \<and> we_soft_ip env \<noteq> IPAddress 0 0 0 0"


section \<open>Revisions\<close>

lemma small_step_revision:
  "wf_state w' = wf_state w \<or> rt_revision (wf_state w') = rt_revision (wf_state w) + 1 \<Longrightarrow>
   wf_state w'' = wf_state w' \<or> rt_revision (wf_state w'') = rt_revision (wf_state w') + 1 \<Longrightarrow>
   wf_state w''' = wf_state w'' \<or> rt_revision (wf_state w''') = rt_revision (wf_state w'') + 1 \<Longrightarrow>
   wf_state w''' = wf_state w \<or> rt_revision (wf_state w''') \<noteq> rt_revision (wf_state w)"
  by auto

lemma poll_reconnect_revision:
  "poll_reconnect env w = (w1, calls) \<Longrightarrow>
     wf_state w1 = wf_state w \<or> rt_revision (wf_state w1) = rt_revision (wf_state w) + 1"
  by (auto simp: poll_reconnect_def schedule_reconnect_def begin_client_def wifi_field_defs Let_def
      split: if_splits)

lemma refresh_state_revision:
  "wf_state (refresh_state env w) = wf_state w \<or>
     rt_revision (wf_state (refresh_state env w)) = rt_revision (wf_state w) + 1"
  by (auto simp: refresh_state_def Let_def)

lemma poll_scan_revision:
  "poll_scan build env c w = (c', w', calls) \<Longrightarrow>
     wf_state w' = wf_state w \<or> rt_revision (wf_state w') = rt_revision (wf_state w) + 1"
  by (auto simp: poll_scan_def wifi_field_defs split: if_splits)


section \<open>Calls to the driver\<close>

lemma quarter_dbm_eq: "quarter_dbm d = 4 * clamp_tx_power d \<and> 8 \<le> quarter_dbm d \<and> quarter_dbm d \<le> 80"
proof -
  have c: "2 \<le> clamp_tx_power d \<and> clamp_tx_power d \<le> 20" by (auto simp: clamp_tx_power_def Let_def)
  then have "signed_take_bit 7 (clamp_tx_power d * 4) = clamp_tx_power d * 4"
    by (intro signed_take_bit_int_eq_self) auto
  then show ?thesis using c by (simp add: quarter_dbm_def)
qed

text \<open>Only \<open>ApplyRadioSettings\<close> sets the power.\<close>

lemma no_power_calls:
  "configure_client_address_legacy env w = (ok, calls) \<Longrightarrow> SetMaxTxPower q \<notin> set calls"
  "configure_access_point build env w = (ok, calls) \<Longrightarrow> SetMaxTxPower q \<notin> set calls"
  "begin_client now re w = (w', calls) \<Longrightarrow> SetMaxTxPower q \<notin> set calls"
proof -
  have dhcp: "SetMaxTxPower q \<notin> set (snd (configure_dhcp_server build env d))" for d
    by (simp add: configure_dhcp_server_def Let_def)
  show "configure_client_address_legacy env w = (ok, calls) \<Longrightarrow> SetMaxTxPower q \<notin> set calls"
    by (auto simp: configure_client_address_legacy_def configure_client_address_def split: if_splits)
  show "configure_access_point build env w = (ok, calls) \<Longrightarrow> SetMaxTxPower q \<notin> set calls"
    using dhcp [of "ap_dhcp (cf_ap (wf_config w))"]
    by (auto simp: configure_access_point_def Let_def split: if_splits prod.splits)
  show "begin_client now re w = (w', calls) \<Longrightarrow> SetMaxTxPower q \<notin> set calls"
    by (auto simp: begin_client_def Let_def split: if_splits)
qed

lemma apply_active_calls:
  assumes "apply_active build env c w = (status, w', calls)"
  shows "status \<noteq> WS_InvalidConfiguration" "wf_config w' = wf_config w"
    "SetMaxTxPower q \<in> set calls \<Longrightarrow> q = quarter_dbm (cf_tx_power (wf_config w))"
proof -
  obtain address_ok address_calls where a: "(if uses_client (wc_mode c) \<and> \<not> automatic_profiles c
      then configure_client_address_legacy env w else (True, [])) = (address_ok, address_calls)"
    by fastforce
  obtain ap_ok ap_calls where p: "(if persistent_ap (wc_mode c)
      then configure_access_point build env w else (True, [])) = (ap_ok, ap_calls)" by fastforce
  obtain w1 begin_calls where b: "(if uses_client (wc_mode c) \<and> cc_enabled (wc_client c) \<and>
      \<not> automatic_profiles c \<and> cc_ssid (wc_client c) \<noteq> []
      then begin_client (we_now env) False w else (w, [])) = (w1, begin_calls)" by fastforce
  have none: "SetMaxTxPower q \<notin> set address_calls" "SetMaxTxPower q \<notin> set ap_calls"
    "SetMaxTxPower q \<notin> set begin_calls" "wf_config w1 = wf_config w"
    using a p b by (auto split: if_splits dest: no_power_calls begin_client_fields(1))
  show "status \<noteq> WS_InvalidConfiguration" "wf_config w' = wf_config w"
    using assms none(4) unfolding apply_active_def Let_def a p b by (auto split: if_splits)
  show "SetMaxTxPower q \<in> set calls \<Longrightarrow> q = quarter_dbm (cf_tx_power (wf_config w))"
    using assms none unfolding apply_active_def Let_def a p b
    by (auto simp: apply_radio_settings_def split: if_splits)
qed

lemma apply_active_facts:
  assumes "apply_active build env c w = (status, w', calls)"
  shows "status \<noteq> WS_InvalidConfiguration \<and> wf_config w' = wf_config w \<and>
     (\<forall>q. SetMaxTxPower q \<in> set calls \<longrightarrow> q = quarter_dbm (cf_tx_power (wf_config w)))"
  using apply_active_calls [OF assms] by blast

section \<open>A concrete client\<close>

definition sample_client :: client_selection where
  "sample_client = \<lparr>cc_enabled = True, cc_ssid = ''home'', cc_password = [], cc_addressing = DHCP,
     cc_static = no_network\<rparr>"

definition sample_ap :: ap_config where
  "sample_ap = \<lparr>ap_enabled = True, ap_ssid = ''ap'', ap_password = [], ap_channel = 1,
     ap_hidden = False, ap_max_clients = 4, ap_network = no_network,
     ap_dhcp = \<lparr>dh_enabled = False, dh_lease_start = IPv4Address 0 0 0 0,
       dh_lease_end = IPv4Address 0 0 0 0, dh_lease_seconds = 0\<rparr>\<rparr>"

definition sample_policy :: reconnect_policy where
  "sample_policy = \<lparr>rp_enabled = True, rp_maximum_attempts = 10, rp_initial_delay = 1000,
     rp_maximum_delay = 60000, rp_multiplier = 2, rp_timeout = 15000\<rparr>"

definition sample_config :: "op_mode \<Rightarrow> retained_config" where
  "sample_config mode = \<lparr>cf_mode = mode, cf_client = sample_client, cf_ap = sample_ap,
     cf_reconnect = sample_policy, cf_tx_power = 20, cf_power_save = False\<rparr>"

definition sample_profile :: client_profile where
  "sample_profile = \<lparr>pf_enabled = True, pf_ssid = ''other'', pf_password = [],
     pf_addressing = DHCP, pf_static = no_network\<rparr>"

definition sample_wifi :: "client_state \<Rightarrow> u32 \<Rightarrow> wifi" where
  "sample_wifi state due = set_client_state state
     ((fresh_wifi (sample_config OpAccessPointClient) sample_profile OpAccessPointClient)
       \<lparr>wf_next_reconnect := due\<rparr>)"

text \<open>The clock stands at \<open>ms\<close> milliseconds, nothing is connected, one station is there.\<close>

definition sample_wifi_env :: "u64 \<Rightarrow> wifi_env" where
  "sample_wifi_env ms = \<lparr>we_mode = True, we_config = True, we_soft_config = True, we_soft_ap = True,
     we_netif = True, we_requested_ip = ESP_OK, we_lease_time = ESP_OK, we_dhcps_start = ESP_OK,
     we_disconnect = True, we_soft_disconnect = True, we_scan_start = 0, we_scan_complete = 0,
     we_scan_entry = (\<lambda>_. \<lparr>se_ssid = [], se_rssi = 0, se_channel = 1, se_auth = AuthOpen,
       se_bssid = None\<rparr>), we_now = ms * 1000000, we_now_later = ms * 1000000,
     we_status = WL_OTHER, we_status_later = WL_OTHER, we_ssid = [], we_rssi = 0, we_channel = 0,
     we_local_ip = IPAddress 0 0 0 0, we_gateway = IPAddress 0 0 0 0, we_subnet = IPAddress 0 0 0 0,
     we_dns1 = IPAddress 0 0 0 0, we_dns2 = IPAddress 0 0 0 0, we_soft_ip = IPAddress 192 168 4 1,
     we_station_num = 1, we_sta_list = Some [[1, 2, 3, 4, 5, 6]]\<rparr>"

lemmas sample_wifi_defs = sample_wifi_def sample_wifi_env_def sample_config_def sample_client_def
  sample_policy_def fresh_wifi_def set_client_state_def

definition sample_build :: wifi_build where
  "sample_build = \<lparr>wb_requested_ip = False, wb_lease_time = False, wb_already_started = None,
     wb_wpa3 = False, wb_wpa2_wpa3 = False\<rparr>"

definition online :: "wifi_env \<Rightarrow> wifi_env" where
  "online env = env\<lparr>we_status := WL_CONNECTED, we_status_later := WL_CONNECTED\<rparr>"

lemma sample_connected:
  obtains w where "wifi_reach sample_build w" "pollable w" "\<not> wf_manual w" "client_of w = CS_Connected"
    "retry_call w = WiFiBegin ''home'' None" "cf_reconnect (wf_config w) = sample_policy"
proof -
  let ?w = "fresh_wifi (sample_config OpClient) sample_profile OpClient" and ?e = "online (sample_wifi_env 4000)"
  obtain st c ev w calls where p: "wifi_poll sample_build ?e None False ?w = (st, c, ev, w, calls)"
    by (meson prod_cases5)
  obtain w1 calls1 where m: "poll_reconnect ?e ?w = (w1, calls1)"
    "wf_config w = wf_config w1" "wf_manual w = wf_manual w1" "active_ssid w = active_ssid w1"
    "client_of w = cl_state (observed_client ?e w1)"
    using wifi_poll_machine [OF p] by blast
  have w1: "w1 = ?w\<lparr>wf_attempts := 0, wf_next_reconnect := 0\<rparr>"
    using m(1) by (auto simp: poll_reconnect_def online_def sample_wifi_defs Let_def uses_client_def
        active_ssid_def)
  have "run_wifi_op sample_build ?e (PollOp None False) ?w = (w, calls)"
    using p by (simp add: run_wifi_op_def)
  then have "wifi_reach sample_build w"
    by (intro wifi_reach.step [OF wifi_reach.fresh]) (simp_all add: online_def)
  then show ?thesis
    using m w1 wifi_poll_password [OF p m(1)]
    by (intro that [of w]) (auto simp: pollable_def observed_client_def online_def sample_wifi_defs
        uses_client_def active_ssid_def active_password_def Let_def)
qed


section \<open>The properties of the Wi-Fi platform\<close>

text \<open>C12: One attempt is all a lost client gets. As soon as a \<open>Poll\<close> has tried again and the
  connection did not come up, no later \<open>Poll\<close> that still sees none tries another time, gives up or
  times out, however often it is called and whatever the policy allows: the client stays in \<open>Reconnecting\<close>.\<close>

theorem wifi_single_retry:
  assumes "wifi_poll build env c events w = (st, c', ev, w1, calls)" "WiFiBegin s pw \<in> set calls"
    and "unconnected env" "list_all unconnected envs"
    and "poll_run build envs w1 = (w2, later)"
  shows "client_of w2 = CS_Reconnecting \<and> (\<forall>s pw. WiFiBegin s pw \<notin> set later)"
  using waiting_forever_run [OF retry_waits [OF assms(1,3,2)] assms(4,5)]
  by (auto simp: waiting_forever_def)

theorem wifi_single_retry_witness:
  "\<exists>w1 w2 later. (\<exists>st c' ev calls. wifi_poll sample_build (sample_wifi_env 5000) None True
        (sample_wifi CS_Reconnecting 4000) = (st, c', ev, w1, calls)) \<and>
     poll_run sample_build [sample_wifi_env 90000, sample_wifi_env 200000] w1 = (w2, later) \<and>
     client_of w2 = CS_Reconnecting \<and> (\<forall>s pw. WiFiBegin s pw \<notin> set later)"
proof -
  obtain st c' ev w1 calls where p: "wifi_poll sample_build (sample_wifi_env 5000) None True
      (sample_wifi CS_Reconnecting 4000) = (st, c', ev, w1, calls)" by (meson prod_cases5)
  obtain w2 later where r: "poll_run sample_build [sample_wifi_env 90000, sample_wifi_env 200000] w1 =
      (w2, later)" by fastforce
  have "snd (poll_reconnect (sample_wifi_env 5000) (sample_wifi CS_Reconnecting 4000)) =
      [WiFiBegin ''home'' None]"
    using retry_when_due [of "sample_wifi CS_Reconnecting 4000" "sample_wifi_env 5000"]
    by (simp add: sample_wifi_defs uses_client_def active_ssid_def active_password_def pollable_def
        time_reached_iff now_milliseconds_def)
  then have "WiFiBegin ''home'' None \<in> set calls"
    using p by (auto simp: wifi_poll_def Let_def split: prod.splits)
  moreover have "unconnected (sample_wifi_env n)" for n
    by (simp add: unconnected_def sample_wifi_env_def)
  ultimately show ?thesis using wifi_single_retry [OF p _ _ _ r] p r by auto
qed

text \<open>C13: While the connection status does not change inside one operation, the attempt counter is
  at most one in every state any sequence of operations reaches. So the delay is always the
  initial one, and the backoff multiplier and every limit of two or more attempts are without
  effect.\<close>

theorem wifi_backoff_unused:
  assumes "wifi_reach build w"
  shows "wf_attempts w \<le> 1 \<and>
    backoff_delay p (wf_attempts w) = min (rp_initial_delay p) (rp_maximum_delay p)"
  using wifi_reach_inv [OF assms] by (simp add: reconnect_inv_def backoff_delay_first)

theorem wifi_backoff_unused_witness:
  "wf_attempts (fresh_wifi (sample_config OpClient) sample_profile OpClient) \<le> 1"
  using wifi_backoff_unused [OF wifi_reach.fresh [of sample_build "sample_config OpClient"
      sample_profile OpClient]] by simp

text \<open>C14: A lost connection is retried on time, whatever the policy. The poll that sees the loss
  makes no call to connect. With reconnection disabled the client is disconnected and no later poll
  calls either. Otherwise the client waits with a deadline that is the initial delay (or the maximum
  delay where that is smaller) after the loss, in wrapping milliseconds; over any sequence of later
  polls without a connection the one call made is the retry with the active credentials, and it is
  made exactly if the deadline is not zero and a poll finds it reached. For a delay below \<open>2 ^ 31\<close>
  milliseconds and polls within \<open>2 ^ 31\<close> milliseconds of the loss that is exactly if a poll comes
  after the delay has passed in real time, although the code compares 32-bit numbers that wrap. A
  deadline that falls on zero is taken for no deadline, and the connection is never retried.\<close>

theorem wifi_retry_on_time:
  assumes lost: "wifi_reach build w" "pollable w" "\<not> wf_manual w" "client_of w = CS_Connected"
      "unconnected env" "wifi_poll build env c events w = (st, c', ev, w1, calls)"
    and later: "list_all unconnected envs" "poll_run build envs w1 = (w2, laters)"
    and p: "p = cf_reconnect (wf_config w)" "delay = min (rp_initial_delay p) (rp_maximum_delay p)"
      "deadline = now_milliseconds (we_now env) + delay"
  shows "set calls \<subseteq> {ScanDelete} \<and>
    (if rp_enabled p
     then client_of w1 = CS_Reconnecting \<and> set laters \<subseteq> {retry_call w, ScanDelete} \<and>
       (retry_call w \<in> set laters \<longleftrightarrow> deadline \<noteq> 0 \<and>
         (\<exists>e \<in> set envs. time_reached (now_milliseconds (we_now e)) deadline)) \<and>
       (unat delay < 2 ^ 31 \<longrightarrow>
        (\<forall>e \<in> set envs. clock_ms env \<le> clock_ms e \<and> clock_ms e < clock_ms env + 2 ^ 31) \<longrightarrow>
        (retry_call w \<in> set laters \<longleftrightarrow> deadline \<noteq> 0 \<and>
          (\<exists>e \<in> set envs. clock_ms env + unat delay \<le> clock_ms e)))
     else client_of w1 = CS_Disconnected \<and> set laters \<subseteq> {ScanDelete})"
proof -
  note one = lost_connection_poll [OF lost, folded p(1), folded p(2), folded p(3)]
  show ?thesis
  proof (cases "rp_enabled p")
    case True
    then have w: "waiting_until deadline w1" "retry_call w1 = retry_call w" using one by auto
    have run: "set laters \<subseteq> {retry_call w, ScanDelete} \<and>
       (retry_call w \<in> set laters \<longleftrightarrow> deadline \<noteq> 0 \<and>
         (\<exists>e \<in> set envs. time_reached (now_milliseconds (we_now e)) deadline))"
    proof (cases "deadline = 0")
      case True
      then show ?thesis
        using waiting_forever_run [OF _ later] w(1) by (auto simp: waiting_until_zero)
    next
      case False
      then show ?thesis using waiting_until_run [OF w(1) False later] w(2) by simp
    qed
    moreover have "client_of w1 = CS_Reconnecting" using w(1) by (simp add: waiting_until_def)
    ultimately show ?thesis using True one timer_due_clock [of env _ delay] p(3) by auto
  next
    case False
    then show ?thesis using one given_up_run [OF _ later] by (auto simp: given_up_def)
  qed
qed

theorem wifi_retry_on_time_witness:
  "\<exists>w st c ev w1 calls w2 laters. wifi_reach sample_build w \<and> client_of w = CS_Connected \<and>
     wifi_poll sample_build (sample_wifi_env 5000) None True w = (st, c, ev, w1, calls) \<and>
     poll_run sample_build [sample_wifi_env 5999, sample_wifi_env 6000] w1 = (w2, laters) \<and>
     WiFiBegin ''home'' None \<in> set laters"
proof -
  obtain w where w: "wifi_reach sample_build w" "pollable w" "\<not> wf_manual w" "client_of w = CS_Connected"
    "retry_call w = WiFiBegin ''home'' None" "cf_reconnect (wf_config w) = sample_policy"
    by (rule sample_connected)
  obtain st c ev w1 calls where p: "wifi_poll sample_build (sample_wifi_env 5000) None True w =
      (st, c, ev, w1, calls)" by (meson prod_cases5)
  obtain w2 laters where r: "poll_run sample_build [sample_wifi_env 5999, sample_wifi_env 6000] w1 =
      (w2, laters)" by fastforce
  have u: "unconnected (sample_wifi_env n)" for n by (simp add: unconnected_def sample_wifi_env_def)
  have now: "now_milliseconds (we_now (sample_wifi_env 5000)) = 5000"
    "now_milliseconds (we_now (sample_wifi_env 6000)) = 6000"
    by (simp_all add: sample_wifi_env_def now_milliseconds_def)
  have policy: "rp_enabled sample_policy" "min (rp_initial_delay sample_policy)
      (rp_maximum_delay sample_policy) = 1000" by (simp_all add: sample_policy_def)
  have us: "list_all unconnected [sample_wifi_env 5999, sample_wifi_env 6000]" using u by simp
  have "WiFiBegin ''home'' None \<in> set laters"
    using wifi_retry_on_time [OF w(1-4) u p us r refl refl refl, unfolded w(5,6) policy now]
    by (simp add: time_reached_iff policy now)
  then show ?thesis using w p r by blast
qed

text \<open>C15: Every change of the state that \<open>Poll\<close> returns comes with a new revision: a caller that
  sees the revision it knows has the very same state.\<close>

theorem wifi_revision_announces:
  assumes "wifi_poll build env c events w = (st, c', ev, w', calls)"
  shows "(st = wf_state w \<longleftrightarrow> rt_revision st = rt_revision (wf_state w)) \<and> wf_state w' = st"
proof -
  obtain w1 calls1 where 1: "poll_reconnect env w = (w1, calls1)" by fastforce
  obtain c2 w3 calls2 where 3: "poll_scan build env c (refresh_state env w1) = (c2, w3, calls2)"
    by (meson prod_cases3)
  obtain ev4 w4 where 4: "build_station_events env w3 = (ev4, w4)" by fastforce
  have "st = wf_state w3" "wf_state w' = st"
    using assms build_station_events_fields(6) [OF 4]
    by (auto simp: wifi_poll_def 1 3 4 Let_def split: if_splits)
  then show ?thesis
    using small_step_revision [OF poll_reconnect_revision [OF 1] refresh_state_revision
        poll_scan_revision [OF 3]] by auto
qed

theorem wifi_revision_announces_witness:
  "\<exists>st c' ev w' calls. wifi_poll sample_build (sample_wifi_env 5000) None True
      (sample_wifi CS_Connected 0) = (st, c', ev, w', calls) \<and> wf_state w' = st"
proof -
  obtain st c' ev w' calls where p: "wifi_poll sample_build (sample_wifi_env 5000) None True
      (sample_wifi CS_Connected 0) = (st, c', ev, w', calls)" by (meson prod_cases5)
  from wifi_revision_announces [OF this] p show ?thesis by blast
qed

text \<open>C16: The station events of one poll, in every case. With the access point up and the driver's
  list readable they carry a listener from the stations known before to exactly the stations of
  the list, which become the known ones: each new station is reported connected as often as the
  list has it, each missing one disconnected as often as it was known (once each, where the lists
  have no repetitions), and nobody else. When the list cannot be read nothing is reported and nothing
  changes. When the mode has no access point or it has no address the known stations are forgotten
  without an event: a listener keeps every one of them as connected.\<close>

theorem wifi_station_events_exact:
  assumes "build_station_events env w = (ev, w')"
  defines "listener \<equiv> apply_station_events ev (set (wf_stations w))"
  shows "if \<not> hosting env w
    then ev = [] \<and> wf_stations w' = [] \<and> listener = set (wf_stations w)
    else (case we_sta_list env of
        None \<Rightarrow> ev = [] \<and> w' = w
      | Some stations \<Rightarrow> wf_stations w' = stations \<and> listener = set stations \<and>
          (\<forall>m. count_list ev (StationConnected m) =
             (if m \<in> set (wf_stations w) then 0 else count_list stations m)) \<and>
          (\<forall>m. count_list ev (StationDisconnected m) =
             (if m \<in> set stations then 0 else count_list (wf_stations w) m)) \<and>
          length ev = length (filter (\<lambda>m. m \<notin> set (wf_stations w)) stations) +
            length (filter (\<lambda>m. m \<notin> set stations) (wf_stations w)))"
  using assms
  by (auto simp: build_station_events_def hosting_def apply_station_append apply_connected
      apply_disconnected count_connected count_filter_list split: option.splits if_splits)

theorem wifi_station_events_exact_witness:
  "\<exists>ev w'. build_station_events (sample_wifi_env 0) (sample_wifi CS_Connected 0) = (ev, w') \<and>
     apply_station_events ev {} = {[1, 2, 3, 4, 5, 6]} \<and>
     count_list ev (StationConnected [1, 2, 3, 4, 5, 6]) = 1"
proof -
  obtain ev w' where e: "build_station_events (sample_wifi_env 0) (sample_wifi CS_Connected 0) = (ev, w')"
    by fastforce
  have "hosting (sample_wifi_env 0) (sample_wifi CS_Connected 0)"
    by (simp add: hosting_def sample_wifi_defs can_host_ap_def persistent_ap_def)
  then show ?thesis using wifi_station_events_exact [OF e] e
    by (simp add: sample_wifi_defs)
qed

text \<open>So a station that was there when the access point lost its address is never reported gone, and
  when it comes back with the access point it is reported connected a second time.\<close>

lemma wifi_station_forgotten:
  assumes "m \<in> set (wf_stations w)" "\<not> hosting down w"
    and "build_station_events down w = (ev1, w1)"
    and "hosting up w1" "we_sta_list up = Some stations" "m \<in> set stations"
    and "build_station_events up w1 = (ev2, w2)"
  shows "ev1 = [] \<and> StationConnected m \<in> set ev2"
  using assms by (auto simp: build_station_events_def hosting_def split: if_splits)

text \<open>\<open>Apply\<close> refuses an invalid configuration without a driver call and without a change;
  a valid one always reaches the driver, first with the mode the configuration asks for, and
  transmit power only ever leaves for the driver inside 2 to 20 dBm, in quarter dBm without a
  wrap of the 8-bit number.\<close>

theorem wifi_apply_checked:
  "(case wifi_apply build env c w of (status, w', calls) \<Rightarrow>
      if validate_config c
      then status \<noteq> WS_InvalidConfiguration \<and> wf_config w' = retain_configuration c \<and>
        (\<exists>rest. calls = SetMode (driver_mode (wc_mode c)) # rest) \<and>
        (\<forall>q. SetMaxTxPower q \<in> set calls \<longrightarrow> 8 \<le> q \<and> q \<le> 80 \<and> q = 4 * clamp_tx_power (wc_tx_power c))
      else status = WS_InvalidConfiguration \<and> w' = w \<and> calls = [])"
proof (cases "validate_config c")
  case True
  obtain status w' calls where a: "wifi_apply build env c w = (status, w', calls)"
    by (meson prod_cases3)
  then show ?thesis
    using True quarter_dbm_eq [of "wc_tx_power c"]
    by (auto simp: wifi_apply_def Let_def retain_configuration_def wifi_field_defs
        split: if_splits prod.splits dest!: apply_active_facts)
next
  case False
  then show ?thesis by (simp add: wifi_apply_def)
qed

theorem wifi_apply_checked_witness:
  "\<exists>w' rest. wifi_apply sample_build (sample_wifi_env 0)
     \<lparr>wc_mode = OpClient, wc_hostname = [], wc_client = sample_client,
      wc_automatic = False, wc_networks = [], wc_ap = sample_ap, wc_reconnect = sample_policy,
      wc_tx_power = 20, wc_power_save = False\<rparr> (sample_wifi CS_Connected 0) =
    (WS_Success, w', SetMode ModeSta # rest) \<and> (\<forall>q. SetMaxTxPower q \<in> set rest \<longrightarrow> q = 80)"
proof -
  let ?c = "\<lparr>wc_mode = OpClient, wc_hostname = [], wc_client = sample_client,
      wc_automatic = False, wc_networks = [], wc_ap = sample_ap, wc_reconnect = sample_policy,
      wc_tx_power = 20, wc_power_save = False\<rparr>"
  obtain s w' calls where a: "wifi_apply sample_build (sample_wifi_env 0) ?c
      (sample_wifi CS_Connected 0) = (s, w', calls)" by (meson prod_cases3)
  have v: "validate_config ?c"
    by (simp add: validate_config_def validate_credential_def sample_client_def sample_ap_def
        sample_policy_def)
  have "s = WS_Success"
    using a v by (auto simp: wifi_apply_def apply_active_def sample_wifi_env_def persistent_ap_def
        configure_client_address_legacy_def configure_client_address_def Let_def
        split: prod.splits if_splits)
  then show ?thesis
    using wifi_apply_checked [where build = sample_build and env = "sample_wifi_env 0" and c = ?c
        and w = "sample_wifi CS_Connected 0"] a v
    by (auto simp: driver_mode_def clamp_tx_power_def)
qed

section \<open>Fingerprints of the radio\<close>

text \<open>src/ESPressio_WiFiRadio.hpp: what the driver says of the radio, each with whether it answered. An
  answer is the error and the value its variable holds after the call.\<close>

record radio_fingerprint =
  fg_mode :: wifi_mode
  fg_primary :: u8
  fg_secondary :: int
  fg_power_save :: int
  fg_tx_power :: "8 word"
  fg_mode_available :: bool
  fg_channel_available :: bool
  fg_power_save_available :: bool
  fg_tx_power_available :: bool

definition same_fingerprint :: "radio_fingerprint \<Rightarrow> radio_fingerprint \<Rightarrow> bool" where
  "same_fingerprint a b \<longleftrightarrow> fg_mode a = fg_mode b \<and> fg_primary a = fg_primary b \<and>
     fg_secondary a = fg_secondary b \<and> fg_power_save a = fg_power_save b \<and> fg_tx_power a = fg_tx_power b \<and>
     fg_mode_available a = fg_mode_available b \<and> fg_channel_available a = fg_channel_available b \<and>
     fg_power_save_available a = fg_power_save_available b \<and> fg_tx_power_available a = fg_tx_power_available b"

definition read_radio_fingerprint ::
    "esp_err \<times> wifi_mode \<Rightarrow> esp_err \<times> u8 \<times> int \<Rightarrow> esp_err \<times> int \<Rightarrow> esp_err \<times> 8 word \<Rightarrow> radio_fingerprint" where
  "read_radio_fingerprint mode channel power_save tx_power =
     \<lparr>fg_mode = snd mode, fg_primary = fst (snd channel), fg_secondary = snd (snd channel),
      fg_power_save = snd power_save, fg_tx_power = snd tx_power, fg_mode_available = (fst mode = ESP_OK),
      fg_channel_available = (fst channel = ESP_OK), fg_power_save_available = (fst power_save = ESP_OK),
      fg_tx_power_available = (fst tx_power = ESP_OK)\<rparr>"

text \<open>The comparison leaves no field out: it is equality.\<close>

lemma same_fingerprint_eq: "same_fingerprint a b \<longleftrightarrow> a = b"
  by (cases a; cases b) (auto simp: same_fingerprint_def)

end
