(* ===== verification/Http_Message.thy ===== *)
theory Http_Message
  imports Platform_Types Prelude "HOL-Library.Sublist"
begin

text \<open>
  src/ESPressio_HttpServerPlatform.hpp: the request (\<open>ESP32HttpRequestPlatform\<close>) and the response
  (\<open>ESP32HttpResponsePlatform\<close>) on ESP-IDF's \<open>esp_http_server\<close>.

  Text and body bytes are lists of 8-bit characters. Sizes are 32-bit words, as \<open>size_t\<close> is on the
  ESP32. What \<open>httpd_send\<close> answers to each call is the parameter \<open>answers\<close>, and the
  operations return the bytes that reach the connection.
\<close>

type_synonym size32 = "32 word"

section \<open>Enumerations\<close>

datatype native_method =
    HTTP_GET | HTTP_HEAD | HTTP_POST | HTTP_PUT | HTTP_PATCH | HTTP_DELETE | HTTP_OPTIONS
  | HTTP_CONNECT | HTTP_TRACE | HTTP_OTHER int

datatype http_method =
  Get | Head | Post | Put | Patch | Delete | Options | Connect | Trace | Any

definition from_native_method :: "native_method \<Rightarrow> http_method" where
  "from_native_method m = (case m of
       HTTP_GET \<Rightarrow> Get
     | HTTP_HEAD \<Rightarrow> Head
     | HTTP_POST \<Rightarrow> Post
     | HTTP_PUT \<Rightarrow> Put
     | HTTP_PATCH \<Rightarrow> Patch
     | HTTP_DELETE \<Rightarrow> Delete
     | HTTP_OPTIONS \<Rightarrow> Options
     | HTTP_CONNECT \<Rightarrow> Connect
     | HTTP_TRACE \<Rightarrow> Trace
     | HTTP_OTHER _ \<Rightarrow> Any)"

datatype http_status =
    St_Continue | St_SwitchingProtocols | St_Ok | St_Created | St_Accepted | St_NoContent
  | St_MovedPermanently | St_Found | St_NotModified | St_BadRequest | St_Unauthorized
  | St_Forbidden | St_NotFound | St_MethodNotAllowed | St_RequestTimeout | St_Conflict
  | St_LengthRequired | St_PayloadTooLarge | St_UnsupportedMediaType | St_TooManyRequests
  | St_InternalServerError | St_NotImplemented | St_BadGateway | St_ServiceUnavailable
  | St_GatewayTimeout | St_Other int

fun http_status_text :: "http_status \<Rightarrow> string" where
  "http_status_text St_Continue = ''100 Continue''"
| "http_status_text St_SwitchingProtocols = ''101 Switching Protocols''"
| "http_status_text St_Ok = ''200 OK''"
| "http_status_text St_Created = ''201 Created''"
| "http_status_text St_Accepted = ''202 Accepted''"
| "http_status_text St_NoContent = ''204 No Content''"
| "http_status_text St_MovedPermanently = ''301 Moved Permanently''"
| "http_status_text St_Found = ''302 Found''"
| "http_status_text St_NotModified = ''304 Not Modified''"
| "http_status_text St_BadRequest = ''400 Bad Request''"
| "http_status_text St_Unauthorized = ''401 Unauthorized''"
| "http_status_text St_Forbidden = ''403 Forbidden''"
| "http_status_text St_NotFound = ''404 Not Found''"
| "http_status_text St_MethodNotAllowed = ''405 Method Not Allowed''"
| "http_status_text St_RequestTimeout = ''408 Request Timeout''"
| "http_status_text St_Conflict = ''409 Conflict''"
| "http_status_text St_LengthRequired = ''411 Length Required''"
| "http_status_text St_PayloadTooLarge = ''413 Payload Too Large''"
| "http_status_text St_UnsupportedMediaType = ''415 Unsupported Media Type''"
| "http_status_text St_TooManyRequests = ''429 Too Many Requests''"
| "http_status_text St_InternalServerError = ''500 Internal Server Error''"
| "http_status_text St_NotImplemented = ''501 Not Implemented''"
| "http_status_text St_BadGateway = ''502 Bad Gateway''"
| "http_status_text St_ServiceUnavailable = ''503 Service Unavailable''"
| "http_status_text St_GatewayTimeout = ''504 Gateway Timeout''"
| "http_status_text (St_Other _) = ''500 Internal Server Error''"

section \<open>Header names\<close>

text \<open>\<open>std::tolower\<close> of the C locale.\<close>

definition to_lower :: "char \<Rightarrow> char" where
  "to_lower c = (let n = of_char c :: nat in if 65 \<le> n \<and> n \<le> 90 then char_of (n + 32) else c)"

definition header_name_equals :: "string \<Rightarrow> string \<Rightarrow> bool" where
  "header_name_equals left right =
     (if length left \<noteq> length right then False
      else list_all (\<lambda>(a, b). to_lower a = to_lower b) (zip left right))"

definition is_framing_header :: "string \<Rightarrow> bool" where
  "is_framing_header name \<longleftrightarrow>
     header_name_equals name ''Content-Length'' \<or>
     header_name_equals name ''Transfer-Encoding'' \<or>
     header_name_equals name ''Connection''"

text \<open>\<open>ESPRESSIO_ESP32_WEB_MAX_HEADER_NAME_LENGTH\<close>, at its default.\<close>

definition max_header_name :: nat where "max_header_name = 128"

text \<open>
  \<open>CopyHeaderName\<close>: the terminated copy in its array of 129 bytes, zero-initialised by the caller;
  the outer option is the access check.
\<close>

definition copy_header_name :: "string \<Rightarrow> string option option" where
  "copy_header_name name =
     (if name = [] \<or> length name > max_header_name then Some None
      else do {
        d1 \<leftarrow> blit (replicate (max_header_name + 1) (CHR 0x00)) 0 name;
        d2 \<leftarrow> wr d1 (length name) (CHR 0x00);
        Some (Some d2)
      })"

section \<open>Requests\<close>

text \<open>
  The calls of \<open>esp_http_server\<close> the request makes: \<open>ha_len\<close> is \<open>httpd_req_get_hdr_value_len\<close>,
  \<open>ha_str name size\<close> is \<open>httpd_req_get_hdr_value_str\<close> with the characters it wrote,
  \<open>ha_recv n\<close> is \<open>httpd_req_recv\<close> of at most \<open>n\<close> bytes.
\<close>

record header_api =
  ha_len :: "string \<Rightarrow> nat"
  ha_str :: "string \<Rightarrow> nat \<Rightarrow> esp_err \<times> string"

text \<open>
  The documented behaviour for a request with these headers: the value is copied with a
  terminating NUL into a buffer that has room for both.
\<close>

definition header_api_laws :: "header_api \<Rightarrow> (string \<Rightarrow> string option) \<Rightarrow> bool" where
  "header_api_laws api headers \<longleftrightarrow>
     (\<forall>name. ha_len api name = (case headers name of None \<Rightarrow> 0 | Some v \<Rightarrow> length v)) \<and>
     (\<forall>name size. case headers name of
         None \<Rightarrow> ha_str api name size = (ESP_ERR_NOT_FOUND, [])
       | Some v \<Rightarrow> length v < size \<longrightarrow> ha_str api name size = (ESP_OK, v @ [CHR 0x00]))"

record http_request =
  rq_uri :: "string option"
  rq_method :: native_method
  rq_content_len :: nat
  rq_path :: string
  rq_query :: string
  rq_body_read :: nat

definition new_request :: "string option \<Rightarrow> native_method \<Rightarrow> nat \<Rightarrow> http_request" where
  "new_request uri meth content_len =
     (let target = (case uri of None \<Rightarrow> [] | Some u \<Rightarrow> u);
          found = CHR ''?'' \<in> set target;
          at = length (takeWhile (\<lambda>c. c \<noteq> CHR ''?'') target)
      in \<lparr>rq_uri = uri, rq_method = meth, rq_content_len = content_len,
          rq_path = (if found then take at target else target),
          rq_query = (if found then drop (at + 1) target else []), rq_body_read = 0\<rparr>)"

definition request_method :: "http_request \<Rightarrow> http_method" where
  "request_method r = from_native_method (rq_method r)"

definition request_content_length :: "http_request \<Rightarrow> nat option" where
  "request_content_length r = (if rq_content_len r = 0 then None else Some (rq_content_len r))"

definition has_header :: "header_api \<Rightarrow> string \<Rightarrow> bool option" where
  "has_header api name = do {
     field \<leftarrow> copy_header_name name;
     (case field of
        None \<Rightarrow> Some False
      | Some f \<Rightarrow> Some (ha_len api (c_string f) \<noteq> 0 \<or> fst (ha_str api (c_string f) 1) = ESP_OK))
   }"

definition header_value_length :: "header_api \<Rightarrow> string \<Rightarrow> nat option" where
  "header_value_length api name = do {
     field \<leftarrow> copy_header_name name;
     Some (case field of None \<Rightarrow> 0 | Some f \<Rightarrow> ha_len api (c_string f))
   }"

text \<open>
  \<open>ReadHeader\<close> into a caller's buffer of \<open>capacity\<close> characters (\<open>None\<close> is the null pointer): the
  result, the buffer and \<open>bytesWritten\<close>. What the API writes into a buffer is copied over its
  beginning; writing past its end is an access out of bounds.
\<close>

definition read_header ::
    "header_api \<Rightarrow> string \<Rightarrow> string option \<Rightarrow> (web_result \<times> string option \<times> nat) option" where
  "read_header api name destination = (case destination of
       None \<Rightarrow> Some (fail_with InvalidConfiguration, None, 0)
     | Some buf \<Rightarrow>
         if length buf = 0 then Some (fail_with InvalidConfiguration, Some buf, 0)
         else do {
           field \<leftarrow> copy_header_name name;
           (case field of
              None \<Rightarrow> Some (fail_with InvalidConfiguration, Some buf, 0)
            | Some f \<Rightarrow>
                let len = ha_len api (c_string f)
                in if len > length buf then Some (fail_with ResourceExhausted, Some buf, 0)
                else if length buf > len then
                  (case ha_str api (c_string f) (length buf) of (err, written) \<Rightarrow> do {
                     buf' \<leftarrow> blit buf 0 written;
                     if err \<noteq> ESP_OK then Some (http_result err, Some buf', 0)
                     else Some (Success, Some buf', len)
                   })
                else
                  (case ha_str api (c_string f) (len + 1) of (err, written) \<Rightarrow> do {
                     scratch \<leftarrow> blit (replicate (len + 1) (CHR 0x00)) 0 written;
                     if err \<noteq> ESP_OK then Some (http_result err, Some buf, 0)
                     else if len = 0 then Some (Success, Some buf, len)
                     else do {
                       source \<leftarrow> slice scratch 0 len;
                       buf' \<leftarrow> blit buf 0 source;
                       Some (Success, Some buf', len)
                     }
                   }))
         })"

text \<open>
  \<open>ReadBody\<close>: \<open>recv n\<close> answers \<open>httpd_req_recv\<close> for at most \<open>n\<close> bytes, with the bytes
  received or an error code. The timeout code is a case of its own in the source, with the same
  result as any other error.
\<close>

datatype receive_answer = Received string | ReceiveError int

record read_result =
  rr_result :: web_result
  rr_bytes :: string
  rr_end :: bool

definition read_body :: "(nat \<Rightarrow> receive_answer) \<Rightarrow> nat option \<Rightarrow> http_request \<Rightarrow> read_result \<times> http_request" where
  "read_body recv capacity r = (case capacity of
       None \<Rightarrow> (\<lparr>rr_result = fail_with InvalidConfiguration, rr_bytes = [], rr_end = False\<rparr>, r)
     | Some c \<Rightarrow>
         if c = 0
         then (\<lparr>rr_result = fail_with InvalidConfiguration, rr_bytes = [], rr_end = False\<rparr>, r)
         else if rq_body_read r \<ge> rq_content_len r
         then (\<lparr>rr_result = Success, rr_bytes = [], rr_end = True\<rparr>, r)
         else
           let remaining = rq_content_len r - rq_body_read r; requested = min c remaining
           in (case recv requested of
               Received bs \<Rightarrow>
                 if bs = [] then (\<lparr>rr_result = fail_with Closed, rr_bytes = [], rr_end = False\<rparr>, r)
                 else
                   let read = rq_body_read r + length bs
                   in (\<lparr>rr_result = Success, rr_bytes = bs, rr_end = (read \<ge> rq_content_len r)\<rparr>,
                       r\<lparr>rq_body_read := read\<rparr>)
             | ReceiveError e \<Rightarrow>
                 (\<lparr>rr_result = Failure ConnectionFailure (Some (NativeInt e)), rr_bytes = [],
                   rr_end = False\<rparr>, r)))"

section \<open>Responses\<close>

record http_response =
  hr_method :: native_method
  hr_keep_alive :: bool
  hr_begun :: bool
  hr_completed :: bool
  hr_known :: bool
  hr_status :: http_status
  hr_expected :: "size32 option"
  hr_written :: size32
  hr_content_type :: string
  hr_headers :: "(string \<times> string) list"

definition fresh_response :: "native_method \<Rightarrow> bool \<Rightarrow> http_response" where
  "fresh_response meth keep_alive =
     \<lparr>hr_method = meth, hr_keep_alive = keep_alive, hr_begun = False, hr_completed = False,
      hr_known = False, hr_status = St_Ok, hr_expected = None, hr_written = 0,
      hr_content_type = [], hr_headers = []\<rparr>"

text \<open>What goes out: bytes on the connection, or calls that leave the framing to the server.\<close>

datatype http_output =
    RawBytes string
  | NativeStatus string
  | NativeType string
  | NativeHeader string string
  | NativeChunk string

definition set_status :: "http_status \<Rightarrow> http_response \<Rightarrow> web_result \<times> http_response" where
  "set_status status r =
     (if hr_begun r then (fail_with InvalidState, r) else (Success, r\<lparr>hr_status := status\<rparr>))"

fun replace_header :: "string \<Rightarrow> string \<Rightarrow> (string \<times> string) list \<Rightarrow> (string \<times> string) list option" where
  "replace_header name value [] = None"
| "replace_header name value ((n, v) # hs) =
     (if header_name_equals n name then Some ((n, value) # hs)
      else map_option ((#) (n, v)) (replace_header name value hs))"

definition set_header :: "string \<Rightarrow> string \<Rightarrow> http_response \<Rightarrow> web_result \<times> http_response" where
  "set_header name value r =
     (if hr_begun r \<or> name = [] then (fail_with InvalidState, r)
      else if is_framing_header name then (fail_with InvalidConfiguration, r)
      else if header_name_equals name ''Content-Type'' then (Success, r\<lparr>hr_content_type := value\<rparr>)
      else (case replace_header name value (hr_headers r) of
          Some hs \<Rightarrow> (Success, r\<lparr>hr_headers := hs\<rparr>)
        | None \<Rightarrow> (Success, r\<lparr>hr_headers := hr_headers r @ [(name, value)]\<rparr>)))"

text \<open>
  \<open>SendRaw\<close>: \<open>answers i size\<close> is what the \<open>i\<close>-th \<open>httpd_send\<close> of the connection returns for
  \<open>size\<close> bytes. It never claims to have sent more than it was given; if it did, the loop would
  run past the data, and the model yields \<open>None\<close>. Returned are the result, the bytes sent, and the
  number of the next call.
\<close>

function send_raw ::
    "(nat \<Rightarrow> nat \<Rightarrow> int) \<Rightarrow> nat \<Rightarrow> string \<Rightarrow> (web_result \<times> string \<times> nat) option" where
  "send_raw answers i data =
     (if data = [] then Some (Success, [], i)
      else
        let sent = answers i (length data)
        in if sent \<le> 0 then Some (Failure ConnectionFailure (Some (NativeInt sent)), [], Suc i)
        else if int (length data) < sent then None
        else do {
          (res, out, j) \<leftarrow> send_raw answers (Suc i) (drop (nat sent) data);
          Some (res, take (nat sent) data @ out, j)
        })"
  by pat_completeness auto
termination by (relation "measure (\<lambda>(_, _, data). length data)") auto

declare send_raw.simps [simp del]

definition crlf :: string where "crlf = [CHR 0x0D, CHR 0x0A]"

text \<open>Decimal digits, the format \<open>%llu\<close>.\<close>

fun decimal :: "nat \<Rightarrow> string" where
  "decimal n = (if n < 10 then [char_of (48 + n)] else decimal (n div 10) @ [char_of (48 + n mod 10)])"

declare decimal.simps [simp del]

definition header_line :: "string \<times> string \<Rightarrow> string" where
  "header_line h = fst h @ '': '' @ snd h @ crlf"

definition known_length_head :: "size32 \<Rightarrow> http_response \<Rightarrow> string option" where
  "known_length_head content_length r =
     (let text = decimal (unat content_length)
      in if length text \<ge> 32 then None
      else Some (''HTTP/1.1 '' @ http_status_text (hr_status r) @ crlf @ ''Content-Length: '' @ text
        @ crlf
        @ (if hr_content_type r \<noteq> [] then ''Content-Type: '' @ hr_content_type r @ crlf else [])
        @ concat (map header_line (hr_headers r))
        @ (if \<not> hr_keep_alive r then ''Connection: close'' @ crlf else [])
        @ crlf))"

text \<open>
  The answers to one operation: of \<open>httpd_send\<close> with the number of its next call, and of the other
  calls, in their order (\<open>re_set i\<close> for the \<open>i\<close>-th of the calls that set status, type and headers).
\<close>

record response_env =
  re_send :: "nat \<Rightarrow> nat \<Rightarrow> int"
  re_next :: nat
  re_set :: "nat \<Rightarrow> esp_err"
  re_chunk :: esp_err

text \<open>The native calls up to the first that fails, and the error or \<open>ESP_OK\<close>.\<close>

fun native_calls :: "(nat \<Rightarrow> esp_err) \<Rightarrow> nat \<Rightarrow> http_output list \<Rightarrow> esp_err \<times> http_output list" where
  "native_calls answers i [] = (ESP_OK, [])"
| "native_calls answers i (c # cs) =
     (if answers i \<noteq> ESP_OK then (answers i, [c])
      else (let (e, done) = native_calls answers (Suc i) cs in (e, c # done)))"

definition begin_calls :: "http_response \<Rightarrow> http_output list" where
  "begin_calls r =
     NativeStatus (http_status_text (hr_status r))
     # (if hr_content_type r \<noteq> [] then [NativeType (hr_content_type r)] else [])
     @ map (\<lambda>h. NativeHeader (fst h) (snd h)) (hr_headers r)
     @ (if \<not> hr_keep_alive r then [NativeHeader ''Connection'' ''close''] else [])"

definition response_begin ::
    "response_env \<Rightarrow> size32 option \<Rightarrow> http_response
      \<Rightarrow> (web_result \<times> http_response \<times> http_output list \<times> nat) option" where
  "response_begin env content_length r =
     (if hr_begun r then Some (fail_with InvalidState, r, [], re_next env)
      else
        let r1 = r\<lparr>hr_expected := content_length, hr_known := (content_length \<noteq> None)\<rparr>
        in (case content_length of
            Some n \<Rightarrow>
              (case known_length_head n r1 of
                 None \<Rightarrow> Some (fail_with PlatformFailure, r1, [], re_next env)
               | Some text \<Rightarrow> do {
                   (res, out, next) \<leftarrow> send_raw (re_send env) (re_next env) text;
                   if res \<noteq> Success then Some (res, r1, [RawBytes out], next)
                   else Some (Success, r1\<lparr>hr_begun := True\<rparr>, [RawBytes out], next)
                 })
          | None \<Rightarrow>
              let (e, calls) = native_calls (re_set env) 0 (begin_calls r1)
              in if e \<noteq> ESP_OK then Some (http_result e, r1, calls, re_next env)
                 else Some (Success, r1\<lparr>hr_begun := True\<rparr>, calls, re_next env)))"

definition response_write ::
    "response_env \<Rightarrow> string option \<Rightarrow> size32 \<Rightarrow> http_response
      \<Rightarrow> (web_result \<times> http_response \<times> http_output list \<times> nat) option" where
  "response_write env data count r =
     (if \<not> hr_begun r \<or> hr_completed r \<or> data = None \<or> count = 0
      then Some (fail_with InvalidState, r, [], re_next env)
      else if (case hr_expected r of None \<Rightarrow> False | Some e \<Rightarrow> hr_written r + count > e)
      then Some (fail_with ProtocolError, r, [], re_next env)
      else if hr_method r = HTTP_HEAD
      then Some (Success, r\<lparr>hr_written := hr_written r + count\<rparr>, [], re_next env)
      else do {
        content \<leftarrow> slice (the data) 0 (unat count);
        (res, out, next) \<leftarrow>
          (if hr_known r
           then map_option (\<lambda>(res, out, j). (res, [RawBytes out], j))
             (send_raw (re_send env) (re_next env) content)
           else Some (if re_chunk env = ESP_OK then Success else http_result (re_chunk env),
             [NativeChunk content], re_next env));
        if res \<noteq> Success then Some (res, r, out, next)
        else Some (Success, r\<lparr>hr_written := hr_written r + count\<rparr>, out, next)
      })"

definition response_complete ::
    "response_env \<Rightarrow> http_response \<Rightarrow> web_result \<times> http_response \<times> http_output list" where
  "response_complete env r =
     (if \<not> hr_begun r \<or> hr_completed r
      then (if hr_completed r then Success else fail_with InvalidState, r, [])
      else if (case hr_expected r of None \<Rightarrow> False | Some e \<Rightarrow> hr_written r \<noteq> e)
      then (fail_with ProtocolError, r, [])
      else if \<not> hr_known r
      then (if re_chunk env \<noteq> ESP_OK then (http_result (re_chunk env), r, [NativeChunk []])
            else (Success, r\<lparr>hr_completed := True\<rparr>, [NativeChunk []]))
      else (Success, r\<lparr>hr_completed := True\<rparr>, []))"

definition response_abort :: "http_response \<Rightarrow> http_response" where
  "response_abort r = r\<lparr>hr_completed := True\<rparr>"

section \<open>Header names\<close>

lemma header_name_equals_iff: "header_name_equals a b \<longleftrightarrow> map to_lower a = map to_lower b"
  by (auto simp: header_name_equals_def list_all_iff list_eq_iff_nth_eq set_zip dest: arg_cong [of _ _ length])

lemma copy_header_name_eq:
  "copy_header_name name =
     (if name = [] \<or> length name > 128 then Some None
      else Some (Some (name @ replicate (129 - length name) (CHR 0x00))))"
proof (cases "name = [] \<or> length name > 128")
  case False
  then obtain k where k: "129 - length name = Suc k" by (cases "129 - length name") auto
  have "blit (replicate 129 (CHR 0x00)) 0 name = Some (name @ replicate (129 - length name) (CHR 0x00))"
    using False by (simp add: blit_def)
  moreover have "wr (name @ replicate (129 - length name) (CHR 0x00)) (length name) (CHR 0x00)
      = Some (name @ replicate (129 - length name) (CHR 0x00))"
    by (simp add: k wr_def)
  ultimately show ?thesis using False by (simp add: copy_header_name_def max_header_name_def)
qed (auto simp: copy_header_name_def max_header_name_def)

lemma c_string_of_name:
  "CHR 0x00 \<notin> set name \<Longrightarrow> length name \<le> 128 \<Longrightarrow>
     c_string (name @ replicate (129 - length name) (CHR 0x00)) = name"
proof -
  assume a: "CHR 0x00 \<notin> set name" "length name \<le> 128"
  then obtain k where k: "129 - length name = Suc k" by (cases "129 - length name") auto
  have "takeWhile (\<lambda>c. c \<noteq> CHR 0x00) (name @ CHR 0x00 # t) = name" for t
    using a(1) by (induction name) auto
  then show ?thesis by (simp add: c_string_def k)
qed

section \<open>Requests\<close>

lemma new_request_target:
  fixes u :: string and m :: native_method and n :: nat
  defines "r \<equiv> new_request (Some u) m n"
  shows "CHR ''?'' \<notin> set (rq_path r) \<and>
    u = rq_path r @ (if CHR ''?'' \<in> set u then CHR ''?'' # rq_query r else []) \<and>
    (CHR ''?'' \<notin> set u \<longrightarrow> rq_query r = [])"
proof (cases "CHR ''?'' \<in> set u")
  case True
  then obtain a b where u: "u = a @ CHR ''?'' # b" "CHR ''?'' \<notin> set a"
    by (meson split_list_first)
  have "takeWhile (\<lambda>c. c \<noteq> CHR ''?'') (a @ CHR ''?'' # b) = a" using u(2) by (induction a) auto
  then show ?thesis using u by (simp add: r_def new_request_def)
qed (simp add: r_def new_request_def)

lemma read_header_cases:
  assumes laws: "header_api_laws api headers"
    and name: "name \<noteq> []" "length name \<le> 128" "CHR 0x00 \<notin> set name" and buf: "buf \<noteq> []"
  shows "read_header api name (Some buf) = Some (case headers name of
      None \<Rightarrow> (Failure NotFound (Some (NativeEsp ESP_ERR_NOT_FOUND)), Some buf, 0)
    | Some v \<Rightarrow>
        if length v > length buf then (fail_with ResourceExhausted, Some buf, 0)
        else (Success, Some (v @ (if length v < length buf
          then CHR 0x00 # drop (length v + 1) buf else [])), length v))"
proof -
  have field: "copy_header_name name = Some (Some (name @ replicate (129 - length name) (CHR 0x00)))"
    using name by (simp add: copy_header_name_eq)
  have c: "c_string (name @ replicate (129 - length name) (CHR 0x00)) = name"
    using name by (simp add: c_string_of_name)
  have L: "ha_len api name = (case headers name of None \<Rightarrow> 0 | Some v \<Rightarrow> length v)"
    "case headers name of
         None \<Rightarrow> ha_str api name k = (ESP_ERR_NOT_FOUND, [])
       | Some v \<Rightarrow> length v < k \<longrightarrow> ha_str api name k = (ESP_OK, v @ [CHR 0x00])" for k
    using laws unfolding header_api_laws_def by blast+
  show ?thesis
  proof (cases "headers name")
    case None
    then have "ha_len api name = 0" "\<And>k. ha_str api name k = (ESP_ERR_NOT_FOUND, [])"
      using L by simp_all
    then show ?thesis
      using None buf by (simp add: read_header_def field c blit_def http_result_def)
  next
    case (Some v)
    then have "ha_len api name = length v"
      "\<And>k. length v < k \<Longrightarrow> ha_str api name k = (ESP_OK, v @ [CHR 0x00])"
      using L by simp_all
    then show ?thesis
      using Some buf
      by (cases "length v" "length buf" rule: linorder_cases)
        (auto simp: read_header_def field c blit_def Let_def)
  qed
qed

text \<open>
  Reading the body in pieces. \<open>delivery body at k n\<close> is a connection that holds \<open>body\<close>, of which
  \<open>at\<close> bytes have been taken, and gives at most \<open>k\<close> bytes to a call that asks for \<open>n\<close>, or an
  error (\<open>None\<close>).
\<close>

definition delivery :: "string \<Rightarrow> nat \<Rightarrow> nat option \<Rightarrow> nat \<Rightarrow> receive_answer" where
  "delivery body at k n = (case k of None \<Rightarrow> ReceiveError (-1)
     | Some k \<Rightarrow> Received (take (min n k) (drop at body)))"

fun read_all :: "string \<Rightarrow> nat option list \<Rightarrow> nat \<Rightarrow> http_request \<Rightarrow> string \<times> bool \<times> http_request" where
  "read_all body [] capacity r = ([], False, r)"
| "read_all body (k # ks) capacity r =
     (let (res, r1) = read_body (delivery body (rq_body_read r) k) (Some capacity) r
      in if rr_result res \<noteq> Success then ([], False, r1)
      else if rr_end res then (rr_bytes res, True, r1)
      else (let (bs, e, r2) = read_all body ks capacity r1 in (rr_bytes res @ bs, e, r2)))"

lemma read_body_serves:
  assumes "read_body (delivery body (rq_body_read r) k) (Some c) r = (res, r')"
    and "rq_content_len r = length body" "rq_body_read r \<le> length body" "0 < c"
  shows "rr_bytes res = take (rq_body_read r' - rq_body_read r) (drop (rq_body_read r) body)"
    "rq_body_read r \<le> rq_body_read r'" "rq_body_read r' \<le> length body" "rq_content_len r' = length body"
    "length (rr_bytes res) \<le> c"
    "rr_end res \<longleftrightarrow> rr_result res = Success \<and> rq_body_read r' = length body"
    "rr_result res \<noteq> Success \<Longrightarrow> r' = r \<and> (k = None \<or> k = Some 0)"
    "rr_result res = Success \<Longrightarrow> \<not> rr_end res \<Longrightarrow> rq_body_read r < rq_body_read r'"
  using assms
  by (auto simp: read_body_def delivery_def Let_def split: if_splits option.splits)

lemma read_all_prefix:
  "read_all body ks c r = (bs, fin, r') \<Longrightarrow> 0 < c \<Longrightarrow> rq_content_len r = length body \<Longrightarrow>
     rq_body_read r \<le> length body \<Longrightarrow>
     bs = take (rq_body_read r' - rq_body_read r) (drop (rq_body_read r) body) \<and>
     rq_body_read r \<le> rq_body_read r' \<and> rq_body_read r' \<le> length body \<and>
     (fin \<longrightarrow> rq_body_read r' = length body) \<and>
     (None \<notin> set ks \<longrightarrow> Some 0 \<notin> set ks \<longrightarrow> length body - rq_body_read r < length ks \<longrightarrow> fin)"
proof (induction ks arbitrary: r bs)
  case (Cons k ks)
  obtain res r1 where one: "read_body (delivery body (rq_body_read r) k) (Some c) r = (res, r1)"
    by fastforce
  note R = read_body_serves [OF one Cons.prems(3,4,2)]
  consider (failed) "rr_result res \<noteq> Success" | (ended) "rr_result res = Success" "rr_end res"
    | (onward) "rr_result res = Success" "\<not> rr_end res" by blast
  then show ?case
  proof cases
    case failed
    then have "r1 = r" "k = None \<or> k = Some 0" using R(7) by auto
    then show ?thesis using failed Cons.prems one by auto
  next
    case ended
    then show ?thesis using Cons.prems(1) one R by auto
  next
    case onward
    then obtain bs2 where rest: "read_all body ks c r1 = (bs2, fin, r')" "bs = rr_bytes res @ bs2"
      using Cons.prems(1) one by (auto split: prod.splits)
    have ih: "bs2 = take (rq_body_read r' - rq_body_read r1) (drop (rq_body_read r1) body) \<and>
        rq_body_read r1 \<le> rq_body_read r' \<and> rq_body_read r' \<le> length body \<and>
        (fin \<longrightarrow> rq_body_read r' = length body) \<and>
        (None \<notin> set ks \<longrightarrow> Some 0 \<notin> set ks \<longrightarrow> length body - rq_body_read r1 < length ks \<longrightarrow> fin)"
      by (rule Cons.IH [OF rest(1) Cons.prems(2) R(4,3)])
    let ?a = "rq_body_read r" and ?b = "rq_body_read r1" and ?c = "rq_body_read r'"
    have "take (?b - ?a) (drop ?a body) @ take (?c - ?b) (drop ?b body) = take (?c - ?a) (drop ?a body)"
    proof -
      have "drop ?b body = drop (?b - ?a) (drop ?a body)" using R(2) by simp
      moreover have "?c - ?a = (?b - ?a) + (?c - ?b)" using ih R(2) by simp
      ultimately show ?thesis by (simp only: take_add)
    qed
    then show ?thesis using R(1,2,3) R(8) [OF onward] ih rest(2) by auto
  qed
qed simp

section \<open>Lines\<close>

fun crlf_lines :: "string \<Rightarrow> string list" where
  "crlf_lines [] = [[]]"
| "crlf_lines [c] = [[c]]"
| "crlf_lines (a # b # s) =
     (if a = CHR 0x0D \<and> b = CHR 0x0A then [] # crlf_lines s
      else (case crlf_lines (b # s) of [] \<Rightarrow> [[a]] | l # ls \<Rightarrow> (a # l) # ls))"

lemma crlf_lines_append: "CHR 0x0D \<notin> set l \<Longrightarrow> crlf_lines (l @ crlf @ s) = l # crlf_lines s"
proof (induction l)
  case Nil
  then show ?case by (simp add: crlf_def)
next
  case (Cons a l)
  then show ?case by (cases l) (auto simp: crlf_def)
qed

lemma crlf_lines_concat:
  "list_all (\<lambda>l. CHR 0x0D \<notin> set l) ls \<Longrightarrow>
     crlf_lines (concat (map (\<lambda>l. l @ crlf) ls) @ s) = ls @ crlf_lines s"
  by (induction ls) (auto simp: crlf_lines_append)

section \<open>Numbers\<close>

definition read_decimal :: "string \<Rightarrow> nat" where
  "read_decimal s = foldl (\<lambda>a c. a * 10 + (of_char c - 48)) 0 s"

lemma read_decimal_decimal: "read_decimal (decimal n) = n"
proof (induction n rule: decimal.induct)
  case (1 n)
  show ?case
  proof (cases "n < 10")
    case True
    then show ?thesis by (subst decimal.simps) (simp add: read_decimal_def)
  next
    case False
    have "read_decimal (decimal n) = read_decimal (decimal (n div 10)) * 10 + n mod 10"
      using False by (subst decimal.simps) (simp add: read_decimal_def)
    then show ?thesis using 1 False by simp
  qed
qed

lemma decimal_digits: "c \<in> set (decimal n) \<Longrightarrow> 48 \<le> (of_char c :: nat) \<and> (of_char c :: nat) \<le> 57"
proof (induction n rule: decimal.induct)
  case (1 n)
  show ?case
  proof (cases "n < 10")
    case True
    then show ?thesis using "1.prems" by (subst (asm) decimal.simps) auto
  next
    case False
    then show ?thesis using 1 by (subst (asm) (2) decimal.simps) auto
  qed
qed

lemma length_decimal: "n < 10 ^ k \<Longrightarrow> 0 < k \<Longrightarrow> length (decimal n) \<le> k"
proof (induction n arbitrary: k rule: decimal.induct)
  case (1 n)
  show ?case
  proof (cases "n < 10")
    case True
    then show ?thesis using "1.prems" by (subst decimal.simps) simp
  next
    case False
    then obtain j where j: "k = Suc j" "0 < j"
      using "1.prems" by (cases k; cases "k - 1") auto
    then have "n div 10 < 10 ^ j" using "1.prems" by (simp add: less_mult_imp_div_less mult.commute)
    then have "length (decimal (n div 10)) \<le> j" using 1 False j by simp
    then show ?thesis using False j by (subst decimal.simps) simp
  qed
qed

lemma no_cr_in_decimal [simp]: "CHR 0x0D \<notin> set (decimal n)"
  using decimal_digits [of "CHR 0x0D" n] by auto

lemma decimal_u32_fits: "length (decimal (unat (n :: size32))) \<le> 10"
proof -
  have "unat n < 10 ^ 10"
    using unsigned_less [of n, where ?'a = nat] by simp
  then show ?thesis by (rule length_decimal) simp
qed

section \<open>The head of a response\<close>

definition head_lines :: "size32 \<Rightarrow> http_response \<Rightarrow> string list" where
  "head_lines n r =
     [''HTTP/1.1 '' @ http_status_text (hr_status r), ''Content-Length: '' @ decimal (unat n)]
     @ (if hr_content_type r \<noteq> [] then [''Content-Type: '' @ hr_content_type r] else [])
     @ map (\<lambda>h. fst h @ '': '' @ snd h) (hr_headers r)
     @ (if \<not> hr_keep_alive r then [''Connection: close''] else [])"

lemma known_length_head_lines:
  "known_length_head n r = Some (concat (map (\<lambda>l. l @ crlf) (head_lines n r)) @ crlf)"
proof -
  have "header_line = (\<lambda>l. l @ crlf) \<circ> (\<lambda>h. fst h @ '': '' @ snd h)"
    by (simp add: header_line_def fun_eq_iff)
  then have "concat (map header_line hs) =
      concat (map (\<lambda>l. l @ crlf) (map (\<lambda>h. fst h @ '': '' @ snd h) hs))" for hs
    by (simp only: map_map)
  then show ?thesis
    using decimal_u32_fits [of n] by (simp add: known_length_head_def head_lines_def del: map_map)
qed

lemma no_cr_in_status [simp]: "CHR 0x0D \<notin> set (http_status_text s)"
  by (cases s) simp_all

definition no_cr :: "string \<Rightarrow> bool" where
  "no_cr s \<longleftrightarrow> CHR 0x0D \<notin> set s"

lemma crlf_lines_head:
  assumes "no_cr (hr_content_type r)" "list_all (\<lambda>h. no_cr (fst h) \<and> no_cr (snd h)) (hr_headers r)"
    and "known_length_head n r = Some head"
  shows "crlf_lines (head @ body) = head_lines n r @ [] # crlf_lines body"
proof -
  have head: "head = concat (map (\<lambda>l. l @ crlf) (head_lines n r)) @ crlf"
    using assms(3) by (simp add: known_length_head_lines)
  have "list_all (\<lambda>l. CHR 0x0D \<notin> set l) (head_lines n r)"
    using assms(1,2) by (auto simp: head_lines_def no_cr_def list_all_iff)
  moreover have "crlf_lines (crlf @ body) = [] # crlf_lines body"
    using crlf_lines_append [of "[]" body] by simp
  ultimately show ?thesis unfolding head by (simp add: crlf_lines_concat)
qed

section \<open>Sending\<close>

text \<open>The native \<open>httpd_send\<close> never claims more bytes than it was given; it may take fewer, or fail.\<close>

definition never_over :: "(nat \<Rightarrow> nat \<Rightarrow> int) \<Rightarrow> bool" where
  "never_over send \<longleftrightarrow> (\<forall>i n. send i n \<le> int n)"

lemma send_raw_total: "never_over send \<Longrightarrow> \<exists>res out j. send_raw send i data = Some (res, out, j)"
proof (induction send i data rule: send_raw.induct)
  case (1 send i data)
  then have le: "\<not> int (length data) < send i (length data)" by (simp add: never_over_def not_less)
  show ?case
  proof (cases "data = [] \<or> send i (length data) \<le> 0")
    case False
    then obtain res out j where
      "send_raw send (Suc i) (drop (nat (send i (length data))) data) = Some (res, out, j)"
      using "1.IH" [OF _ refl _ le "1.prems"] by auto
    then show ?thesis using False le by (subst send_raw.simps) simp
  qed (subst send_raw.simps, auto)
qed

lemma send_raw_outcome:
  "send_raw send i data = Some (res, out, j) \<Longrightarrow>
     prefix out data \<and> (res = Success \<longleftrightarrow> out = data)"
proof (induction send i data arbitrary: res out j rule: send_raw.induct)
  case (1 send i data)
  show ?case
  proof (cases "data = [] \<or> send i (length data) \<le> 0")
    case True
    then show ?thesis using "1.prems" by (subst (asm) send_raw.simps) (auto split: if_splits)
  next
    case False
    let ?k = "nat (send i (length data))"
    obtain out' where o: "send_raw send (Suc i) (drop ?k data) = Some (res, out', j)"
      "out = take ?k data @ out'" "\<not> int (length data) < send i (length data)"
      using "1.prems" False by (subst (asm) send_raw.simps)
        (auto simp: Let_def bind_eq_Some_conv split: if_splits)
    have ih: "prefix out' (drop ?k data) \<and> (res = Success \<longleftrightarrow> out' = drop ?k data)"
      using "1.IH" [OF _ refl _ o(3) o(1)] False by simp
    then obtain t where t: "drop ?k data = out' @ t" by (auto simp: prefix_def)
    then have "data = out @ t" using o(2) append_take_drop_id [of ?k data] by simp
    then show ?thesis using ih t by simp
  qed
qed

lemma send_raw_result:
  "send_raw send i data = Some (res, out, j) \<Longrightarrow> res = Success \<or> (\<exists>e. res = Failure ConnectionFailure e)"
proof (induction send i data arbitrary: res out j rule: send_raw.induct)
  case (1 send i data)
  show ?case
    using "1.prems" "1.IH"
    by (subst (asm) send_raw.simps) (auto simp: Let_def bind_eq_Some_conv split: if_splits)
qed

section \<open>Exchanges\<close>

datatype http_op =
    StatusOp http_status
  | HeaderOp string string
  | BeginOp "size32 option"
  | WriteOp "string option" size32
  | CompleteOp
  | AbortOp

text \<open>A response, what has gone out so far, and the number of the next \<open>httpd_send\<close>.\<close>

record http_exchange =
  ex_response :: http_response
  ex_output :: "http_output list"
  ex_next :: nat

definition no_output :: "http_exchange \<Rightarrow> web_result \<times> http_response \<Rightarrow> web_result \<times> http_exchange" where
  "no_output x a = (fst a, x\<lparr>ex_response := snd a\<rparr>)"

definition with_output ::
    "http_exchange \<Rightarrow> web_result \<times> http_response \<times> http_output list \<times> nat \<Rightarrow> web_result \<times> http_exchange" where
  "with_output x a = (case a of (res, r, out, next) \<Rightarrow>
     (res, x\<lparr>ex_response := r, ex_output := ex_output x @ out, ex_next := next\<rparr>))"

fun run_http_op ::
    "(nat \<Rightarrow> nat \<Rightarrow> int) \<Rightarrow> (nat \<Rightarrow> esp_err) \<Rightarrow> esp_err \<Rightarrow> http_op \<Rightarrow> http_exchange
      \<Rightarrow> (web_result \<times> http_exchange) option" where
  "run_http_op send native chunk (StatusOp s) x = Some (no_output x (set_status s (ex_response x)))"
| "run_http_op send native chunk (HeaderOp n v) x = Some (no_output x (set_header n v (ex_response x)))"
| "run_http_op send native chunk (BeginOp len) x =
     map_option (with_output x)
       (response_begin \<lparr>re_send = send, re_next = ex_next x, re_set = native, re_chunk = chunk\<rparr>
         len (ex_response x))"
| "run_http_op send native chunk (WriteOp data count) x =
     map_option (with_output x)
       (response_write \<lparr>re_send = send, re_next = ex_next x, re_set = native, re_chunk = chunk\<rparr>
         data count (ex_response x))"
| "run_http_op send native chunk CompleteOp x =
     (case response_complete \<lparr>re_send = send, re_next = ex_next x, re_set = native, re_chunk = chunk\<rparr>
         (ex_response x) of (res, r, out) \<Rightarrow> Some (with_output x (res, r, out, ex_next x)))"
| "run_http_op send native chunk AbortOp x =
     Some (no_output x (Success, response_abort (ex_response x)))"

text \<open>
  The exchanges any sequence of operations reaches on such a connection. Declared lengths and
  writes are below 2 GiB; the caller's buffers hold what it says.
\<close>

definition sane_op :: "http_op \<Rightarrow> bool" where
  "sane_op p = (case p of
       BeginOp (Some n) \<Rightarrow> unat n < 2 ^ 31
     | WriteOp (Some d) count \<Rightarrow> unat count \<le> length d \<and> unat count < 2 ^ 31
     | _ \<Rightarrow> True)"

inductive exchange_reach :: "(nat \<Rightarrow> nat \<Rightarrow> int) \<Rightarrow> native_method \<Rightarrow> bool \<Rightarrow> http_exchange \<Rightarrow> bool"
  for send meth keep_alive where
  start: "exchange_reach send meth keep_alive
    \<lparr>ex_response = fresh_response meth keep_alive, ex_output = [], ex_next = 0\<rparr>"
| step: "exchange_reach send meth keep_alive x \<Longrightarrow> sane_op p \<Longrightarrow>
    run_http_op send native chunk p x = Some (res, x') \<Longrightarrow> exchange_reach send meth keep_alive x'"

fun wire_bytes :: "http_output list \<Rightarrow> string" where
  "wire_bytes [] = []"
| "wire_bytes (RawBytes s # os) = s @ wire_bytes os"
| "wire_bytes (_ # os) = wire_bytes os"

lemma wire_bytes_append [simp]: "wire_bytes (xs @ ys) = wire_bytes xs @ wire_bytes ys"
  by (induction xs rule: wire_bytes.induct) auto

lemma wire_bytes_native [simp]: "native_calls answers i cs = (e, out) \<Longrightarrow>
    wire_bytes cs = [] \<Longrightarrow> wire_bytes out = []"
proof (induction cs arbitrary: i out)
  case (Cons c cs)
  then show ?case by (cases c) (auto split: if_splits prod.splits)
qed simp

lemma wire_bytes_begin_calls [simp]: "wire_bytes (begin_calls r) = []"
proof -
  have "wire_bytes (map (\<lambda>h. NativeHeader (fst h) (snd h)) hs) = []" for hs
    by (induction hs) auto
  then show ?thesis by (simp add: begin_calls_def)
qed

lemma known_length_head_update [simp]:
  "known_length_head n (r\<lparr>hr_begun := b\<rparr>) = known_length_head n r"
  "known_length_head n (r\<lparr>hr_completed := b\<rparr>) = known_length_head n r"
  "known_length_head n (r\<lparr>hr_written := w\<rparr>) = known_length_head n r"
  "known_length_head n (r\<lparr>hr_expected := e\<rparr>) = known_length_head n r"
  "known_length_head n (r\<lparr>hr_known := b\<rparr>) = known_length_head n r"
  by (simp_all add: known_length_head_lines head_lines_def)

lemma unat_sum_no_wrap:
  "unat (a :: size32) < 2 ^ 31 \<Longrightarrow> unat (b :: size32) < 2 ^ 31 \<Longrightarrow> unat (a + b) = unat a + unat b"
  by (simp add: unat_add_lem [THEN iffD1])

text \<open>A run of operations, each with the answers of the other native calls, and its log.\<close>

type_synonym http_log = "(http_op \<times> web_result) list"

fun run_exchange ::
    "(nat \<Rightarrow> nat \<Rightarrow> int) \<Rightarrow> (http_op \<times> (nat \<Rightarrow> esp_err) \<times> esp_err) list \<Rightarrow> http_exchange
      \<Rightarrow> (http_log \<times> http_exchange) option" where
  "run_exchange send [] x = Some ([], x)"
| "run_exchange send ((p, native, chunk) # ps) x = do {
     (res, x1) \<leftarrow> run_http_op send native chunk p x;
     (log, x2) \<leftarrow> run_exchange send ps x1;
     Some ((p, res) # log, x2)
   }"

text \<open>The bytes an operation offers for the body, and those of the writes that succeeded.\<close>

definition offered :: "http_op \<Rightarrow> string" where
  "offered p = (case p of WriteOp (Some d) count \<Rightarrow> take (unat count) d | _ \<Rightarrow> [])"

definition written_data :: "http_log \<Rightarrow> string" where
  "written_data log = concat (map (\<lambda>(p, res). if res = Success then offered p else []) log)"

definition connection_failed :: "http_op \<times> web_result \<Rightarrow> bool" where
  "connection_failed e \<longleftrightarrow> (case snd e of Failure ConnectionFailure _ \<Rightarrow> True | _ \<Rightarrow> False)"

lemma written_data_simps [simp]:
  "written_data [] = []" "written_data (a @ b) = written_data a @ written_data b"
  "written_data [(p, res)] = (if res = Success then offered p else [])"
  by (simp_all add: written_data_def)

definition body_on_wire :: "native_method \<Rightarrow> string \<Rightarrow> string" where
  "body_on_wire meth data = (if meth = HTTP_HEAD then [] else data)"

text \<open>What holds of a response and the log of its calls while no \<open>httpd_send\<close> has failed.\<close>

definition exact_inv :: "native_method \<Rightarrow> http_log \<Rightarrow> http_exchange \<Rightarrow> bool" where
  "exact_inv meth log x \<longleftrightarrow> (let r = ex_response x; wire = wire_bytes (ex_output x) in
     hr_method r = meth \<and> hr_known r = (hr_expected r \<noteq> None) \<and>
     (\<not> hr_begun r \<longrightarrow> wire = [] \<and> hr_written r = 0 \<and> written_data log = []) \<and>
     (hr_begun r \<longrightarrow> \<not> hr_known r \<longrightarrow> wire = []) \<and>
     (\<forall>n. hr_begun r \<longrightarrow> hr_expected r = Some n \<longrightarrow>
        unat n < 2 ^ 31 \<and> length (written_data log) = unat (hr_written r) \<and>
        unat (hr_written r) \<le> unat n \<and>
        (\<exists>head. known_length_head n r = Some head \<and>
           wire = head @ body_on_wire meth (written_data log))))"

text \<open>And of the call on which one fails: a part of its bytes went out, and nothing is counted.\<close>

definition cut_inv :: "native_method \<Rightarrow> http_log \<Rightarrow> http_op \<Rightarrow> http_exchange \<Rightarrow> bool" where
  "cut_inv meth log p x \<longleftrightarrow> (\<forall>n. hr_begun (ex_response x) \<longrightarrow> hr_expected (ex_response x) = Some n \<longrightarrow>
     length (written_data log @ offered p) \<le> unat n \<and>
     (\<exists>head. known_length_head n (ex_response x) = Some head \<and>
        prefix (wire_bytes (ex_output x)) (head @ body_on_wire meth (written_data log @ offered p))))"

definition step_inv ::
    "native_method \<Rightarrow> http_log \<Rightarrow> http_op \<Rightarrow> web_result \<Rightarrow> http_exchange \<Rightarrow> bool" where
  "step_inv meth log p res x \<longleftrightarrow>
     (if connection_failed (p, res) then cut_inv meth log p x else exact_inv meth (log @ [(p, res)]) x)"

lemma step_inv_begin:
  assumes inv: "exact_inv meth log x" and send: "never_over send" and sane: "sane_op (BeginOp len)"
  shows "\<exists>res x'. run_http_op send native chunk (BeginOp len) x = Some (res, x') \<and>
    step_inv meth log (BeginOp len) res x'"
proof (cases "hr_begun (ex_response x)")
  case True
  then show ?thesis
    using inv by (auto simp: response_begin_def with_output_def step_inv_def connection_failed_def
        exact_inv_def offered_def)
next
  case not_begun: False
  then have i: "wire_bytes (ex_output x) = []" "hr_written (ex_response x) = 0"
    "hr_method (ex_response x) = meth" "written_data log = []"
    using inv by (simp_all add: exact_inv_def Let_def)
  show ?thesis
  proof (cases len)
    case None
    let ?r = "(ex_response x)\<lparr>hr_expected := None, hr_known := False\<rparr>"
    obtain e calls where n: "native_calls native 0 (begin_calls ?r) = (e, calls)" by fastforce
    then have "wire_bytes calls = []" by (rule wire_bytes_native) simp
    then show ?thesis
      using not_begun i None n
      by (cases "e = ESP_OK") (simp_all add: response_begin_def with_output_def step_inv_def
          cut_inv_def exact_inv_def Let_def offered_def connection_failed_def)
  next
    case (Some n)
    obtain head where h: "known_length_head n (ex_response x) = Some head"
      by (simp add: known_length_head_lines)
    obtain res out j where s: "send_raw send (ex_next x) head = Some (res, out, j)"
      using send_raw_total [OF send] by blast
    show ?thesis
    proof (cases "res = Success")
      case True
      then have "out = head" using send_raw_outcome [OF s] by simp
      then show ?thesis
        using not_begun i Some h s True sane
        by (auto simp: response_begin_def with_output_def step_inv_def connection_failed_def
            exact_inv_def Let_def sane_op_def offered_def body_on_wire_def)
    next
      case False
      then obtain e where "res = Failure ConnectionFailure e" using send_raw_result [OF s] by blast
      then show ?thesis
        using not_begun i Some h s
        by (auto simp: response_begin_def with_output_def step_inv_def connection_failed_def
            cut_inv_def Let_def)
    qed
  qed
qed

lemma step_inv_write:
  assumes inv: "exact_inv meth log x" and send: "never_over send"
    and sane: "sane_op (WriteOp data count)"
  shows "\<exists>res x'. run_http_op send native chunk (WriteOp data count) x = Some (res, x') \<and>
    step_inv meth log (WriteOp data count) res x'"
proof (cases "\<not> hr_begun (ex_response x) \<or> hr_completed (ex_response x) \<or> data = None \<or> count = 0")
  case True
  then show ?thesis
    using inv by (auto simp: response_write_def with_output_def step_inv_def connection_failed_def
        exact_inv_def)
next
  case False
  then obtain d where d: "data = Some d" "hr_begun (ex_response x)" "\<not> hr_completed (ex_response x)"
    "count \<noteq> 0" by auto
  have c: "unat count \<le> length d" "unat count < 2 ^ 31" using sane d by (auto simp: sane_op_def)
  let ?r = "ex_response x" and ?content = "take (unat count) d"
  show ?thesis
  proof (cases "hr_expected ?r")
    case None
    then show ?thesis
      using inv d c
      by (auto simp: response_write_def with_output_def step_inv_def cut_inv_def exact_inv_def Let_def)
  next
    case (Some n)
    then have known: "hr_known ?r" "hr_method ?r = meth" using inv by (simp_all add: exact_inv_def Let_def)
    obtain head where w: "unat n < 2 ^ 31" "unat (hr_written ?r) \<le> unat n"
      "length (written_data log) = unat (hr_written ?r)" "known_length_head n ?r = Some head"
      "wire_bytes (ex_output x) = head @ body_on_wire meth (written_data log)"
      using inv d(2) Some by (auto simp: exact_inv_def Let_def)
    have sum: "unat (hr_written ?r + count) = unat (hr_written ?r) + unat count"
      using w(1,2) c(2) by (intro unat_sum_no_wrap) auto
    show ?thesis
    proof (cases "hr_written ?r + count > n")
      case True
      then show ?thesis
        using inv d Some
        by (simp add: response_write_def with_output_def step_inv_def connection_failed_def exact_inv_def)
    next
      case fits: False
      then have le: "unat (hr_written ?r) + unat count \<le> unat n" by (simp add: word_le_nat_alt not_less sum)
      obtain res out j where s: "send_raw send (ex_next x) ?content = Some (res, out, j)"
        using send_raw_total [OF send] by blast
      have success: "res = Success \<Longrightarrow> out = ?content" using send_raw_outcome [OF s] by simp
      have part: "prefix (head @ written_data log @ out) (head @ written_data log @ ?content)"
        using send_raw_outcome [OF s] by simp
      consider "meth = HTTP_HEAD" | "meth \<noteq> HTTP_HEAD" "res = Success"
        | e where "meth \<noteq> HTTP_HEAD" "res = Failure ConnectionFailure e"
        using send_raw_result [OF s] by blast
      then show ?thesis
        using fits d Some w known le s c sum success part
        by cases (auto simp: response_write_def with_output_def step_inv_def connection_failed_def
            exact_inv_def cut_inv_def offered_def body_on_wire_def Let_def)
    qed
  qed
qed

lemma step_inv_op:
  assumes "exact_inv meth log x" and "never_over send" and "sane_op p"
  shows "\<exists>res x'. run_http_op send native chunk p x = Some (res, x') \<and> step_inv meth log p res x'"
proof (cases p)
  case (BeginOp len)
  then show ?thesis using step_inv_begin [OF assms(1,2)] assms(3) by simp
next
  case (WriteOp data count)
  then show ?thesis using step_inv_write [OF assms(1,2)] assms(3) by simp
next
  case CompleteOp
  then show ?thesis
    using assms(1) by (auto simp: response_complete_def with_output_def step_inv_def
        connection_failed_def cut_inv_def exact_inv_def offered_def Let_def split: if_splits option.splits)
qed (use assms(1) in \<open>auto simp: step_inv_def connection_failed_def exact_inv_def set_header_def
    set_status_def no_output_def offered_def response_abort_def Let_def split: option.splits\<close>)


lemma run_http_op_total:
  assumes "never_over send" "sane_op p"
  shows "\<exists>res x'. run_http_op send native chunk p x = Some (res, x')"
proof (cases p)
  case (BeginOp len)
  show ?thesis
  proof (cases len)
    case None
    then show ?thesis using BeginOp
      by (cases "native_calls native 0
            (begin_calls ((ex_response x)\<lparr>hr_expected := None, hr_known := False\<rparr>))")
        (simp add: response_begin_def Let_def with_output_def)
  next
    case (Some n)
    obtain head where h: "known_length_head n (ex_response x) = Some head"
      by (simp add: known_length_head_lines)
    obtain res out j where "send_raw send (ex_next x) head = Some (res, out, j)"
      using send_raw_total [OF assms(1)] by blast
    then show ?thesis using BeginOp Some h by (simp add: response_begin_def Let_def with_output_def)
  qed
next
  case (WriteOp data count)
  show ?thesis
  proof (cases data)
    case None
    then show ?thesis using WriteOp by (simp add: response_write_def)
  next
    case (Some d)
    then have "unat count \<le> length d" using WriteOp assms(2) by (simp add: sane_op_def)
    moreover obtain res out j where "send_raw send (ex_next x) (take (unat count) d) = Some (res, out, j)"
      using send_raw_total [OF assms(1)] by blast
    ultimately show ?thesis using WriteOp Some by (simp add: response_write_def)
  qed
qed (simp_all split: prod.split)

lemma run_exchange_total:
  "never_over send \<Longrightarrow> list_all (\<lambda>(p, _). sane_op p) ops \<Longrightarrow>
     \<exists>log x'. run_exchange send ops x = Some (log, x') \<and> map fst log = map fst ops"
proof (induction ops arbitrary: x)
  case (Cons a ops)
  obtain p native chunk where a: "a = (p, native, chunk)" by (cases a)
  obtain res x1 where r: "run_http_op send native chunk p x = Some (res, x1)"
    using run_http_op_total [OF Cons.prems(1), of p] Cons.prems(2) a by fastforce
  then show ?case using Cons.IH [OF Cons.prems(1), of x1] Cons.prems(2) a by auto
qed simp

lemma run_exchange_exact:
  "exact_inv meth log x \<Longrightarrow> never_over send \<Longrightarrow> list_all (\<lambda>(p, _). sane_op p) ops \<Longrightarrow>
   run_exchange send ops x = Some (log', x') \<Longrightarrow> \<not> list_ex connection_failed log' \<Longrightarrow>
     exact_inv meth (log @ log') x'"
proof (induction ops arbitrary: x log log')
  case (Cons a ops)
  obtain p native chunk where a: "a = (p, native, chunk)" by (cases a)
  obtain res x1 where r: "run_http_op send native chunk p x = Some (res, x1)" "step_inv meth log p res x1"
    using step_inv_op [OF Cons.prems(1,2)] Cons.prems(3) a by fastforce
  obtain log2 where l: "run_exchange send ops x1 = Some (log2, x')" "log' = (p, res) # log2"
    using Cons.prems(4) a r(1) by (auto simp: bind_eq_Some_conv)
  have "exact_inv meth (log @ [(p, res)]) x1" using r(2) Cons.prems(5) l(2) by (simp add: step_inv_def)
  from Cons.IH [OF this Cons.prems(2) _ l(1)] Cons.prems(3,5) l(2) show ?case by simp
qed simp

lemma run_exchange_cut:
  "exact_inv meth log x \<Longrightarrow> never_over send \<Longrightarrow> list_all (\<lambda>(p, _). sane_op p) ops \<Longrightarrow>
   run_exchange send ops x = Some (log' @ [e], x') \<Longrightarrow> \<not> list_ex connection_failed log' \<Longrightarrow>
   connection_failed e \<Longrightarrow> cut_inv meth (log @ log') (fst e) x'"
proof (induction ops arbitrary: x log log')
  case (Cons a ops)
  obtain p native chunk where a: "a = (p, native, chunk)" by (cases a)
  obtain res x1 where r: "run_http_op send native chunk p x = Some (res, x1)" "step_inv meth log p res x1"
    using step_inv_op [OF Cons.prems(1,2)] Cons.prems(3) a by fastforce
  obtain log2 where l: "run_exchange send ops x1 = Some (log2, x')" "log' @ [e] = (p, res) # log2"
    using Cons.prems(4) a r(1) by (auto simp: bind_eq_Some_conv)
  show ?case
  proof (cases log')
    case Nil
    have "ops = []" using run_exchange_total [OF Cons.prems(2), of ops x1] Cons.prems(3) l Nil by auto
    then show ?thesis using Nil l r(2) Cons.prems(6) by (simp add: step_inv_def)
  next
    case (Cons e1 log3)
    then have "e1 = (p, res)" "log2 = log3 @ [e]" using l(2) by auto
    moreover have "exact_inv meth (log @ [(p, res)]) x1"
      using r(2) Cons.prems(5) Cons \<open>e1 = (p, res)\<close> by (simp add: step_inv_def)
    ultimately show ?thesis
      using Cons.IH [of "log @ [(p, res)]" x1 log3] Cons.prems(2,3,5,6) l(1) Cons by simp
  qed
qed simp

definition fresh_exchange :: "native_method \<Rightarrow> bool \<Rightarrow> http_exchange" where
  "fresh_exchange meth keep_alive =
     \<lparr>ex_response = fresh_response meth keep_alive, ex_output = [], ex_next = 0\<rparr>"

lemma fresh_exchange_exact: "exact_inv meth [] (fresh_exchange meth keep_alive)"
  by (simp add: exact_inv_def fresh_exchange_def fresh_response_def)

lemma head_length_line:
  assumes "known_length_head n r = Some head"
  shows "crlf_lines (head @ body) ! 1 = ''Content-Length: '' @ decimal (unat n)"
proof -
  have head: "head = concat (map (\<lambda>l. l @ crlf) (head_lines n r)) @ crlf"
    using assms by (simp add: known_length_head_lines)
  show ?thesis
    unfolding head by (simp add: head_lines_def crlf_lines_append
      crlf_lines_append [of "''HTTP/1.1 '' @ a" for a, simplified]
      crlf_lines_append [of "''Content-Length: '' @ a" for a, simplified])
qed

section \<open>Properties\<close>

text \<open>C19: Any sequence of operations on a response returns, whatever part of its bytes each
  \<open>httpd_send\<close> takes and whenever one fails. As long as none has failed, a response begun with a
  declared length has put on the connection exactly its head, whose second line is the
  Content-Length, followed by the data of the writes that succeeded, in their order and unchanged
  (nothing for HEAD), which is never more than declared; and a Complete that succeeds on it, without an
  Abort before, does so only when it is as much as declared. At the first call on which one
  fails, the connection holds an initial part of that with the data of this call, still within the declared length.
  The caller's buffers hold what it says, and declared lengths and writes are below 2 GiB.\<close>

theorem http_known_length_exact:
  assumes "never_over send" and "list_all (\<lambda>(p, _). sane_op p) ops"
  shows "\<exists>log x. run_exchange send ops (fresh_exchange meth keep_alive) = Some (log, x) \<and>
    map fst log = map fst ops \<and>
    (\<forall>n. hr_begun (ex_response x) \<longrightarrow> hr_expected (ex_response x) = Some n \<longrightarrow>
      (\<exists>head. known_length_head n (ex_response x) = Some head \<and>
        (\<forall>body. crlf_lines (head @ body) ! 1 = ''Content-Length: '' @ decimal (unat n)) \<and>
        (\<not> list_ex connection_failed log \<longrightarrow>
           wire_bytes (ex_output x) = head @ body_on_wire meth (written_data log) \<and>
           length (written_data log) \<le> unat n \<and>
           (\<forall>env r' out. response_complete env (ex_response x) = (Success, r', out) \<longrightarrow>
              \<not> hr_completed (ex_response x) \<longrightarrow> length (written_data log) = unat n \<and> out = [])) \<and>
        (\<forall>done e. log = done @ [e] \<longrightarrow> \<not> list_ex connection_failed done \<longrightarrow> connection_failed e \<longrightarrow>
           length (written_data done @ offered (fst e)) \<le> unat n \<and>
           prefix (wire_bytes (ex_output x))
             (head @ body_on_wire meth (written_data done @ offered (fst e))))))"
proof -
  let ?x = "fresh_exchange meth keep_alive"
  obtain log x where r: "run_exchange send ops ?x = Some (log, x)" "map fst log = map fst ops"
    using run_exchange_total [OF assms] by blast
  note exact = run_exchange_exact [OF fresh_exchange_exact assms r(1), simplified]
  have cut: "cut_inv meth done (fst e) x"
    if "log = done @ [e]" "\<not> list_ex connection_failed done" "connection_failed e" for "done" e
    using run_exchange_cut [OF fresh_exchange_exact assms, where log' = "done" and e = e and x' = x] r(1)
      that by simp
  have main: "\<exists>head. known_length_head n (ex_response x) = Some head \<and>
        (\<forall>body. crlf_lines (head @ body) ! 1 = ''Content-Length: '' @ decimal (unat n)) \<and>
        (\<not> list_ex connection_failed log \<longrightarrow>
           wire_bytes (ex_output x) = head @ body_on_wire meth (written_data log) \<and>
           length (written_data log) \<le> unat n \<and>
           (\<forall>env r' out. response_complete env (ex_response x) = (Success, r', out) \<longrightarrow>
              \<not> hr_completed (ex_response x) \<longrightarrow> length (written_data log) = unat n \<and> out = [])) \<and>
        (\<forall>done e. log = done @ [e] \<longrightarrow> \<not> list_ex connection_failed done \<longrightarrow> connection_failed e \<longrightarrow>
           length (written_data done @ offered (fst e)) \<le> unat n \<and>
           prefix (wire_bytes (ex_output x))
             (head @ body_on_wire meth (written_data done @ offered (fst e))))"
    if b: "hr_begun (ex_response x)" "hr_expected (ex_response x) = Some n" for n
  proof -
    obtain head where h: "known_length_head n (ex_response x) = Some head"
      by (simp add: known_length_head_lines)
    have 1: "wire_bytes (ex_output x) = head @ body_on_wire meth (written_data log) \<and>
        length (written_data log) = unat (hr_written (ex_response x)) \<and>
        unat (hr_written (ex_response x)) \<le> unat n \<and> hr_known (ex_response x)"
      if "\<not> list_ex connection_failed log"
      using exact [OF that] b h by (simp add: exact_inv_def Let_def)
    have 2: "hr_written (ex_response x) = n \<and> out = []"
      if "response_complete env (ex_response x) = (Success, r', out)" "\<not> hr_completed (ex_response x)"
        "hr_known (ex_response x)" for env r' out
      using that b by (auto simp: response_complete_def split: if_splits)
    have 3: "length (written_data done @ offered (fst e)) \<le> unat n \<and>
        prefix (wire_bytes (ex_output x)) (head @ body_on_wire meth (written_data done @ offered (fst e)))"
      if "log = done @ [e]" "\<not> list_ex connection_failed done" "connection_failed e" for "done" e
      using cut [OF that] b h by (simp add: cut_inv_def)
    show ?thesis using h head_length_line [OF h] 1 2 3 by metis
  qed
  show ?thesis using r main by blast
qed

lemma once_sent:
  assumes "d \<noteq> []" "send i (length d) = int (length d)"
  shows "send_raw send i d = Some (Success, d, Suc i)"
  using assms by (subst send_raw.simps) (simp add: send_raw.simps)

definition demo_head :: string where
  "demo_head = ''HTTP/1.1 200 OK'' @ crlf @ ''Content-Length: 2'' @ crlf @ crlf"

lemma demo_begin:
  assumes "send 0 (length demo_head) = int (length demo_head)"
  shows "run_http_op send native chunk (BeginOp (Some 2)) (fresh_exchange HTTP_GET True) =
    Some (Success, \<lparr>ex_response = (fresh_response HTTP_GET True)
      \<lparr>hr_begun := True, hr_known := True, hr_expected := Some 2\<rparr>,
      ex_output = [RawBytes demo_head], ex_next = 1\<rparr>)"
proof -
  have "decimal 2 = ''2''" by code_simp
  then have "known_length_head 2 ((fresh_response HTTP_GET True)\<lparr>hr_expected := Some 2, hr_known := True\<rparr>) =
      Some demo_head"
    by (simp add: known_length_head_def demo_head_def fresh_response_def)
  then show ?thesis
    using once_sent [of demo_head send 0] assms
    by (simp add: response_begin_def fresh_exchange_def with_output_def fresh_response_def demo_head_def)
qed

lemma http_known_length_exact_witness:
  "\<exists>log x. run_exchange (\<lambda>_ n. int n)
      (map (\<lambda>p. (p, \<lambda>_. ESP_OK, ESP_OK)) [BeginOp (Some 2), WriteOp (Some ''hi'') 2])
      (fresh_exchange HTTP_GET True) = Some (log, x) \<and> hr_begun (ex_response x) \<and>
    wire_bytes (ex_output x) = demo_head @ ''hi'' \<and>
    crlf_lines (wire_bytes (ex_output x)) ! 1 = ''Content-Length: 2''"
proof -
  let ?send = "\<lambda>_ n. int n" and ?ops = "map (\<lambda>p. (p, \<lambda>_. ESP_OK, ESP_OK)) [BeginOp (Some 2), WriteOp (Some ''hi'') 2]"
  have s: "send_raw ?send (Suc 0) ''hi'' = Some (Success, ''hi'', 2)"
    using once_sent [of "''hi''" ?send "Suc 0"] by simp
  define x where "x = \<lparr>ex_response = (fresh_response HTTP_GET True)
      \<lparr>hr_begun := True, hr_known := True, hr_expected := Some 2, hr_written := 2\<rparr>,
      ex_output = [RawBytes demo_head, RawBytes ''hi''], ex_next = 2\<rparr>"
  have run: "run_exchange ?send ?ops (fresh_exchange HTTP_GET True) =
      Some ([(BeginOp (Some 2), Success), (WriteOp (Some ''hi'') 2, Success)], x)"
    by (simp add: demo_begin response_write_def with_output_def fresh_response_def s x_def
        del: run_http_op.simps(3))
  have ok: "never_over ?send" "list_all (\<lambda>(p, _). sane_op p) ?ops"
    by (simp_all add: never_over_def sane_op_def)
  have "decimal (unat (2 :: size32)) = ''2''" by (simp, code_simp)
  moreover have x: "wire_bytes (ex_output x) = demo_head @ ''hi''" "hr_begun (ex_response x)"
    "hr_expected (ex_response x) = Some 2" by (simp_all add: x_def)
  moreover have ok_log: "\<not> list_ex connection_failed [(BeginOp (Some 2), Success), (WriteOp (Some ''hi'') 2, Success)]"
    by (simp add: connection_failed_def)
  moreover have "\<exists>head. wire_bytes (ex_output x) = head @ ''hi'' \<and>
      (\<forall>body. crlf_lines (head @ body) ! 1 = ''Content-Length: '' @ decimal (unat (2 :: size32)))"
    using http_known_length_exact [OF ok, of HTTP_GET True, unfolded run option.inject prod.inject] x ok_log
    by (elim exE conjE) (hypsubst, fastforce simp: body_on_wire_def written_data_def offered_def)
  ultimately show ?thesis using run by auto
qed

text \<open>After a failure the count of the body is behind what went out: a caller that tries the write
  again is not stopped, and Complete confirms a body longer than the declared length.\<close>

text \<open>A connection that takes one byte of the two, then fails once, then takes all.\<close>

definition flaky :: "nat \<Rightarrow> nat \<Rightarrow> int" where
  "flaky i n = (if i = 1 then 1 else if i = 2 then -1 else int n)"

lemma http_retry_overrun:
  "\<exists>log x. run_exchange flaky
      (map (\<lambda>p. (p, \<lambda>_. ESP_OK, ESP_OK)) [BeginOp (Some 2), WriteOp (Some ''hi'') 2, WriteOp (Some ''hi'') 2, CompleteOp])
      (fresh_exchange HTTP_GET True) = Some (log, x) \<and>
    map snd log = [Success, Failure ConnectionFailure (Some (NativeInt (-1))), Success, Success] \<and>
    wire_bytes (ex_output x) = demo_head @ ''hhi''"
proof -
  have f: "send_raw flaky (Suc 0) ''hi'' = Some (Failure ConnectionFailure (Some (NativeInt (-1))), ''h'', 3)"
    by (subst send_raw.simps, simp add: flaky_def, subst send_raw.simps, simp add: flaky_def)
  have s: "send_raw flaky 3 ''hi'' = Some (Success, ''hi'', 4)"
    using once_sent [of "''hi''" flaky 3] by (simp add: flaky_def)
  show ?thesis
    by (simp add: demo_begin [of flaky] flaky_def response_write_def with_output_def fresh_response_def
        f s response_complete_def del: run_http_op.simps(3))
qed


text \<open>C20: Reading the head back: when no field holds a carriage return, splitting what was sent at
  CRLF gives the status line, the declared length, the content type, the headers in the order they
  were first set and the closing mark, one line each and then an empty line; and the length reads
  back as the number that was declared.\<close>

theorem http_head_roundtrip:
  assumes "known_length_head n r = Some head"
    and "no_cr (hr_content_type r)" and "list_all (\<lambda>h. no_cr (fst h) \<and> no_cr (snd h)) (hr_headers r)"
  shows "crlf_lines (head @ body) =
      [''HTTP/1.1 '' @ http_status_text (hr_status r), ''Content-Length: '' @ decimal (unat n)]
      @ (if hr_content_type r \<noteq> [] then [''Content-Type: '' @ hr_content_type r] else [])
      @ map (\<lambda>h. fst h @ '': '' @ snd h) (hr_headers r)
      @ (if \<not> hr_keep_alive r then [''Connection: close''] else [])
      @ [] # crlf_lines body \<and>
    read_decimal (decimal (unat n)) = unat n"
  using crlf_lines_head [OF assms(2,3,1), of body] by (simp add: head_lines_def read_decimal_decimal)

lemma http_head_roundtrip_witness:
  "\<exists>head. known_length_head 5 ((fresh_response HTTP_GET False)\<lparr>hr_headers := [(''ETag'', ''x'')]\<rparr>) = Some head \<and>
     crlf_lines (head @ ''hello'') = [''HTTP/1.1 200 OK'', ''Content-Length: 5'', ''ETag: x'',
       ''Connection: close'', [], ''hello'']"
proof -
  let ?r = "(fresh_response HTTP_GET False)\<lparr>hr_headers := [(''ETag'', ''x'')]\<rparr>"
  obtain head where h: "known_length_head 5 ?r = Some head" by (simp add: known_length_head_lines)
  have "decimal 5 = ''5''" by code_simp
  then have "crlf_lines (head @ ''hello'') = [''HTTP/1.1 200 OK'', ''Content-Length: 5'', ''ETag: x'',
      ''Connection: close'', [], ''hello'']"
    using http_head_roundtrip [OF h, of "''hello''"]
    by (simp add: fresh_response_def no_cr_def)
  then show ?thesis using h by blast
qed

lemma replace_header_some:
  "replace_header name value hs = Some hs' \<Longrightarrow>
     map fst hs' = map fst hs \<and> (\<exists>n. (n, value) \<in> set hs' \<and> header_name_equals n name)"
proof (induction hs arbitrary: hs')
  case (Cons h hs)
  show ?case
  proof (cases "header_name_equals (fst h) name")
    case True
    then have "hs' = (fst h, value) # hs" using Cons.prems by (cases h) auto
    then show ?thesis using True by auto
  next
    case False
    then obtain hs'' where "replace_header name value hs = Some hs''" "hs' = h # hs''"
      using Cons.prems by (cases h) auto
    then show ?thesis using Cons.IH by fastforce
  qed
qed simp

lemma replace_header_none:
  "replace_header name value hs = None \<longleftrightarrow> (\<forall>h \<in> set hs. \<not> header_name_equals (fst h) name)"
proof (induction hs)
  case (Cons h hs)
  then show ?case by (cases h) simp
qed simp

definition header_list_ok :: "(string \<times> string) list \<Rightarrow> bool" where
  "header_list_ok hs \<longleftrightarrow> distinct (map (map to_lower) (map fst hs)) \<and>
     list_all (\<lambda>n. \<not> is_framing_header n \<and> n \<noteq> []) (map fst hs)"

lemma set_header_list_ok:
  assumes "header_list_ok (hr_headers r)" and "set_header name value r = (res, r')"
  shows "header_list_ok (hr_headers r')"
proof (cases "replace_header name value (hr_headers r)")
  case None
  then have "map to_lower name \<notin> set (map (map to_lower) (map fst (hr_headers r)))"
    by (auto simp: replace_header_none header_name_equals_iff)
  then show ?thesis
    using assms None by (auto simp: set_header_def header_list_ok_def split: if_splits)
next
  case (Some hs')
  then have "map fst hs' = map fst (hr_headers r)" using replace_header_some by blast
  then show ?thesis
    using assms Some by (auto simp: set_header_def header_list_ok_def split: if_splits simp del: map_map)
qed

lemma response_keeps_headers:
  "response_begin env len r = Some (res, r', out, next) \<Longrightarrow> hr_headers r' = hr_headers r"
  "response_write env data count r = Some (res, r', out, next) \<Longrightarrow> hr_headers r' = hr_headers r"
  "response_complete env r = (res, r', out') \<Longrightarrow> hr_headers r' = hr_headers r"
  by (auto simp: response_begin_def response_write_def response_complete_def Let_def bind_eq_Some_conv
      split: if_splits option.splits prod.splits)

lemma exchange_headers_ok:
  assumes "exchange_reach send meth keep_alive x"
  shows "header_list_ok (hr_headers (ex_response x))"
  using assms
proof (induction rule: exchange_reach.induct)
  case (step x p native chunk res x')
  show ?case
  proof (cases p)
    case (HeaderOp n v)
    then show ?thesis
      using step set_header_list_ok [OF step.IH, of n v] by (cases "set_header n v (ex_response x)")
        (auto simp: no_output_def)
  next
    case (StatusOp s)
    then show ?thesis using step by (auto simp: no_output_def set_status_def)
  next
    case (BeginOp len)
    then show ?thesis using step by (auto simp: with_output_def dest: response_keeps_headers(1))
  next
    case (WriteOp data count)
    then show ?thesis using step by (auto simp: with_output_def dest: response_keeps_headers(2))
  next
    case CompleteOp
    then show ?thesis
      using step by (auto simp: with_output_def dest: response_keeps_headers(3) split: prod.splits)
  next
    case AbortOp
    then show ?thesis using step by (auto simp: no_output_def response_abort_def)
  qed
qed (simp add: header_list_ok_def fresh_response_def)

text \<open>In every state a response reaches, whatever the connection answers, header names are
  non-empty, none is Content-Length, Transfer-Encoding or Connection in any letter case, and no two
  are equal up to case; and a further SetHeader is refused once the response has begun, and
  otherwise for exactly the empty name and the framing names.\<close>

theorem http_header_names:
  assumes "exchange_reach send meth keep_alive x"
  shows "list_all (\<lambda>h. fst h \<noteq> [] \<and> \<not> is_framing_header (fst h)) (hr_headers (ex_response x)) \<and>
    distinct (map (\<lambda>h. map to_lower (fst h)) (hr_headers (ex_response x))) \<and>
    (fst (set_header name value (ex_response x)) = Success \<longleftrightarrow>
       \<not> hr_begun (ex_response x) \<and> name \<noteq> [] \<and> \<not> is_framing_header name)"
  using exchange_headers_ok [OF assms]
  by (auto simp: header_list_ok_def list_all_iff comp_def set_header_def split: option.splits)

lemma demo_framing: "is_framing_header ''connection''"
  by code_simp

lemma http_header_names_witness:
  "fst (set_header ''connection'' ''close'' (fresh_response HTTP_GET True)) = fail_with InvalidConfiguration"
  using http_header_names [OF exchange_reach.start [of "\<lambda>_ n. int n" HTTP_GET True], of "''connection''" "''close''"]
  by (simp add: set_header_def demo_framing fresh_response_def)

text \<open>C21: The framing headers the response reserves to itself can be set nevertheless: SetHeader
  looks at the name only, so a value that contains CRLF is accepted under any ordinary name, and
  the head then carries the text after the CRLF as a header line of its own, a second
  Content-Length for instance.\<close>

theorem http_header_smuggling:
  assumes "name \<noteq> []" and "\<not> is_framing_header name" and "\<not> header_name_equals name ''Content-Type''"
    and "no_cr name" and "no_cr v" and "no_cr line"
    and "known_length_head n (snd (set_header name (v @ crlf @ line) (fresh_response meth keep_alive))) = Some head"
  shows "fst (set_header name (v @ crlf @ line) (fresh_response meth keep_alive)) = Success \<and>
    crlf_lines (head @ body) =
      [''HTTP/1.1 200 OK'', ''Content-Length: '' @ decimal (unat n), name @ '': '' @ v, line]
      @ (if keep_alive then [] else [''Connection: close'']) @ [] # crlf_lines body"
proof -
  have r: "set_header name (v @ crlf @ line) (fresh_response meth keep_alive) =
      (Success, (fresh_response meth keep_alive)\<lparr>hr_headers := [(name, v @ crlf @ line)]\<rparr>)"
    using assms(1-3) by (simp add: set_header_def fresh_response_def)
  let ?ls = "[''HTTP/1.1 200 OK'', ''Content-Length: '' @ decimal (unat n), name @ '': '' @ v, line]
        @ (if keep_alive then [] else [''Connection: close''])"
  have "head = concat (map (\<lambda>l. l @ crlf) ?ls) @ crlf"
    using assms(7) unfolding r
    by (cases keep_alive) (simp_all add: known_length_head_lines head_lines_def fresh_response_def)
  then have "head @ body = concat (map (\<lambda>l. l @ crlf) ?ls) @ (crlf @ body)"
    by (simp only: append_assoc)
  moreover have "crlf_lines (concat (map (\<lambda>l. l @ crlf) ?ls) @ (crlf @ body)) = ?ls @ crlf_lines (crlf @ body)"
    by (rule crlf_lines_concat) (use assms(4-6) in \<open>simp add: no_cr_def\<close>)
  moreover have "crlf_lines (crlf @ body) = [] # crlf_lines body"
    using crlf_lines_append [of "[]" body] by simp
  ultimately show ?thesis by (simp only: r fst_conv append_assoc)
qed

lemma http_header_smuggling_witness:
  "\<exists>head. known_length_head 2 (snd (set_header ''X-Name'' (''a'' @ crlf @ ''Content-Length: 0'')
       (fresh_response HTTP_GET True))) = Some head \<and>
     crlf_lines (head @ ''hi'') = [''HTTP/1.1 200 OK'', ''Content-Length: 2'', ''X-Name: a'',
       ''Content-Length: 0'', [], ''hi'']"
proof -
  let ?r = "snd (set_header ''X-Name'' (''a'' @ crlf @ ''Content-Length: 0'') (fresh_response HTTP_GET True))"
  obtain head where h: "known_length_head 2 ?r = Some head" by (simp add: known_length_head_lines)
  have "decimal 2 = ''2''" by code_simp
  then have "crlf_lines (head @ ''hi'') = [''HTTP/1.1 200 OK'', ''Content-Length: 2'', ''X-Name: a'',
       ''Content-Length: 0'', [], ''hi'']"
    using http_header_smuggling [OF _ _ _ _ _ _ h, of "''hi''"]
    by (simp add: is_framing_header_def header_name_equals_def no_cr_def)
  then show ?thesis using h by blast
qed

text \<open>ReadHeader into a buffer, for a header name of 1 to 128 characters and a server that
  copies values as documented: a missing header is NotFound and leaves the buffer; a value longer
  than the buffer is ResourceExhausted and leaves the buffer; a value that fits is copied to its
  beginning, its length reported and nothing after it touched but the terminator where there is
  room for one. An empty or overlong name is refused. No access is out of bounds.\<close>

theorem http_read_header:
  assumes "header_api_laws api headers" and "CHR 0x00 \<notin> set name" and "buf \<noteq> []"
  shows "read_header api name (Some buf) = Some
     (if name = [] \<or> length name > 128 then (fail_with InvalidConfiguration, Some buf, 0)
      else (case headers name of
        None \<Rightarrow> (Failure NotFound (Some (NativeEsp ESP_ERR_NOT_FOUND)), Some buf, 0)
      | Some v \<Rightarrow>
          if length v > length buf then (fail_with ResourceExhausted, Some buf, 0)
          else (Success, Some (v @ (if length v < length buf
            then CHR 0x00 # drop (length v + 1) buf else [])), length v)))"
proof (cases "name = [] \<or> length name > 128")
  case True
  then show ?thesis using assms(3) by (auto simp: read_header_def copy_header_name_eq)
next
  case False
  then show ?thesis using read_header_cases [OF assms(1) _ _ assms(2,3)] by simp
qed

definition demo_headers :: "string \<Rightarrow> string option" where
  "demo_headers name = (if name = ''Host'' then Some ''dev'' else None)"

definition demo_header_api :: header_api where
  "demo_header_api = \<lparr>ha_len = \<lambda>name. (case demo_headers name of None \<Rightarrow> 0 | Some v \<Rightarrow> length v),
     ha_str = \<lambda>name size. (case demo_headers name of
         None \<Rightarrow> (ESP_ERR_NOT_FOUND, [])
       | Some v \<Rightarrow> if length v < size then (ESP_OK, v @ [CHR 0x00])
                   else (ESP_ERR_HTTPD_RESULT_TRUNC, []))\<rparr>"

lemma demo_header_api_laws: "header_api_laws demo_header_api demo_headers"
  by (auto simp: header_api_laws_def demo_header_api_def split: option.splits)

lemma http_read_header_witness:
  "read_header demo_header_api ''Host'' (Some ''abc'') = Some (Success, Some ''dev'', 3) \<and>
   read_header demo_header_api ''Host'' (Some ''ab'') = Some (fail_with ResourceExhausted, Some ''ab'', 0)"
  using http_read_header [OF demo_header_api_laws, of "''Host''" "''abc''"]
    http_read_header [OF demo_header_api_laws, of "''Host''" "''ab''"]
  by (simp add: demo_headers_def)

text \<open>Reading a request body in pieces of any capacity, however the connection splits it and
  whenever it fails: the pieces are consecutive parts of the body from its beginning, no piece is
  longer than asked for, nothing past the declared length is read, and the end is reported only
  when the whole body has been delivered; it is reported when no call fails and there are more
  calls than bytes.\<close>

theorem http_body_reading:
  assumes "0 < capacity"
    and "read_all body ks capacity (new_request uri meth (length body)) = (bs, fin, r')"
  shows "prefix bs body \<and> rq_body_read r' = length bs \<and> (fin \<longrightarrow> bs = body) \<and>
    (None \<notin> set ks \<longrightarrow> Some 0 \<notin> set ks \<longrightarrow> length body < length ks \<longrightarrow> fin)"
  using read_all_prefix [OF assms(2,1)]
  by (auto simp: new_request_def Let_def take_is_prefix)

lemma http_body_reading_witness:
  "fst (read_all ''hello'' [Some 2, Some 9, Some 1] 2 (new_request None HTTP_POST 5)) = ''hello'' \<and>
   prefix (fst (read_all ''hello'' [Some 2, None] 2 (new_request None HTTP_POST 5))) ''hello''"
proof -
  obtain bs fin r' where a: "read_all ''hello'' [Some 2, Some 9, Some 1] 2
      (new_request None HTTP_POST (length ''hello'')) = (bs, fin, r')" by (metis prod_cases3)
  obtain bs2 fin2 r2 where b: "read_all ''hello'' [Some 2, None] 2
      (new_request None HTTP_POST (length ''hello'')) = (bs2, fin2, r2)" by (metis prod_cases3)
  have five: "length ''hello'' = 5" by simp
  have "fin" using a by (auto simp: read_body_def delivery_def new_request_def)
  moreover have "fst (read_all ''hello'' [Some 2, Some 9, Some 1] 2 (new_request None HTTP_POST 5)) = bs"
    "fst (read_all ''hello'' [Some 2, None] 2 (new_request None HTTP_POST 5)) = bs2"
    using a b by (simp_all only: five fst_conv)
  ultimately show ?thesis using http_body_reading [OF _ a] http_body_reading [OF _ b] by simp
qed

end
