(* ===== verification/Http_Server.thy ===== *)
theory Http_Server
  imports Http_Message "HOL-Library.Multiset"
begin

text \<open>
  src/ESPressio_HttpServerPlatform.hpp: \<open>ESP32HttpServerPlatform\<close>, with WebSocket support configured.

  The native server is outside this repository: what \<open>httpd_start\<close>, \<open>httpd_register_uri_handler\<close> and
  \<open>httpd_stop\<close> answer is a parameter, and the calls made are returned. A binding (a shared pointer
  to a WebSocket endpoint's state) is its identity, a number; its path and protocol, fixed while it
  is active, are functions of it, and which bindings are active is an argument of each operation.
  The lists of the code never hold a null binding, since \<open>AddWebSocketBinding\<close> refuses it.

  Each operation is given as the sections it runs under the lock, and as their composition. The
  sections are also the steps of \<open>step_event\<close>, where threads interleave between them.
\<close>

section \<open>State\<close>

datatype transport_mode = PlainTransport | OtherTransport int

record http_config =
  hc_transport :: transport_mode
  hc_port :: u16
  hc_max_connections :: size32
  hc_keep_alive :: bool

record http_server =
  hs_server :: "nat option"
  hs_starting :: bool
  hs_dispatcher :: "nat option"
  hs_config :: http_config
  hs_bindings :: "nat list"

definition fresh_http_server :: "http_config \<Rightarrow> http_server" where
  "fresh_http_server cfg = \<lparr>hs_server = None, hs_starting = False, hs_dispatcher = None,
     hs_config = cfg, hs_bindings = []\<rparr>"

record binding_info =
  bi_path :: string
  bi_protocol :: string

datatype handler = SocketHandler nat string "string option" | MethodHandler native_method

record native_config =
  nc_port :: u16
  nc_max_open_sockets :: size32
  nc_max_uri_handlers :: u16

datatype httpd_call = CallStart native_config | CallRegister nat handler | CallStop nat

definition supported_methods :: "native_method list" where
  "supported_methods = [HTTP_GET, HTTP_HEAD, HTTP_POST, HTTP_PUT, HTTP_PATCH, HTTP_DELETE,
     HTTP_OPTIONS, HTTP_CONNECT, HTTP_TRACE]"

section \<open>Configuration and bindings\<close>

definition busy :: "http_server \<Rightarrow> bool" where
  "busy s \<longleftrightarrow> hs_server s \<noteq> None \<or> hs_starting s"

definition server_initialize ::
    "http_config \<Rightarrow> nat \<Rightarrow> http_server \<Rightarrow> web_result \<times> http_server" where
  "server_initialize cfg dispatcher s =
     (if busy s then (fail_with InvalidState, s)
      else if hc_transport cfg \<noteq> PlainTransport then (fail_with Unsupported, s)
      else (Success, s\<lparr>hs_config := cfg, hs_dispatcher := Some dispatcher\<rparr>))"

text \<open>The loop over the existing bindings: \<open>Some r\<close> is an early return.\<close>

fun find_conflict ::
    "(nat \<Rightarrow> bool) \<Rightarrow> (nat \<Rightarrow> binding_info) \<Rightarrow> nat \<Rightarrow> nat list \<Rightarrow> web_result option" where
  "find_conflict active info b [] = None"
| "find_conflict active info b (e # es) =
     (if \<not> active e then find_conflict active info b es
      else if e = b then Some Success
      else if c_string (bi_path (info e)) = c_string (bi_path (info b))
      then Some (fail_with InvalidConfiguration)
      else find_conflict active info b es)"

definition add_binding ::
    "(nat \<Rightarrow> bool) \<Rightarrow> (nat \<Rightarrow> binding_info) \<Rightarrow> nat option \<Rightarrow> http_server \<Rightarrow> web_result \<times> http_server" where
  "add_binding active info binding s = (case binding of
       None \<Rightarrow> (fail_with InvalidConfiguration, s)
     | Some b \<Rightarrow>
         if \<not> active b \<or> take 1 (bi_path (info b)) \<noteq> ''/'' then (fail_with InvalidConfiguration, s)
         else if busy s then (fail_with InvalidState, s)
         else (case find_conflict active info b (hs_bindings s) of
             Some r \<Rightarrow> (r, s)
           | None \<Rightarrow> (Success, s\<lparr>hs_bindings := hs_bindings s @ [b]\<rparr>)))"

definition release_binding ::
    "(nat \<Rightarrow> bool) \<Rightarrow> nat option \<Rightarrow> http_server \<Rightarrow> http_server" where
  "release_binding active binding s = (case binding of
       None \<Rightarrow> s
     | Some b \<Rightarrow>
         if busy s then s
         else s\<lparr>hs_bindings := filter (\<lambda>c. \<not> (c = b \<or> \<not> active c)) (hs_bindings s)\<rparr>)"

definition prune :: "(nat \<Rightarrow> bool) \<Rightarrow> http_server \<Rightarrow> http_server" where
  "prune active s = s\<lparr>hs_bindings := filter active (hs_bindings s)\<rparr>"

section \<open>Start\<close>

text \<open>The first section under the lock: an early return, or the copies the rest of Start works on.\<close>

definition start_enter ::
    "(nat \<Rightarrow> bool) \<Rightarrow> http_server \<Rightarrow> (web_result + http_config \<times> nat list) \<times> http_server" where
  "start_enter active s =
     (if busy s then (Inl (fail_with AlreadyRunning), s)
      else if hs_dispatcher s = None then (Inl (fail_with InvalidState), s)
      else
        let s1 = prune active s
        in (Inr (hs_config s1, hs_bindings s1), s1\<lparr>hs_starting := True\<rparr>))"

definition native_config_of :: "http_config \<Rightarrow> nat list \<Rightarrow> native_config" where
  "native_config_of cfg bindings =
     \<lparr>nc_port = hc_port cfg,
      nc_max_open_sockets = min (hc_max_connections cfg + 3) 0xffff,
      nc_max_uri_handlers = of_nat (length supported_methods + length bindings)\<rparr>"

definition socket_handler :: "(nat \<Rightarrow> binding_info) \<Rightarrow> nat \<Rightarrow> handler" where
  "socket_handler info b = SocketHandler b (c_string (bi_path (info b)))
     (let p = c_string (bi_protocol (info b)) in if p \<noteq> [] then Some p else None)"

definition start_handlers :: "(nat \<Rightarrow> binding_info) \<Rightarrow> nat list \<Rightarrow> handler list" where
  "start_handlers info bindings =
     map (socket_handler info) bindings @ map MethodHandler supported_methods"

text \<open>Registering the handlers up to the first that is refused.\<close>

fun register_handlers ::
    "(nat \<Rightarrow> esp_err) \<Rightarrow> nat \<Rightarrow> nat \<Rightarrow> handler list \<Rightarrow> esp_err \<times> httpd_call list" where
  "register_handlers answers i h [] = (ESP_OK, [])"
| "register_handlers answers i h (x # xs) =
     (if answers i \<noteq> ESP_OK then (answers i, [CallRegister h x])
      else (let (e, calls) = register_handlers answers (Suc i) h xs in (e, CallRegister h x # calls)))"

definition start_failed :: "http_server \<Rightarrow> http_server" where
  "start_failed s = s\<lparr>hs_starting := False\<rparr>"

definition start_exit :: "nat \<Rightarrow> http_server \<Rightarrow> http_server" where
  "start_exit h s = s\<lparr>hs_server := Some h, hs_starting := False\<rparr>"

text \<open>\<open>started\<close> is the answer of \<open>httpd_start\<close> with the handle it yields.\<close>

definition server_start ::
    "esp_err \<times> nat \<Rightarrow> (nat \<Rightarrow> esp_err) \<Rightarrow> (nat \<Rightarrow> bool) \<Rightarrow> (nat \<Rightarrow> binding_info) \<Rightarrow> http_server
      \<Rightarrow> web_result \<times> http_server \<times> httpd_call list" where
  "server_start started registered active info s = (case start_enter active s of
       (Inl r, s1) \<Rightarrow> (r, s1, [])
     | (Inr (cfg, bindings), s1) \<Rightarrow>
         let start = CallStart (native_config_of cfg bindings)
         in if fst started \<noteq> ESP_OK
            then (http_result (fst started), start_failed s1, [start])
            else
              let h = snd started;
                  (e, calls) = register_handlers registered 0 h (start_handlers info bindings)
              in if e \<noteq> ESP_OK
                 then (http_result e, start_failed s1, start # calls @ [CallStop h])
                 else (Success, start_exit h s1, start # calls))"

section \<open>Stop and Reset\<close>

definition stop_enter :: "http_server \<Rightarrow> (web_result + nat) \<times> http_server" where
  "stop_enter s =
     (if hs_starting s then (Inl (fail_with InvalidState), s)
      else (case hs_server s of
          None \<Rightarrow> (Inl Success, s)
        | Some h \<Rightarrow> (Inr h, s\<lparr>hs_server := None\<rparr>)))"

definition server_stop ::
    "esp_err \<Rightarrow> (nat \<Rightarrow> bool) \<Rightarrow> http_server \<Rightarrow> web_result \<times> http_server \<times> httpd_call list" where
  "server_stop stopped active s = (case stop_enter s of
       (Inl r, s1) \<Rightarrow> (r, s1, [])
     | (Inr h, s1) \<Rightarrow> (http_result stopped, prune active s1, [CallStop h]))"

definition reset_section :: "http_config \<Rightarrow> (nat \<Rightarrow> bool) \<Rightarrow> http_server \<Rightarrow> http_server" where
  "reset_section empty_config active s =
     (if hs_starting s then s
      else prune active (s\<lparr>hs_dispatcher := None, hs_config := empty_config\<rparr>))"

definition server_reset ::
    "http_config \<Rightarrow> esp_err \<Rightarrow> (nat \<Rightarrow> bool) \<Rightarrow> http_server \<Rightarrow> http_server \<times> httpd_call list" where
  "server_reset empty_config stopped active s =
     (let (r, s1, calls) = server_stop stopped active s in (reset_section empty_config active s1, calls))"

section \<open>Callbacks of the native server\<close>

text \<open>\<open>HandleRequest\<close>: no dispatcher, or the dispatcher asked and whether it answered.\<close>

definition handle_request ::
    "(nat \<Rightarrow> bool \<Rightarrow> bool) \<Rightarrow> http_server \<Rightarrow> esp_err" where
  "handle_request dispatch s = (case hs_dispatcher s of
       None \<Rightarrow> ESP_FAIL
     | Some d \<Rightarrow> if dispatch d (hc_keep_alive (hs_config s)) then ESP_OK else ESP_FAIL)"

definition dispatch_websocket :: "(nat \<Rightarrow> bool) \<Rightarrow> (nat \<Rightarrow> esp_err) \<Rightarrow> nat option \<Rightarrow> esp_err" where
  "dispatch_websocket active handle ctx = (case ctx of
       None \<Rightarrow> ESP_FAIL
     | Some b \<Rightarrow> if active b then handle b else ESP_FAIL)"

definition session_closed_targets :: "http_server \<Rightarrow> nat list" where
  "session_closed_targets s = hs_bindings s"

section \<open>Interleavings\<close>

text \<open>
  The world around the server: the native servers that live, each with its handlers; the Start in
  progress with its local copies; the Stops between their two sections; how many Resets have called
  Stop and not yet run their own section; and the native servers whose \<open>httpd_stop\<close> was refused. A binding becomes active only while nobody knows it:
  \<open>ESP32WebSocketEndpointPlatform::Unbind\<close> never reactivates a state (it makes a fresh one).
\<close>

datatype start_progress =
    Entered http_config "nat list"
  | Registering nat "nat list" "handler list"

record http_world =
  hw_server :: http_server
  hw_active :: "nat list"
  hw_used :: "nat list"
  hw_start :: "start_progress option"
  hw_stopping :: "nat list"
  hw_refused :: "nat list"
  hw_live :: "(nat \<times> handler list) list"
  hw_resets :: nat

definition fresh_world :: "http_config \<Rightarrow> http_world" where
  "fresh_world cfg = \<lparr>hw_server = fresh_http_server cfg, hw_active = [], hw_used = [],
     hw_start = None, hw_stopping = [], hw_refused = [], hw_live = [], hw_resets = 0\<rparr>"

datatype http_event =
    EvInitialize http_config nat
  | EvActivate nat
  | EvDeactivate nat
  | EvAdd nat
  | EvRelease nat
  | EvStartEnter
  | EvStartNative esp_err nat
  | EvRegister esp_err esp_err
  | EvStartExit
  | EvStopEnter
  | EvStopExit nat esp_err
  | EvResetEnter
  | EvResetSection http_config

definition is_active :: "http_world \<Rightarrow> nat \<Rightarrow> bool" where
  "is_active w b \<longleftrightarrow> b \<in> set (hw_active w)"

definition add_handler :: "nat \<Rightarrow> handler \<Rightarrow> (nat \<times> handler list) list \<Rightarrow> (nat \<times> handler list) list" where
  "add_handler h x live = map (\<lambda>l. if fst l = h then (h, snd l @ [x]) else l) live"

text \<open>\<open>httpd_stop\<close>: the server is gone, or refused to go.\<close>

definition native_stop :: "nat \<Rightarrow> esp_err \<Rightarrow> http_world \<Rightarrow> http_world" where
  "native_stop h e w =
     (if e = ESP_OK then w\<lparr>hw_live := filter (\<lambda>l. fst l \<noteq> h) (hw_live w)\<rparr>
      else w\<lparr>hw_refused := h # hw_refused w\<rparr>)"

definition stop_enter_event :: "http_world \<Rightarrow> http_world" where
  "stop_enter_event w = (case stop_enter (hw_server w) of
       (Inl r, s) \<Rightarrow> w\<lparr>hw_server := s\<rparr>
     | (Inr h, s) \<Rightarrow> w\<lparr>hw_server := s, hw_stopping := h # hw_stopping w\<rparr>)"

fun step_event :: "(nat \<Rightarrow> binding_info) \<Rightarrow> http_event \<Rightarrow> http_world \<Rightarrow> http_world option" where
  "step_event info (EvInitialize cfg d) w =
     Some (w\<lparr>hw_server := snd (server_initialize cfg d (hw_server w))\<rparr>)"
| "step_event info (EvActivate b) w =
     (if b \<in> set (hw_used w) then None
      else Some (w\<lparr>hw_active := b # hw_active w, hw_used := b # hw_used w\<rparr>))"
| "step_event info (EvDeactivate b) w = Some (w\<lparr>hw_active := removeAll b (hw_active w)\<rparr>)"
| "step_event info (EvAdd b) w =
     Some (w\<lparr>hw_server := snd (add_binding (is_active w) info (Some b) (hw_server w))\<rparr>)"
| "step_event info (EvRelease b) w =
     Some (w\<lparr>hw_server := release_binding (is_active w) (Some b) (hw_server w)\<rparr>)"
| "step_event info EvStartEnter w = (case start_enter (is_active w) (hw_server w) of
       (Inl r, s) \<Rightarrow> Some (w\<lparr>hw_server := s\<rparr>)
     | (Inr (cfg, bs), s) \<Rightarrow> Some (w\<lparr>hw_server := s, hw_start := Some (Entered cfg bs)\<rparr>))"
| "step_event info (EvStartNative e h) w = (case hw_start w of
       Some (Entered cfg bs) \<Rightarrow>
         if e \<noteq> ESP_OK
         then Some (w\<lparr>hw_server := start_failed (hw_server w), hw_start := None\<rparr>)
         else if h \<in> fst ` set (hw_live w) then None
         else Some (w\<lparr>hw_live := (h, []) # hw_live w,
                      hw_start := Some (Registering h bs (start_handlers info bs))\<rparr>)
     | _ \<Rightarrow> None)"
| "step_event info (EvRegister e stopped) w = (case hw_start w of
       Some (Registering h bs (x # todo)) \<Rightarrow>
         if e = ESP_OK
         then Some (w\<lparr>hw_live := add_handler h x (hw_live w),
                      hw_start := Some (Registering h bs todo)\<rparr>)
         else Some ((native_stop h stopped w)\<lparr>hw_server := start_failed (hw_server w), hw_start := None\<rparr>)
     | _ \<Rightarrow> None)"
| "step_event info EvStartExit w = (case hw_start w of
       Some (Registering h bs []) \<Rightarrow>
         Some (w\<lparr>hw_server := start_exit h (hw_server w), hw_start := None\<rparr>)
     | _ \<Rightarrow> None)"
| "step_event info EvStopEnter w = Some (stop_enter_event w)"
| "step_event info (EvStopExit h e) w =
     (if h \<notin> set (hw_stopping w) then None
      else Some ((native_stop h e w)\<lparr>hw_stopping := remove1 h (hw_stopping w),
                   hw_server := prune (is_active w) (hw_server w)\<rparr>))"
| "step_event info EvResetEnter w =
     Some ((stop_enter_event w)\<lparr>hw_resets := Suc (hw_resets w)\<rparr>)"
| "step_event info (EvResetSection cfg) w =
     (if hw_resets w = 0 then None
      else Some (w\<lparr>hw_server := reset_section cfg (is_active w) (hw_server w),
                   hw_resets := hw_resets w - 1\<rparr>))"

text \<open>
  Reachable worlds. With \<open>serial\<close> a Stop or Reset that has begun finishes before anything else
  happens: no operation of the server is called during another thread's Stop or Reset.
\<close>

definition serial_event :: "http_world \<Rightarrow> http_event \<Rightarrow> bool" where
  "serial_event w ev = (case ev of
       EvStopExit h e \<Rightarrow> True
     | EvResetSection cfg \<Rightarrow> hw_stopping w = []
     | _ \<Rightarrow> hw_stopping w = [] \<and> hw_resets w = 0)"

inductive http_reach :: "bool \<Rightarrow> (nat \<Rightarrow> binding_info) \<Rightarrow> http_world \<Rightarrow> bool"
  for serial info where
  start: "http_reach serial info (fresh_world cfg)"
| step: "http_reach serial info w \<Longrightarrow> step_event info ev w = Some w' \<Longrightarrow>
    (serial \<longrightarrow> serial_event w ev) \<Longrightarrow> http_reach serial info w'"

fun run_events :: "bool \<Rightarrow> (nat \<Rightarrow> binding_info) \<Rightarrow> http_event list \<Rightarrow> http_world \<Rightarrow> http_world option" where
  "run_events serial info [] w = Some w"
| "run_events serial info (ev # evs) w =
     (if serial \<and> \<not> serial_event w ev then None
      else (case step_event info ev w of None \<Rightarrow> None | Some w' \<Rightarrow> run_events serial info evs w'))"

lemma run_events_reach:
  "run_events serial info evs w = Some w' \<Longrightarrow> http_reach serial info w \<Longrightarrow> http_reach serial info w'"
  by (induction evs arbitrary: w) (auto split: option.splits if_splits intro: http_reach.step)

lemma run_events_append:
  "run_events serial info (xs @ ys) w =
     (case run_events serial info xs w of None \<Rightarrow> None | Some w' \<Rightarrow> run_events serial info ys w')"
  by (induction xs arbitrary: w) (auto split: option.splits)

section \<open>Ownership of native servers\<close>

definition owned :: "http_world \<Rightarrow> nat list" where
  "owned w = (case hs_server (hw_server w) of None \<Rightarrow> [] | Some h \<Rightarrow> [h])"

definition starter :: "http_world \<Rightarrow> nat list" where
  "starter w = (case hw_start w of Some (Registering h bs todo) \<Rightarrow> [h] | _ \<Rightarrow> [])"

definition ownership :: "http_world \<Rightarrow> bool" where
  "ownership w \<longleftrightarrow>
     (hs_starting (hw_server w) \<longleftrightarrow> hw_start w \<noteq> None) \<and>
     (hs_starting (hw_server w) \<longrightarrow> hs_server (hw_server w) = None) \<and>
     distinct (map fst (hw_live w)) \<and>
     mset (map fst (hw_live w)) = mset (owned w @ starter w @ hw_stopping w @ hw_refused w)"

lemma map_fst_add_handler [simp]: "map fst (add_handler h x live) = map fst live"
  by (induction live) (auto simp: add_handler_def)

lemma mset_fst_add_handler [simp]: "image_mset fst (mset (add_handler h x live)) = image_mset fst (mset live)"
  by (simp flip: mset_map)

lemma mset_stopped:
  "distinct (map fst live) \<Longrightarrow> mset (map fst live) = add_mset h M \<Longrightarrow>
     mset (map fst (filter (\<lambda>l. fst l \<noteq> h) live)) = M \<and> distinct (map fst (filter (\<lambda>l. fst l \<noteq> h) live))"
proof (induction live arbitrary: M)
  case (Cons l live)
  have d: "distinct (map fst live)" "fst l \<notin> fst ` set live" using Cons.prems(1) by auto
  show ?case
  proof (cases "fst l = h")
    case True
    then have "filter (\<lambda>l. fst l \<noteq> h) live = live" using d(2) by (auto simp: filter_id_conv image_iff)
    then show ?thesis using True Cons.prems d(1) by simp
  next
    case False
    then obtain M' where m: "M = add_mset (fst l) M'" "mset (map fst live) = add_mset h M'"
      using Cons.prems(2) by (auto simp: add_eq_conv_ex)
    then show ?thesis using Cons.IH [OF d(1) m(2)] False d(2) by auto
  qed
qed simp

lemma native_stop_other [simp]:
  "hw_server (native_stop h e w) = hw_server w" "hw_start (native_stop h e w) = hw_start w"
  "hw_stopping (native_stop h e w) = hw_stopping w" "hw_active (native_stop h e w) = hw_active w"
  "hw_used (native_stop h e w) = hw_used w" "hw_resets (native_stop h e w) = hw_resets w"
  by (simp_all add: native_stop_def)

lemma native_stop_live:
  assumes "distinct (map fst (hw_live w))" "mset (map fst (hw_live w)) = add_mset h M"
  shows "distinct (map fst (hw_live (native_stop h e w))) \<and>
    mset (map fst (hw_live (native_stop h e w))) + mset (hw_refused w) = M + mset (hw_refused (native_stop h e w))"
  using assms mset_stopped [OF assms] by (simp add: native_stop_def)

lemma ownership_server:
  "ownership w \<Longrightarrow> hs_server s = hs_server (hw_server w) \<Longrightarrow> hs_starting s = hs_starting (hw_server w) \<Longrightarrow>
     ownership (w\<lparr>hw_server := s\<rparr>)"
  by (simp add: ownership_def owned_def starter_def)

lemma section_keeps:
  "hs_server (snd (server_initialize cfg d s)) = hs_server s"
  "hs_starting (snd (server_initialize cfg d s)) = hs_starting s"
  "hs_server (snd (add_binding active info b s)) = hs_server s"
  "hs_starting (snd (add_binding active info b s)) = hs_starting s"
  "hs_server (release_binding active b s) = hs_server s"
  "hs_starting (release_binding active b s) = hs_starting s"
  "hs_server (reset_section c active s) = hs_server s"
  "hs_starting (reset_section c active s) = hs_starting s"
  "hs_server (prune active s) = hs_server s"
  "hs_starting (prune active s) = hs_starting s"
  by (auto simp: server_initialize_def add_binding_def release_binding_def reset_section_def prune_def
      split: option.splits)

lemma ownership_cong:
  "hw_server w' = hw_server w \<Longrightarrow> hw_start w' = hw_start w \<Longrightarrow> hw_live w' = hw_live w \<Longrightarrow>
   hw_stopping w' = hw_stopping w \<Longrightarrow> hw_refused w' = hw_refused w \<Longrightarrow> ownership w' = ownership w"
  by (simp add: ownership_def owned_def starter_def)

lemma ownership_stop_enter: "ownership w \<Longrightarrow> ownership (stop_enter_event w)"
  by (auto simp: stop_enter_event_def stop_enter_def ownership_def owned_def starter_def
      split: option.splits)

lemma ownership_event:
  assumes own: "ownership w" and ev: "step_event info ev w = Some w'"
  shows "ownership w'"
proof (cases ev)
  case (EvStartNative e h)
  then show ?thesis using own ev
    by (auto simp: ownership_def owned_def starter_def start_failed_def
        split: option.splits start_progress.splits if_splits)
next
  case (EvRegister e stopped)
  then obtain h bs x todo where s: "hw_start w = Some (Registering h bs (x # todo))"
    using ev by (auto split: option.splits start_progress.splits list.splits)
  show ?thesis
  proof (cases "e = ESP_OK")
    case True
    then show ?thesis using own ev EvRegister s by (auto simp: ownership_def owned_def starter_def)
  next
    case False
    have m: "mset (map fst (hw_live w)) = add_mset h (mset (owned w @ hw_stopping w @ hw_refused w))"
      using own s by (simp add: ownership_def starter_def)
    show ?thesis
      using own ev EvRegister s False native_stop_live [OF _ m, of stopped]
      by (auto simp: ownership_def owned_def starter_def start_failed_def)
  qed
next
  case (EvStopExit h e)
  then have h: "h \<in> set (hw_stopping w)"
    "w' = (native_stop h e w)\<lparr>hw_stopping := remove1 h (hw_stopping w),
                   hw_server := prune (is_active w) (hw_server w)\<rparr>"
    using ev by (auto split: if_splits)
  then obtain S where S: "mset (hw_stopping w) = add_mset h S"
    by (metis in_multiset_in_set insert_DiffM)
  have m: "mset (map fst (hw_live w)) =
      add_mset h (mset (owned w @ starter w @ hw_refused w) + S)"
    using own S by (simp add: ownership_def)
  show ?thesis
    using own h S native_stop_live [OF _ m, of e]
    by (auto simp: ownership_def owned_def starter_def section_keeps)
next
  case (EvInitialize cfg d)
  then show ?thesis using own ev by (auto intro!: ownership_server simp: section_keeps)
next
  case (EvAdd b)
  then show ?thesis using own ev by (auto intro!: ownership_server simp: section_keeps)
next
  case (EvRelease b)
  then show ?thesis using own ev by (auto intro!: ownership_server simp: section_keeps)
next
  case (EvResetSection c)
  then show ?thesis using own ev
    by (auto simp: section_keeps ownership_def owned_def starter_def split: if_splits)
next
  case EvStopEnter
  then show ?thesis using own ev ownership_stop_enter by auto
next
  case EvResetEnter
  then show ?thesis using ownership_stop_enter [OF own] ev by (auto simp: ownership_def owned_def starter_def)
next
  case EvStartEnter
  then show ?thesis using own ev
    by (auto simp: start_enter_def busy_def prune_def ownership_def owned_def starter_def Let_def
        split: if_splits)
next
  case EvStartExit
  then show ?thesis using own ev
    by (auto simp: start_exit_def ownership_def owned_def starter_def
        split: option.splits start_progress.splits list.splits)
qed (use own ev in \<open>auto simp: ownership_def owned_def starter_def split: if_splits\<close>)

lemma ownership_reach: "http_reach serial info w \<Longrightarrow> ownership w"
proof (induction rule: http_reach.induct)
  case (start cfg)
  show ?case by (simp add: ownership_def fresh_world_def fresh_http_server_def owned_def starter_def)
qed (rule ownership_event)


section \<open>Bindings stay with the servers that use them\<close>

definition sockets :: "handler list \<Rightarrow> nat set" where
  "sockets hs = {b. \<exists>p q. SocketHandler b p q \<in> set hs}"

lemma sockets_simps [simp]:
  "sockets [] = {}" "sockets (SocketHandler b p q # hs) = insert b (sockets hs)"
  "sockets (MethodHandler m # hs) = sockets hs" "sockets (xs @ ys) = sockets xs \<union> sockets ys"
  by (auto simp: sockets_def)

lemma sockets_cons: "sockets (x # xs) = sockets [x] \<union> sockets xs"
  by (cases x) auto

lemma sockets_start [simp]: "sockets (start_handlers info bs) = set bs"
proof -
  have "sockets (map (socket_handler info) bs) = set bs"
    by (induction bs) (auto simp: socket_handler_def)
  moreover have "sockets (map MethodHandler ms) = {}" for ms by (induction ms) auto
  ultimately show ?thesis by (simp add: start_handlers_def)
qed

definition retained :: "http_world \<Rightarrow> bool" where
  "retained w \<longleftrightarrow>
     (\<forall>h hs. (h, hs) \<in> set (hw_live w) \<longrightarrow> h \<notin> set (hw_refused w) \<longrightarrow>
        sockets hs \<subseteq> set (hs_bindings (hw_server w))) \<and>
     (case hw_start w of
        None \<Rightarrow> True
      | Some (Entered cfg bs) \<Rightarrow> bs = hs_bindings (hw_server w)
      | Some (Registering h bs todo) \<Rightarrow>
          bs = hs_bindings (hw_server w) \<and> sockets todo \<subseteq> set (hs_bindings (hw_server w))) \<and>
     (hw_stopping w \<noteq> [] \<longrightarrow> hw_start w = None \<and> hs_server (hw_server w) = None) \<and>
     length (hw_stopping w) \<le> 1 \<and>
     (hw_resets w \<noteq> 0 \<longrightarrow> hs_server (hw_server w) = None)"

text \<open>When no server is owned, starting or stopping, every live one was refused.\<close>

lemma idle_live_refused:
  assumes "ownership w" "\<not> busy (hw_server w)" "(h, hs) \<in> set (hw_live w)"
    and "h \<notin> set (hw_refused w)" "h \<notin> set (hw_stopping w)"
  shows False
proof -
  have "mset (map fst (hw_live w)) = mset (owned w @ starter w @ hw_stopping w @ hw_refused w)"
    using assms(1) by (simp only: ownership_def)
  then have "h \<in> set (owned w @ starter w @ hw_stopping w @ hw_refused w)"
    using assms(3) by (metis fst_conv image_eqI list.set_map mset_eq_setD)
  then show False
    using assms by (auto simp: ownership_def busy_def owned_def starter_def)
qed

lemma retained_start_enter:
  assumes "retained w" "ownership w" "step_event info EvStartEnter w = Some w'"
    "hw_stopping w = []" "hw_resets w = 0"
  shows "retained w'"
proof (cases "busy (hw_server w)")
  case True
  then show ?thesis using assms(1,3) by (auto simp: start_enter_def)
next
  case False
  then have "\<And>k hs. (k, hs) \<in> set (hw_live w) \<Longrightarrow> k \<in> set (hw_refused w)"
    using idle_live_refused [OF assms(2)] assms(4) by auto
  then show ?thesis using assms False
    by (auto simp: start_enter_def retained_def prune_def Let_def split: if_splits)
qed

lemma retained_register:
  assumes "retained w" "ownership w" "step_event info (EvRegister e stopped) w = Some w'"
    "hw_stopping w = []"
  shows "retained w'"
proof -
  obtain h bs x todo where s: "hw_start w = Some (Registering h bs (x # todo))"
    using assms(3) by (auto split: option.splits start_progress.splits list.splits)
  have r: "sockets [x] \<subseteq> set (hs_bindings (hw_server w))" "sockets todo \<subseteq> set (hs_bindings (hw_server w))"
    "bs = hs_bindings (hw_server w)"
    "\<And>k hs. (k, hs) \<in> set (hw_live w) \<Longrightarrow> k \<notin> set (hw_refused w) \<Longrightarrow>
       sockets hs \<subseteq> set (hs_bindings (hw_server w))"
    "hw_resets w \<noteq> 0 \<longrightarrow> hs_server (hw_server w) = None"
    using assms(1,4) s unfolding retained_def by (simp_all add: sockets_cons [of x todo])
  show ?thesis
  proof (cases "e = ESP_OK")
    case True
    have "sockets hs \<subseteq> set (hs_bindings (hw_server w))"
      if l: "(k, hs) \<in> set (add_handler h x (hw_live w))" "k \<notin> set (hw_refused w)" for k hs
    proof -
      obtain hs0 where "(k, hs0) \<in> set (hw_live w)" "hs = hs0 \<or> hs = hs0 @ [x]"
        using l(1) by (auto simp: add_handler_def split: if_splits)
      then show ?thesis using r(1) r(4) [of k hs0] l(2) by auto
    qed
    moreover have "w' = w\<lparr>hw_live := add_handler h x (hw_live w), hw_start := Some (Registering h bs todo)\<rparr>"
      using assms(3) True s by simp
    ultimately show ?thesis using assms(4) r(2,3,5) by (simp add: retained_def)
  next
    case False
    then have w': "w' = (native_stop h stopped w)\<lparr>hw_server := start_failed (hw_server w), hw_start := None\<rparr>"
      using assms(3) s by simp
    show ?thesis using r(4,5) assms(4) unfolding w'
      by (simp add: retained_def native_stop_def start_failed_def) blast
  qed
qed

lemma retained_stop_exit:
  assumes "retained w" "ownership w" "step_event info (EvStopExit h e) w = Some w'"
  shows "retained w'"
proof -
  have h: "h \<in> set (hw_stopping w)"
    "w' = (native_stop h e w)\<lparr>hw_stopping := remove1 h (hw_stopping w),
                   hw_server := prune (is_active w) (hw_server w)\<rparr>"
    using assms(3) by (auto split: if_splits)
  then have idle: "\<not> busy (hw_server w)" "hw_start w = None"
    using assms(1,2) by (auto simp: retained_def ownership_def busy_def)
  have "(k, hs) \<in> set (hw_live w) \<Longrightarrow> k \<notin> set (hw_refused w) \<Longrightarrow> k \<in> set (hw_stopping w)" for k hs
    using idle_live_refused [OF assms(2) idle(1)] by blast
  moreover have "hw_stopping w = [h]"
    using h(1) assms(1) unfolding retained_def by (cases "hw_stopping w") auto
  ultimately show ?thesis
    using idle assms(1) unfolding h(2)
    by (auto simp: retained_def native_stop_def prune_def busy_def)
qed

lemma retained_event:
  assumes own: "ownership w" and ret: "retained w" and ev: "step_event info ev w = Some w'"
    and serial: "serial_event w ev"
  shows "retained w'"
proof (cases ev)
  case EvStartEnter
  then show ?thesis using retained_start_enter [OF ret own] ev serial by (simp add: serial_event_def)
next
  case (EvRegister e stopped)
  then show ?thesis using retained_register [OF ret own] ev serial by (simp add: serial_event_def)
next
  case (EvStopExit h e)
  then show ?thesis using retained_stop_exit [OF ret own] ev by simp
next
  case (EvRelease b)
  show ?thesis
  proof (cases "busy (hw_server w)")
    case True
    then show ?thesis using EvRelease ev ret by (auto del: subsetI simp: release_binding_def)
  next
    case False
    then have "\<And>k hs. (k, hs) \<in> set (hw_live w) \<Longrightarrow> k \<in> set (hw_refused w)" "hw_start w = None"
      using idle_live_refused [OF own] serial EvRelease own
      by (auto del: subsetI simp: serial_event_def ownership_def busy_def)
    then show ?thesis using EvRelease ev ret by (auto del: subsetI simp: release_binding_def retained_def)
  qed
next
  case (EvResetSection c)
  then have r: "hw_resets w \<noteq> 0" "hw_stopping w = []"
    "w' = w\<lparr>hw_server := reset_section c (is_active w) (hw_server w), hw_resets := hw_resets w - 1\<rparr>"
    using ev serial by (auto del: subsetI simp: serial_event_def split: if_splits)
  show ?thesis
  proof (cases "hs_starting (hw_server w)")
    case True
    then show ?thesis using r ret by (auto del: subsetI simp: reset_section_def retained_def split: option.splits start_progress.splits)
  next
    case False
    then have "\<not> busy (hw_server w)" "hw_start w = None"
      using r(1) ret own by (auto del: subsetI simp: retained_def busy_def ownership_def)
    moreover have "\<And>k hs. (k, hs) \<in> set (hw_live w) \<Longrightarrow> k \<in> set (hw_refused w)"
      using idle_live_refused [OF own] r(2) calculation by auto
    ultimately show ?thesis using r ret
      by (auto del: subsetI simp: reset_section_def retained_def prune_def busy_def)
  qed
next
  case (EvStartNative e h)
  then show ?thesis using ret ev serial
    by (auto del: subsetI simp: retained_def start_failed_def serial_event_def
        split: option.splits start_progress.splits if_splits)
next
  case (EvAdd b)
  then show ?thesis using ret ev serial own
    by (auto del: subsetI simp: retained_def add_binding_def serial_event_def ownership_def busy_def
        split: option.splits start_progress.splits if_splits) blast
next
  case (EvInitialize cfg d)
  then show ?thesis using ret ev
    by (auto del: subsetI simp: retained_def server_initialize_def split: option.splits start_progress.splits if_splits)
next
  case EvStartExit
  then show ?thesis using ret ev serial
    by (auto del: subsetI simp: retained_def start_exit_def serial_event_def
        split: option.splits start_progress.splits list.splits)
next
  case EvStopEnter
  then show ?thesis using ret ev own
    by (auto del: subsetI simp: retained_def stop_enter_event_def stop_enter_def ownership_def
        split: option.splits start_progress.splits if_splits)
next
  case EvResetEnter
  then show ?thesis using ret ev own
    by (auto del: subsetI simp: retained_def stop_enter_event_def stop_enter_def ownership_def
        split: option.splits start_progress.splits if_splits)
qed (use ret ev in \<open>auto del: subsetI simp: retained_def split: option.splits start_progress.splits if_splits\<close>)

lemma retained_reach:
  "http_reach serial info w \<Longrightarrow> serial \<Longrightarrow> retained w"
proof (induction rule: http_reach.induct)
  case (start cfg)
  show ?case by (simp add: retained_def fresh_world_def fresh_http_server_def)
next
  case (step w ev w')
  then show ?case using retained_event ownership_reach by blast
qed


section \<open>Paths of active bindings\<close>

definition routes_ok :: "(nat \<Rightarrow> binding_info) \<Rightarrow> (nat \<Rightarrow> bool) \<Rightarrow> nat list \<Rightarrow> bool" where
  "routes_ok info active bs \<longleftrightarrow> distinct bs \<and>
     (\<forall>b \<in> set bs. take 1 (bi_path (info b)) = ''/'') \<and>
     (\<forall>a \<in> set bs. \<forall>b \<in> set bs. active a \<longrightarrow> active b \<longrightarrow> a \<noteq> b \<longrightarrow>
        c_string (bi_path (info a)) \<noteq> c_string (bi_path (info b)))"

lemma find_conflict_none:
  "find_conflict active info b es = None \<longleftrightarrow>
     (\<forall>e \<in> set es. active e \<longrightarrow> e \<noteq> b \<and> c_string (bi_path (info e)) \<noteq> c_string (bi_path (info b)))"
  by (induction es) auto

lemma routes_ok_filter: "routes_ok info active bs \<Longrightarrow> routes_ok info active (filter p bs)"
  by (auto simp: routes_ok_def)

lemma routes_ok_mono:
  "routes_ok info active bs \<Longrightarrow> (\<And>b. b \<in> set bs \<Longrightarrow> active' b \<Longrightarrow> active b) \<Longrightarrow> routes_ok info active' bs"
  by (auto simp: routes_ok_def)

lemma routes_ok_add:
  "routes_ok info active (hs_bindings s) \<Longrightarrow>
     routes_ok info active (hs_bindings (snd (add_binding active info b s)))"
  by (auto simp: add_binding_def routes_ok_def find_conflict_none split: option.splits)

lemma section_bindings:
  "hs_bindings (snd (server_initialize cfg d s)) = hs_bindings s"
  "hs_bindings (start_failed s) = hs_bindings s"
  "hs_bindings (start_exit h s) = hs_bindings s"
  "hs_bindings (snd (stop_enter s)) = hs_bindings s"
  by (auto simp: server_initialize_def start_failed_def start_exit_def stop_enter_def
      split: option.splits)

definition routes_inv :: "(nat \<Rightarrow> binding_info) \<Rightarrow> http_world \<Rightarrow> bool" where
  "routes_inv info w \<longleftrightarrow> routes_ok info (is_active w) (hs_bindings (hw_server w)) \<and>
     set (hw_active w) \<subseteq> set (hw_used w) \<and> set (hs_bindings (hw_server w)) \<subseteq> set (hw_used w)"

lemma stop_enter_event_other [simp]:
  "hw_active (stop_enter_event w) = hw_active w" "hw_used (stop_enter_event w) = hw_used w"
  "hs_bindings (hw_server (stop_enter_event w)) = hs_bindings (hw_server w)"
  by (auto simp: stop_enter_event_def stop_enter_def split: option.splits)

lemma routes_inv_event:
  assumes inv: "routes_inv info w" and ev: "step_event info ev w = Some w'"
  shows "routes_inv info w'"
proof (cases ev)
  case (EvAdd b)
  have "set (hs_bindings (snd (add_binding (is_active w) info (Some b) (hw_server w)))) \<subseteq> set (hw_used w)"
    using inv by (auto simp: routes_inv_def add_binding_def is_active_def split: option.splits)
  then show ?thesis
    using inv ev EvAdd routes_ok_add [of info "is_active w" "hw_server w" "Some b"]
    by (auto simp: routes_inv_def is_active_def [abs_def])
next
  case (EvActivate b)
  then have b: "b \<notin> set (hs_bindings (hw_server w))"
    "w' = w\<lparr>hw_active := b # hw_active w, hw_used := b # hw_used w\<rparr>"
    using inv ev by (auto simp: routes_inv_def split: if_splits)
  have "routes_ok info (is_active w') (hs_bindings (hw_server w))"
    by (rule routes_ok_mono [of info "is_active w"]) (use inv b in \<open>auto simp: routes_inv_def is_active_def\<close>)
  then show ?thesis using inv unfolding b(2) by (auto simp: routes_inv_def)
next
  case (EvDeactivate b)
  then have w': "w' = w\<lparr>hw_active := removeAll b (hw_active w)\<rparr>" using ev by simp
  have "routes_ok info (is_active w') (hs_bindings (hw_server w))"
    by (rule routes_ok_mono [of info "is_active w"]) (use inv w' in \<open>auto simp: routes_inv_def is_active_def\<close>)
  then show ?thesis using inv unfolding w' by (auto simp: routes_inv_def)
next
  case (EvRelease b)
  then show ?thesis using inv ev
    by (cases "busy (hw_server w)")
      (auto simp: routes_inv_def release_binding_def is_active_def [abs_def] intro!: routes_ok_filter)
next
  case EvStartEnter
  then show ?thesis using inv ev
    by (auto simp: routes_inv_def start_enter_def prune_def is_active_def [abs_def] Let_def
        intro!: routes_ok_filter split: if_splits)
next
  case (EvStopExit h e)
  then show ?thesis using inv ev
    by (auto simp: routes_inv_def prune_def is_active_def [abs_def] intro!: routes_ok_filter split: if_splits)
next
  case (EvResetSection c)
  then show ?thesis using inv ev
    by (auto simp: routes_inv_def reset_section_def prune_def is_active_def [abs_def]
        intro!: routes_ok_filter split: if_splits)
next
  case (EvRegister e stopped)
  then show ?thesis using inv ev
    by (auto simp: routes_inv_def section_bindings is_active_def [abs_def]
        split: option.splits start_progress.splits list.splits if_splits)
next
  case EvStartExit
  then show ?thesis using inv ev
    by (auto simp: routes_inv_def section_bindings is_active_def [abs_def]
        split: option.splits start_progress.splits list.splits)
next
  case (EvStartNative e h)
  then show ?thesis using inv ev
    by (auto simp: routes_inv_def section_bindings is_active_def [abs_def]
        split: option.splits start_progress.splits if_splits)
qed (use inv ev in \<open>auto simp: routes_inv_def section_bindings is_active_def [abs_def]\<close>)

lemma routes_inv_reach: "http_reach serial info w \<Longrightarrow> routes_inv info w"
proof (induction rule: http_reach.induct)
  case (start cfg)
  show ?case by (simp add: routes_inv_def routes_ok_def fresh_world_def fresh_http_server_def)
qed (rule routes_inv_event)


section \<open>Start\<close>

lemma register_all:
  "(\<And>j. j < length xs \<Longrightarrow> answers (k + j) = ESP_OK) \<Longrightarrow>
     register_handlers answers k h xs = (ESP_OK, map (CallRegister h) xs)"
proof (induction xs arbitrary: k)
  case (Cons x xs)
  have "answers k = ESP_OK" using Cons.prems [of 0] by simp
  moreover have "answers (Suc k + j) = ESP_OK" if "j < length xs" for j
    using Cons.prems [of "Suc j"] that by simp
  ultimately show ?case using Cons.IH [of "Suc k"] by simp
qed simp

lemma register_until:
  "n < length xs \<Longrightarrow> answers (k + n) \<noteq> ESP_OK \<Longrightarrow> (\<And>j. j < n \<Longrightarrow> answers (k + j) = ESP_OK) \<Longrightarrow>
     register_handlers answers k h xs = (answers (k + n), map (CallRegister h) (take (Suc n) xs))"
proof (induction n arbitrary: xs k)
  case 0
  then show ?case by (cases xs) auto
next
  case (Suc n)
  obtain y ys where xs: "xs = y # ys" using Suc.prems(1) by (cases xs) auto
  have "answers k = ESP_OK" using Suc.prems(3) [of 0] by simp
  moreover have "answers (Suc k + j) = ESP_OK" if "j < n" for j
    using Suc.prems(3) [of "Suc j"] that by simp
  ultimately show ?case using Suc.IH [of ys "Suc k"] Suc.prems(1,2) xs by simp
qed

lemma handler_count:
  assumes "length bs < 60000"
  shows "unat (nc_max_uri_handlers (native_config_of cfg bs)) = length (start_handlers info bs)"
proof -
  have "unat (of_nat n :: u16) = n" if "n < 65536" for n
    using that by (simp add: unsigned_of_nat take_bit_nat_eq_self)
  moreover have "length supported_methods + length bs < 65536"
    using assms by (simp add: supported_methods_def)
  ultimately show ?thesis
    unfolding native_config_of_def by (simp only: native_config.simps) (simp add: start_handlers_def add.commute)
qed

section \<open>Properties\<close>

text \<open>C17: However threads interleave Initialize, Start, Stop, Reset and the binding operations:
  a Start is in progress exactly while the server is marked as starting, never with a server
  already owned, so two Starts never overlap; and the native servers that live are, each exactly
  once, the one owned, the one being started, those between the two sections of a Stop, and those
  whose stop was refused: none is lost and none is stopped twice.\<close>

theorem http_server_ownership:
  assumes "http_reach False info w"
  shows "(hs_starting (hw_server w) \<longleftrightarrow> hw_start w \<noteq> None) \<and>
    (hs_starting (hw_server w) \<longrightarrow> hs_server (hw_server w) = None) \<and>
    distinct (map fst (hw_live w)) \<and>
    mset (map fst (hw_live w)) =
      mset ((case hs_server (hw_server w) of None \<Rightarrow> [] | Some h \<Rightarrow> [h])
        @ (case hw_start w of Some (Registering h bs todo) \<Rightarrow> [h] | _ \<Rightarrow> [])
        @ hw_stopping w @ hw_refused w)"
  using ownership_reach [OF assms] unfolding ownership_def owned_def starter_def by blast

definition demo_info :: "nat \<Rightarrow> binding_info" where
  "demo_info b = \<lparr>bi_path = ''/ws'', bi_protocol = ''chat''\<rparr>"

definition demo_config :: http_config where
  "demo_config = \<lparr>hc_transport = PlainTransport, hc_port = 80, hc_max_connections = 4, hc_keep_alive = True\<rparr>"

definition demo_started :: "http_event list" where
  "demo_started = [EvActivate 1, EvInitialize demo_config 0, EvAdd 1, EvStartEnter, EvStartNative ESP_OK 7]
     @ replicate 10 (EvRegister ESP_OK ESP_OK) @ [EvStartExit]"

definition demo_world :: http_world where
  "demo_world = \<lparr>hw_server = \<lparr>hs_server = Some 7, hs_starting = False, hs_dispatcher = Some 0,
       hs_config = demo_config, hs_bindings = [1]\<rparr>,
     hw_active = [1], hw_used = [1], hw_start = None, hw_stopping = [], hw_refused = [],
     hw_live = [(7, start_handlers demo_info [1])], hw_resets = 0\<rparr>"

lemmas demo_simps = demo_info_def demo_config_def start_handlers_def socket_handler_def
  supported_methods_def c_string_def busy_def is_active_def prune_def

lemma demo_run: "run_events serial demo_info demo_started (fresh_world demo_config) = Some demo_world"
  by (cases serial) (simp_all add: demo_started_def demo_world_def fresh_world_def fresh_http_server_def
      server_initialize_def add_binding_def start_enter_def start_exit_def add_handler_def serial_event_def
      eval_nat_numeral demo_simps)

lemma demo_reach: "http_reach serial demo_info demo_world"
  by (rule run_events_reach [OF demo_run http_reach.start])

lemma http_server_ownership_witness:
  "http_reach False demo_info demo_world \<and> mset (map fst (hw_live demo_world)) = {#7#}"
  using http_server_ownership [OF demo_reach] demo_reach by (simp add: demo_world_def)

text \<open>C18: A binding registered with a native server as the context of its handler is kept by the
  server object as long as that native server runs, also while it is being stopped, so the raw
  pointer the handler holds stays valid, unless its \<open>httpd_stop\<close> has been refused: in every world
  reached when no other operation runs during a Stop or Reset, every socket handler of a live native
  server whose stop was not refused is a binding of the list. (After a refusal the server object has
  given the native server up and drops the bindings it still uses, http_refused_stop_dangling below;
  and operations during a Stop can drop them too, http_stop_race_dangling.) And the paths of the
  active bindings of the list begin with a slash and are pairwise different.\<close>

theorem http_bindings_retained:
  assumes "http_reach True info w" and "(h, hs) \<in> set (hw_live w)" and "h \<notin> set (hw_refused w)"
  shows "(\<forall>b p q. SocketHandler b p q \<in> set hs \<longrightarrow> b \<in> set (hs_bindings (hw_server w))) \<and>
    (\<forall>b \<in> set (hs_bindings (hw_server w)). take 1 (bi_path (info b)) = ''/'') \<and>
    (\<forall>a \<in> set (hs_bindings (hw_server w)). \<forall>b \<in> set (hs_bindings (hw_server w)).
       is_active w a \<longrightarrow> is_active w b \<longrightarrow> a \<noteq> b \<longrightarrow>
         c_string (bi_path (info a)) \<noteq> c_string (bi_path (info b)))"
proof -
  have "retained w" using retained_reach [OF assms(1)] by simp
  then have "sockets hs \<subseteq> set (hs_bindings (hw_server w))" using assms(2,3) unfolding retained_def by blast
  moreover have "routes_inv info w" using routes_inv_reach [OF assms(1)] .
  ultimately show ?thesis unfolding routes_inv_def routes_ok_def sockets_def by blast
qed

lemma http_bindings_retained_witness:
  "1 \<in> set (hs_bindings (hw_server demo_world))"
  using http_bindings_retained [OF demo_reach, of 7 "start_handlers demo_info [1]"]
  by (simp add: demo_world_def demo_simps)

text \<open>Without that discipline a handler is left with a binding nobody keeps. While one thread
  is inside Stop, between giving up the server and the return of \<open>httpd_stop\<close>, the native server
  still runs with its handlers, but the server object no longer counts as running: another
  thread's Unbind gets its binding released at once. The trace below is such an interleaving: the
  native server lives, is not refused, and its handler's binding is in no list.\<close>

theorem http_stop_race_dangling:
  "\<exists>w. run_events False demo_info
       (demo_started @ [EvStopEnter, EvDeactivate 1, EvRelease 1]) (fresh_world demo_config) = Some w \<and>
     http_reach False demo_info w \<and>
     (\<exists>hs p q. (7, hs) \<in> set (hw_live w) \<and> SocketHandler 1 p q \<in> set hs) \<and>
     hw_refused w = [] \<and> 1 \<notin> set (hs_bindings (hw_server w)) \<and> hw_start w = None"
proof -
  define w where "w = demo_world\<lparr>hw_stopping := [7], hw_active := [],
    hw_server := (hw_server demo_world)\<lparr>hs_server := None, hs_bindings := []\<rparr>\<rparr>"
  have "run_events False demo_info [EvStopEnter, EvDeactivate 1, EvRelease 1] demo_world = Some w"
    by (simp add: w_def demo_world_def stop_enter_event_def stop_enter_def release_binding_def
        busy_def is_active_def)
  then have run: "run_events False demo_info
      (demo_started @ [EvStopEnter, EvDeactivate 1, EvRelease 1]) (fresh_world demo_config) = Some w"
    by (simp add: run_events_append demo_run)
  have "http_reach False demo_info w" by (rule run_events_reach [OF run http_reach.start])
  moreover have "SocketHandler 1 ''/ws'' (Some ''chat'') \<in> set (start_handlers demo_info [1])"
    by (simp add: demo_simps)
  ultimately show ?thesis using run by (intro exI [of _ w]) (auto simp: w_def demo_world_def)
qed

text \<open>A refused stop, with no other thread about: the native server goes on, but the server object
  has given it up, so the Unbind that follows releases the binding its handler points to.\<close>

lemma http_refused_stop_dangling:
  "\<exists>w. run_events True demo_info
       (demo_started @ [EvStopEnter, EvStopExit 7 ESP_FAIL, EvDeactivate 1, EvRelease 1])
       (fresh_world demo_config) = Some w \<and>
     http_reach True demo_info w \<and>
     (\<exists>hs p q. (7, hs) \<in> set (hw_live w) \<and> SocketHandler 1 p q \<in> set hs) \<and>
     hs_server (hw_server w) = None \<and> 1 \<notin> set (hs_bindings (hw_server w))"
proof -
  define w where "w = demo_world\<lparr>hw_refused := [7], hw_active := [],
    hw_server := (hw_server demo_world)\<lparr>hs_server := None, hs_bindings := []\<rparr>\<rparr>"
  have "run_events True demo_info [EvStopEnter, EvStopExit 7 ESP_FAIL, EvDeactivate 1, EvRelease 1]
      demo_world = Some w"
    by (simp add: w_def demo_world_def stop_enter_event_def stop_enter_def release_binding_def
        busy_def is_active_def serial_event_def native_stop_def prune_def)
  then have run: "run_events True demo_info
      (demo_started @ [EvStopEnter, EvStopExit 7 ESP_FAIL, EvDeactivate 1, EvRelease 1])
      (fresh_world demo_config) = Some w"
    by (simp add: run_events_append demo_run)
  have "http_reach True demo_info w" by (rule run_events_reach [OF run http_reach.start])
  moreover have "SocketHandler 1 ''/ws'' (Some ''chat'') \<in> set (start_handlers demo_info [1])"
    by (simp add: demo_simps)
  ultimately show ?thesis using run by (intro exI [of _ w]) (auto simp: w_def demo_world_def)
qed

text \<open>Start on an idle server with a dispatcher: the configuration it passes has room for
  exactly the handlers it registers; it starts the native server, registers one handler for each
  active binding and then one for each of the nine methods, in that order. When nothing is refused
  it owns the server. At the first refusal it stops the native server it started, owns nothing,
  returns the error, and can be called again. Otherwise it makes no call and changes nothing.\<close>

theorem http_start_outcome:
  assumes "length (hs_bindings s) < 60000"
  shows "let bs = filter active (hs_bindings s); xs = start_handlers info bs;
      c = native_config_of (hs_config s) bs
    in (unat (nc_max_uri_handlers c) = length xs) \<and>
      server_start (e, h) answers active info s =
       (if busy s then (fail_with AlreadyRunning, s, [])
        else if hs_dispatcher s = None then (fail_with InvalidState, s, [])
        else if e \<noteq> ESP_OK then (http_result e, prune active s, [CallStart c])
        else (case find (\<lambda>i. answers i \<noteq> ESP_OK) [0..<length xs] of
            None \<Rightarrow> (Success, (prune active s)\<lparr>hs_server := Some h\<rparr>, CallStart c # map (CallRegister h) xs)
          | Some i \<Rightarrow> (http_result (answers i), prune active s,
              CallStart c # map (CallRegister h) (take (Suc i) xs) @ [CallStop h])))"
proof -
  let ?bs = "filter active (hs_bindings s)"
  have len: "length ?bs < 60000" using assms le_less_trans [OF length_filter_le] by blast
  let ?xs = "start_handlers info ?bs"
  have idle: "\<not> busy s \<Longrightarrow> (prune active s)\<lparr>hs_starting := False\<rparr> = prune active s"
    "\<not> busy s \<Longrightarrow> (prune active s)\<lparr>hs_server := Some h, hs_starting := False\<rparr> = (prune active s)\<lparr>hs_server := Some h\<rparr>"
    by (cases s; simp add: prune_def busy_def)+
  have reg: "register_handlers answers 0 h ?xs =
      (case find (\<lambda>i. answers i \<noteq> ESP_OK) [0..<length ?xs] of
         None \<Rightarrow> (ESP_OK, map (CallRegister h) ?xs)
       | Some i \<Rightarrow> (answers i, map (CallRegister h) (take (Suc i) ?xs))) \<and>
      (\<forall>i. find (\<lambda>i. answers i \<noteq> ESP_OK) [0..<length ?xs] = Some i \<longrightarrow> answers i \<noteq> ESP_OK)"
  proof (cases "find (\<lambda>i. answers i \<noteq> ESP_OK) [0..<length ?xs]")
    case None
    then have "\<And>j. j < length ?xs \<Longrightarrow> answers (0 + j) = ESP_OK"
      unfolding find_None_iff by simp
    then show ?thesis using None register_all [of ?xs answers 0 h] by simp
  next
    case (Some i)
    then have "i < length ?xs" "answers i \<noteq> ESP_OK" "\<And>j. j < i \<Longrightarrow> answers j = ESP_OK"
      by (auto simp: find_Some_iff)
    then show ?thesis using Some register_until [of i ?xs answers 0 h] by simp
  qed
  show ?thesis
    using idle reg handler_count [OF len, of "hs_config s" info]
    by (auto simp: server_start_def start_enter_def start_failed_def start_exit_def Let_def prune_def
        split: option.splits)
qed

lemma http_start_outcome_witness:
  "fst (server_start (ESP_OK, 7) (\<lambda>i. if i = 3 then ESP_ERR_NO_MEM else ESP_OK) (\<lambda>_. True) demo_info
     ((fresh_http_server demo_config)\<lparr>hs_dispatcher := Some 0\<rparr>)) = http_result ESP_ERR_NO_MEM"
proof -
  have "find (\<lambda>i. (if i = 3 then ESP_ERR_NO_MEM else ESP_OK) \<noteq> ESP_OK) [0..<9] = Some (3 :: nat)"
    by (simp add: upt_rec)
  then show ?thesis
    using http_start_outcome [of "(fresh_http_server demo_config)\<lparr>hs_dispatcher := Some 0\<rparr>"
      "\<lambda>_. True" demo_info ESP_OK 7 "\<lambda>i. if i = 3 then ESP_ERR_NO_MEM else ESP_OK"]
    by (simp add: fresh_http_server_def busy_def start_handlers_def supported_methods_def Let_def)
qed

section \<open>The registry of bindings, as an endpoint uses it\<close>

text \<open>
  What an endpoint relies on of the HTTP server: a state that is not in the registry enters it
  exactly by a successful \<open>add\<close>; a release drops it, and whatever is inactive, unless the server
  runs, when nothing changes.
\<close>

locale binding_registry =
  fixes add :: "(nat \<Rightarrow> bool) \<Rightarrow> (nat \<Rightarrow> 'i) \<Rightarrow> nat \<Rightarrow> 's \<Rightarrow> web_result \<times> 's"
    and release :: "(nat \<Rightarrow> bool) \<Rightarrow> nat \<Rightarrow> 's \<Rightarrow> 's"
    and kept :: "'s \<Rightarrow> nat set"
    and running :: "'s \<Rightarrow> bool"
  assumes add_new: "b \<notin> kept s \<Longrightarrow> kept (snd (add active info b s)) =
      (if fst (add active info b s) = Success then insert b (kept s) else kept s)"
    and add_running: "running s \<Longrightarrow> fst (add active info b s) \<noteq> Success"
    and release_idle: "\<not> running s \<Longrightarrow> kept (release active b s) = {c \<in> kept s. c \<noteq> b \<and> active c}"
    and release_running: "running s \<Longrightarrow> kept (release active b s) = kept s"
begin

lemma added: "b \<notin> kept s \<Longrightarrow> add active info b s = (Success, s') \<Longrightarrow> kept s' = insert b (kept s)"
  using add_new [of b s active info] by simp

lemma refused: "b \<notin> kept s \<Longrightarrow> add active info b s = (r, s') \<Longrightarrow> r \<noteq> Success \<Longrightarrow> kept s' = kept s"
  using add_new [of b s active info] by simp

lemma others_stay: "c \<in> kept s \<Longrightarrow> active c \<Longrightarrow> c \<noteq> b \<Longrightarrow> c \<in> kept (release active b s)"
  by (cases "running s") (simp_all add: release_idle release_running)

lemma nothing_enters: "kept (release active b s) \<subseteq> kept s"
  by (cases "running s") (auto simp: release_idle release_running)

lemma add_then_release:
  "b \<notin> kept s \<Longrightarrow> add active info b s = (Success, s') \<Longrightarrow> \<not> running s' \<Longrightarrow>
     kept (release active' b s') = {c \<in> kept s. active' c}"
  using release_idle [of s' active' b] added [of b s active info s'] by auto

end

lemma add_binding_kept:
  assumes "b \<notin> set (hs_bindings s)"
  shows "set (hs_bindings (snd (add_binding active info (Some b) s))) =
    (if fst (add_binding active info (Some b) s) = Success then insert b (set (hs_bindings s))
     else set (hs_bindings s))"
proof -
  have "find_conflict active info b es = Some r \<Longrightarrow> b \<notin> set es \<Longrightarrow> r \<noteq> Success" for es r
    by (induction es) (auto split: if_splits)
  then show ?thesis using assms by (auto simp: add_binding_def split: option.splits)
qed

interpretation http_registry: binding_registry
  "\<lambda>active info b. add_binding active info (Some b)" "\<lambda>active b. release_binding active (Some b)"
  "\<lambda>s. set (hs_bindings s)" busy
proof
  show "b \<notin> set (hs_bindings s) \<Longrightarrow> set (hs_bindings (snd (add_binding active info (Some b) s))) =
      (if fst (add_binding active info (Some b) s) = Success then insert b (set (hs_bindings s))
       else set (hs_bindings s))" for b s active info
    by (rule add_binding_kept)
qed (auto simp: add_binding_def release_binding_def)

end
