(* ===== verification/Ws_Endpoint.thy ===== *)
theory Ws_Endpoint
  imports Http_Server
begin

text \<open>
  src/ESPressio_WebSocketEndpointPlatform.hpp: WebSocket connections on the native HTTP server
  (\<open>ESP32WebSocketConnection\<close>), the state of an endpoint's binding (\<open>BindingState\<close>) and the endpoint
  (\<open>ESP32WebSocketEndpointPlatform\<close>).

  What an operation does to the outside is a list of outputs in the order of the code: events for
  the sink, and calls of the native server. Of an activity the model keeps everything but its
  detail text. The answers of the native server and of the allocator to one operation are its
  environment. Payloads are bytes. An operation holds the only reference that changes a
  connection, so a connection is updated in place in the list of its binding.
\<close>

section \<open>Frames, events and calls\<close>

datatype ws_type = WsContinue | WsText | WsBinary | WsClose | WsPing | WsPong | WsOther int

datatype ws_frame_type = FtText | FtBinary | FtPing | FtPong | FtClose

definition frame_type_of :: "ws_type \<Rightarrow> ws_frame_type" where
  "frame_type_of t = (case t of
       WsText \<Rightarrow> FtText
     | WsBinary \<Rightarrow> FtBinary
     | WsPing \<Rightarrow> FtPing
     | WsPong \<Rightarrow> FtPong
     | WsClose \<Rightarrow> FtClose
     | _ \<Rightarrow> FtBinary)"

datatype activity_kind =
    BindRequested | EndpointBound | EndpointUnbound | UpgradeRequested | ConnectionCreated
  | FrameHeaderReceived | FramePayloadReceived | FragmentStarted | FragmentCompleted
  | PingReceived | PongReceived | PeerCloseReceived | ReceiveFailed | ProtocolFault
  | SendQueued | SendFailed | CloseRequested | SessionClosed

type_synonym ws_id = u32

datatype ws_output =
    Activity activity_kind ws_id ws_frame_type nat web_result u16
  | OnConnected ws_id
  | OnDisconnected ws_id u16 bytes
  | OnText ws_id bytes
  | OnBinary ws_id bytes
  | SendAsync ws_id ws_type bytes bool
  | SendNow ws_type bytes
  | TriggerClose ws_id

text \<open>An event goes to the sink when there is one.\<close>

definition notify :: "bool \<Rightarrow> ws_output \<Rightarrow> ws_output list" where
  "notify sink ev = (if sink then [ev] else [])"

definition max_message :: nat where "max_message = 65536"

definition read_network_u16 :: "bytes \<Rightarrow> u16 option" where
  "read_network_u16 d = do { hi \<leftarrow> rd d 0; lo \<leftarrow> rd d 1; Some (of_be16 hi lo) }"

section \<open>Connections\<close>

record ws_connection =
  wc_id :: ws_id
  wc_server :: bool
  wc_sink :: bool
  wc_open :: bool
  wc_close_code :: u16
  wc_close_reason :: bytes
  wc_fragmenting :: bool
  wc_fragment_type :: ws_type
  wc_fragments :: bytes

definition new_connection :: "bool \<Rightarrow> ws_id \<Rightarrow> bool \<Rightarrow> ws_connection" where
  "new_connection server i sink = \<lparr>wc_id = i, wc_server = server, wc_sink = sink, wc_open = True,
     wc_close_code = 1006, wc_close_reason = [], wc_fragmenting = False,
     wc_fragment_type = WsBinary, wc_fragments = []\<rparr>"

datatype allocation = Allocated | BadAlloc | OtherFailure

record ws_env =
  we_websocket :: "ws_id \<Rightarrow> bool"
  we_alloc :: allocation
  we_async :: "ws_id \<Rightarrow> esp_err"

definition connection_is_open :: "ws_env \<Rightarrow> ws_connection \<Rightarrow> bool" where
  "connection_is_open env c \<longleftrightarrow> wc_open c \<and> wc_server c \<and> we_websocket env (wc_id c)"

definition send_failed :: "ws_connection \<Rightarrow> ws_type \<Rightarrow> nat \<Rightarrow> web_result \<Rightarrow> web_result \<times> ws_output list" where
  "send_failed c t n r = (r, notify (wc_sink c) (Activity SendFailed (wc_id c) (frame_type_of t) n r 0))"

text \<open>\<open>QueueOwnedFrame\<close>; what the queued operation does when it completes is \<open>send_completed\<close>.\<close>

definition queue_owned_frame ::
    "ws_env \<Rightarrow> ws_type \<Rightarrow> bytes \<Rightarrow> bool \<Rightarrow> bool \<Rightarrow> ws_connection \<Rightarrow> web_result \<times> ws_output list" where
  "queue_owned_frame env t payload close_after allow_closed c =
     (let n = length payload
      in if (\<not> allow_closed \<and> \<not> wc_open c) \<or> \<not> wc_server c
         then send_failed c t n (fail_with Closed)
      else if \<not> we_websocket env (wc_id c) then send_failed c t n (fail_with Closed)
      else if we_alloc env = BadAlloc then send_failed c t n (fail_with ResourceExhausted)
      else if we_alloc env = OtherFailure then send_failed c t n (fail_with PlatformFailure)
      else
        let call = SendAsync (wc_id c) t payload close_after; queued = we_async env (wc_id c)
        in if queued \<noteq> ESP_OK
           then (let (r, out) = send_failed c t n (websocket_result queued) in (r, call # out))
           else (Success, call # notify (wc_sink c)
             (Activity SendQueued (wc_id c) (frame_type_of t) n Success 0)))"

definition send_completed :: "bool \<Rightarrow> bool \<Rightarrow> ws_id \<Rightarrow> ws_output list" where
  "send_completed close_after server i = (if close_after \<and> server then [TriggerClose i] else [])"

text \<open>\<open>QueueFrame\<close>; \<open>None\<close> is the null pointer.\<close>

definition queue_frame ::
    "ws_env \<Rightarrow> ws_type \<Rightarrow> bytes option \<Rightarrow> nat \<Rightarrow> bool \<Rightarrow> ws_connection
      \<Rightarrow> (web_result \<times> ws_output list) option" where
  "queue_frame env t data n close_after c =
     (if \<not> wc_open c \<or> \<not> wc_server c then Some (send_failed c t n (fail_with Closed))
      else if n \<noteq> 0 then
        (case data of
           None \<Rightarrow> Some (fail_with InvalidConfiguration, [])
         | Some d \<Rightarrow> do {
             payload \<leftarrow> slice d 0 n;
             Some (queue_owned_frame env t payload close_after False c)
           })
      else Some (queue_owned_frame env t [] close_after False c))"

definition send_binary ::
    "ws_env \<Rightarrow> bytes option \<Rightarrow> nat \<Rightarrow> ws_connection \<Rightarrow> (web_result \<times> ws_output list) option" where
  "send_binary env data n c =
     (if data = None \<or> n = 0 then Some (fail_with InvalidConfiguration, [])
      else queue_frame env WsBinary data n False c)"

definition send_text ::
    "ws_env \<Rightarrow> bytes \<Rightarrow> ws_connection \<Rightarrow> (web_result \<times> ws_output list) option" where
  "send_text env text c = queue_frame env WsText (Some text) (length text) False c"

definition close_payload :: "u16 \<Rightarrow> bytes \<Rightarrow> bytes" where
  "close_payload code reason =
     [ucast (drop_bit 8 code AND 0xff), ucast (code AND 0xff)] @ take (min (length reason) 123) reason"

definition close_connection ::
    "ws_env \<Rightarrow> u16 \<Rightarrow> bytes \<Rightarrow> ws_connection \<Rightarrow> web_result \<times> ws_connection \<times> ws_output list" where
  "close_connection env code reason c =
     (if \<not> wc_open c then (Success, c, [])
      else
        let c1 = c\<lparr>wc_open := False, wc_close_code := code, wc_close_reason := reason\<rparr>;
            requested = notify (wc_sink c1)
              (Activity CloseRequested (wc_id c1) FtClose (length reason) Success code);
            (r, out) = queue_owned_frame env WsClose (close_payload code reason) True True c1
        in (r, c1, requested @ out
              @ (if r \<noteq> Success \<and> wc_server c1 then [TriggerClose (wc_id c1)] else [])))"

definition mark_closed :: "ws_connection \<Rightarrow> ws_connection" where
  "mark_closed c = c\<lparr>wc_open := False\<rparr>"

definition remember_peer_close :: "bytes \<Rightarrow> ws_connection \<Rightarrow> ws_connection option" where
  "remember_peer_close payload c = do {
     code \<leftarrow> (if length payload \<ge> 2 then read_network_u16 payload else Some 1000);
     Some (c\<lparr>wc_open := False, wc_close_code := code,
             wc_close_reason := (if length payload > 2 then drop 2 payload else [])\<rparr>)
   }"

text \<open>\<open>AccumulateFragment\<close>: the result, the connection, and the message when one is complete.\<close>

definition accumulate_fragment ::
    "ws_type \<Rightarrow> bool \<Rightarrow> bytes \<Rightarrow> ws_connection \<Rightarrow> web_result \<times> ws_connection \<times> (ws_type \<times> bytes) option" where
  "accumulate_fragment t final payload c =
     (if t = WsText \<or> t = WsBinary then
        if wc_fragmenting c then (fail_with ProtocolError, c, None)
        else if final then (Success, c, Some (t, payload))
        else if length payload > max_message then (fail_with ResourceExhausted, c, None)
        else (Success, c\<lparr>wc_fragmenting := True, wc_fragment_type := t, wc_fragments := payload\<rparr>, None)
      else if t \<noteq> WsContinue \<or> \<not> wc_fragmenting c then (fail_with ProtocolError, c, None)
      else if length (wc_fragments c) + length payload > max_message
      then (fail_with ResourceExhausted, c\<lparr>wc_fragmenting := False, wc_fragments := []\<rparr>, None)
      else
        let whole = wc_fragments c @ payload
        in if final
           then (Success, c\<lparr>wc_fragmenting := False, wc_fragments := []\<rparr>, Some (wc_fragment_type c, whole))
           else (Success, c\<lparr>wc_fragments := whole\<rparr>, None))"

section \<open>Bindings\<close>

record ws_binding =
  wb_active :: bool
  wb_sink :: bool
  wb_path :: string
  wb_protocol :: string
  wb_connections :: "ws_connection list"

definition make_binding :: "bool \<Rightarrow> ws_binding" where
  "make_binding sink = \<lparr>wb_active = False, wb_sink = sink, wb_path = [], wb_protocol = [],
     wb_connections = []\<rparr>"

definition binding_set_sink :: "bool \<Rightarrow> ws_binding \<Rightarrow> ws_binding" where
  "binding_set_sink sink b =
     b\<lparr>wb_sink := sink, wb_connections := map (\<lambda>c. c\<lparr>wc_sink := sink\<rparr>) (wb_connections b)\<rparr>"

definition binding_prepare :: "string \<Rightarrow> string \<Rightarrow> ws_binding \<Rightarrow> web_result \<times> ws_binding" where
  "binding_prepare path protocol b =
     (if take 1 path \<noteq> ''/'' then (fail_with InvalidConfiguration, b)
      else if wb_active b then (fail_with AlreadyRunning, b)
      else (Success, b\<lparr>wb_path := path, wb_protocol := protocol\<rparr>))"

definition find_connection :: "ws_id \<Rightarrow> ws_binding \<Rightarrow> ws_connection option" where
  "find_connection i b = find (\<lambda>c. wc_id c = i) (wb_connections b)"

text \<open>An update of the connection object the list refers to.\<close>

definition put_connection :: "ws_connection \<Rightarrow> ws_binding \<Rightarrow> ws_binding" where
  "put_connection c b = b\<lparr>wb_connections := map (\<lambda>d. if wc_id d = wc_id c then c else d) (wb_connections b)\<rparr>"

text \<open>The loop of the broadcasts: the result is that of the last failure.\<close>

fun broadcast ::
    "(ws_connection \<Rightarrow> (web_result \<times> ws_output list) option) \<Rightarrow> web_result \<Rightarrow> ws_connection list
      \<Rightarrow> (web_result \<times> ws_output list) option" where
  "broadcast send r [] = Some (r, [])"
| "broadcast send r (c # cs) = do {
     (r1, out) \<leftarrow> send c;
     (r2, outs) \<leftarrow> broadcast send (if r1 = Success then r else r1) cs;
     Some (r2, out @ outs)
   }"

definition broadcast_binary ::
    "ws_env \<Rightarrow> bytes option \<Rightarrow> nat \<Rightarrow> ws_binding \<Rightarrow> (web_result \<times> ws_output list) option" where
  "broadcast_binary env data n b =
     (if data = None \<or> n = 0 then Some (fail_with InvalidConfiguration, [])
      else broadcast (send_binary env data n) Success (wb_connections b))"

definition broadcast_text ::
    "ws_env \<Rightarrow> bytes \<Rightarrow> ws_binding \<Rightarrow> (web_result \<times> ws_output list) option" where
  "broadcast_text env text b = broadcast (send_text env text) Success (wb_connections b)"

fun close_each ::
    "ws_env \<Rightarrow> u16 \<Rightarrow> bytes \<Rightarrow> web_result \<Rightarrow> ws_connection list
      \<Rightarrow> web_result \<times> ws_connection list \<times> ws_output list" where
  "close_each env code reason r [] = (r, [], [])"
| "close_each env code reason r (c # cs) =
     (let (r1, c1, out) = close_connection env code reason c;
          (r2, cs1, outs) = close_each env code reason (if r1 = Success then r else r1) cs
      in (r2, c1 # cs1, out @ outs))"

definition close_all ::
    "ws_env \<Rightarrow> u16 \<Rightarrow> bytes \<Rightarrow> ws_binding \<Rightarrow> web_result \<times> ws_binding \<times> ws_output list" where
  "close_all env code reason b =
     (let (r, cs, out) = close_each env code reason Success (wb_connections b)
      in (r, b\<lparr>wb_connections := cs\<rparr>, out))"

definition ensure_connection ::
    "ws_env \<Rightarrow> bool \<Rightarrow> ws_id \<Rightarrow> ws_binding \<Rightarrow> ws_connection option \<times> ws_binding \<times> ws_output list" where
  "ensure_connection env handle i b = (case find_connection i b of
       Some c \<Rightarrow> (Some c, b, [])
     | None \<Rightarrow>
         if we_alloc env = BadAlloc
         then (None, b, notify (wb_sink b) (Activity ReceiveFailed i FtBinary 0 (fail_with ResourceExhausted) 0))
         else if we_alloc env = OtherFailure
         then (None, b, notify (wb_sink b) (Activity ReceiveFailed i FtBinary 0 (fail_with PlatformFailure) 0))
         else
           let c = new_connection handle i (wb_sink b)
           in (Some c, b\<lparr>wb_connections := wb_connections b @ [c]\<rparr>,
               if wb_sink b then [Activity ConnectionCreated i FtText 0 Success 0, OnConnected i] else []))"

text \<open>
  A request on a socket route: the method, the socket, whether it carries a native handle, what the
  two reads of the frame answer (its type, final mark and length; its payload), and the answer to
  a frame sent at once.
\<close>

record ws_request =
  wr_get :: bool
  wr_socket :: int
  wr_handle :: bool
  wr_header_err :: esp_err
  wr_type :: ws_type
  wr_final :: bool
  wr_len :: nat
  wr_payload_err :: esp_err
  wr_payload :: bytes
  wr_send_err :: esp_err

text \<open>The frame is read: \<open>HandleWebSocketRequest\<close> after the second read.\<close>

definition dispatch_frame ::
    "ws_env \<Rightarrow> ws_request \<Rightarrow> ws_connection \<Rightarrow> ws_binding \<Rightarrow> (esp_err \<times> ws_binding \<times> ws_output list) option" where
  "dispatch_frame env q c b =
     (let i = wc_id c; payload = wr_payload q; n = length payload; tell = notify (wb_sink b)
      in if wr_type q = WsPing then
        Some (wr_send_err q, b, tell (Activity PingReceived i FtPing n Success 0) @ [SendNow WsPong payload])
      else if wr_type q = WsPong then
        Some (ESP_OK, b, tell (Activity PongReceived i FtPong n Success 0))
      else if wr_type q = WsClose then do {
        code \<leftarrow> (if n \<ge> 2 then read_network_u16 payload else Some 1000);
        c1 \<leftarrow> remember_peer_close payload c;
        Some (ESP_OK, put_connection c1 b,
          tell (Activity PeerCloseReceived i FtClose n Success code)
          @ [SendNow WsClose payload, TriggerClose i])
      }
      else
        let started = (if \<not> wr_final q \<and> (wr_type q = WsText \<or> wr_type q = WsBinary)
              then tell (Activity FragmentStarted i (frame_type_of (wr_type q)) n Success 0) else []);
            (r, c1, completed) = accumulate_fragment (wr_type q) (wr_final q) payload c
        in if r \<noteq> Success then
          let code = (if r = fail_with ResourceExhausted then 1009 else 1002 :: u16);
              (_, c2, out) = close_connection env code (map (of_char :: char \<Rightarrow> u8) ''invalid websocket message'') c1
          in Some (ESP_OK, put_connection c2 b,
               started @ tell (Activity ProtocolFault i (frame_type_of (wr_type q)) (wr_len q) r code) @ out)
        else (case completed of
            None \<Rightarrow> Some (ESP_OK, put_connection c1 b, started)
          | Some (t, whole) \<Rightarrow>
              let fragmented = (if wr_type q = WsContinue \<or> \<not> wr_final q
                then tell (Activity FragmentCompleted i (frame_type_of t) (length whole) Success 0) else [])
              in Some (ESP_OK, put_connection c1 b, started @ fragmented
                @ (if t = WsText then tell (OnText i whole)
                   else if t = WsBinary then tell (OnBinary i whole) else []))))"

definition receive_frame ::
    "ws_env \<Rightarrow> ws_request \<Rightarrow> ws_connection \<Rightarrow> ws_binding \<Rightarrow> (esp_err \<times> ws_binding \<times> ws_output list) option" where
  "receive_frame env q c b =
     (let i = wc_id c; tell = notify (wb_sink b); ft = frame_type_of (wr_type q)
      in if wr_header_err q \<noteq> ESP_OK then
        Some (wr_header_err q, b, tell (Activity ReceiveFailed i FtBinary 0 (websocket_result (wr_header_err q)) 0))
      else
        let header = tell (Activity FrameHeaderReceived i ft (wr_len q) Success 0)
        in if wr_len q > max_message then
          let (_, c1, out) = close_connection env 1009 (map (of_char :: char \<Rightarrow> u8) ''message too large'') c
          in Some (ESP_OK, put_connection c1 b, header
               @ tell (Activity ProtocolFault i ft (wr_len q) (fail_with ResourceExhausted) 1009) @ out)
        else if wr_payload_err q \<noteq> ESP_OK then
          Some (wr_payload_err q, b, header
            @ tell (Activity ReceiveFailed i ft (wr_len q) (websocket_result (wr_payload_err q)) 0))
        else map_option (\<lambda>(e, b1, out).
            (e, b1, header @ tell (Activity FramePayloadReceived i ft (length (wr_payload q)) Success 0) @ out))
          (dispatch_frame env q c b))"

definition handle_websocket_request ::
    "ws_env \<Rightarrow> ws_request \<Rightarrow> ws_binding \<Rightarrow> (esp_err \<times> ws_binding \<times> ws_output list) option" where
  "handle_websocket_request env q b =
     (let i = word_of_int (wr_socket q) :: ws_id
      in if \<not> wb_active b \<or> wr_socket q < 0 then Some (ESP_FAIL, b, [])
      else if wr_get q then
        (case ensure_connection env (wr_handle q) i b of (c, b1, out) \<Rightarrow>
          Some (if c = None then ESP_FAIL else ESP_OK, b1,
            notify (wb_sink b) (Activity UpgradeRequested i FtText 0 Success 0) @ out))
      else
        let (found, b1, out) =
          (case find_connection i b of
             Some c \<Rightarrow> (Some c, b, [])
           | None \<Rightarrow>
               if wr_handle q \<and> we_websocket env i then ensure_connection env (wr_handle q) i b
               else (None, b, []))
        in (case found of
             None \<Rightarrow> Some (ESP_FAIL, b1, out
               @ notify (wb_sink b) (Activity ReceiveFailed i FtBinary 0 (fail_with NotFound) 0))
           | Some c \<Rightarrow> map_option (\<lambda>(e, b2, out2). (e, b2, out @ out2)) (receive_frame env q c b1)))"

text \<open>\<open>OnHttpSessionClosed\<close> removes the first connection of that identity.\<close>

definition on_session_closed :: "int \<Rightarrow> ws_binding \<Rightarrow> ws_binding \<times> ws_output list" where
  "on_session_closed socket b =
     (let i = word_of_int socket :: ws_id
      in case find_connection i b of
        None \<Rightarrow> (b, [])
      | Some c \<Rightarrow>
          (b\<lparr>wb_connections := remove1 c (wb_connections b)\<rparr>,
           if wb_sink b then
             [Activity SessionClosed (wc_id c) FtClose (length (wc_close_reason c)) Success (wc_close_code c),
              OnDisconnected (wc_id c) (wc_close_code c) (wc_close_reason c)]
           else []))"

section \<open>Endpoints\<close>

text \<open>An endpoint holds the identity of its binding state, the pointer the HTTP server keeps, and the state.\<close>

record ws_endpoint =
  ep_sink :: bool
  ep_id :: nat
  ep_binding :: ws_binding

definition new_endpoint :: "nat \<Rightarrow> ws_endpoint" where
  "new_endpoint i = \<lparr>ep_sink = False, ep_id = i, ep_binding = make_binding False\<rparr>"

definition endpoint_set_sink :: "bool \<Rightarrow> ws_endpoint \<Rightarrow> ws_endpoint" where
  "endpoint_set_sink sink ep = ep\<lparr>ep_sink := sink, ep_binding := binding_set_sink sink (ep_binding ep)\<rparr>"

text \<open>What the HTTP server sees of the bindings: this endpoint's state and the others.\<close>

definition seen_active :: "(nat \<Rightarrow> bool) \<Rightarrow> nat \<Rightarrow> ws_binding \<Rightarrow> nat \<Rightarrow> bool" where
  "seen_active others i b = others(i := wb_active b)"

definition seen_info :: "(nat \<Rightarrow> binding_info) \<Rightarrow> nat \<Rightarrow> ws_binding \<Rightarrow> nat \<Rightarrow> binding_info" where
  "seen_info infos i b = infos(i := \<lparr>bi_path = wb_path b, bi_protocol = wb_protocol b\<rparr>)"

definition endpoint_bind ::
    "(nat \<Rightarrow> bool) \<Rightarrow> (nat \<Rightarrow> binding_info) \<Rightarrow> string \<Rightarrow> string \<Rightarrow> ws_endpoint \<times> http_server
      \<Rightarrow> web_result \<times> (ws_endpoint \<times> http_server) \<times> ws_output list" where
  "endpoint_bind others infos path protocol st = (case st of (ep, srv) \<Rightarrow>
     if wb_active (ep_binding ep) then (fail_with AlreadyRunning, st, [])
     else
       let tell = (\<lambda>k r. notify (ep_sink ep) (Activity k 0 FtText 0 r 0));
           requested = tell BindRequested Success;
           (r, b1) = binding_prepare path protocol (ep_binding ep)
       in if r \<noteq> Success then (r, st, requested @ tell ProtocolFault r)
       else
         let b2 = b1\<lparr>wb_active := True\<rparr>;
             (r2, srv1) = add_binding (seen_active others (ep_id ep) b2) (seen_info infos (ep_id ep) b2)
               (Some (ep_id ep)) srv
         in if r2 \<noteq> Success
            then (r2, (ep\<lparr>ep_binding := b2\<lparr>wb_active := False\<rparr>\<rparr>, srv1), requested @ tell ProtocolFault r2)
            else (Success, (ep\<lparr>ep_binding := b2\<rparr>, srv1), requested @ tell EndpointBound Success))"

text \<open>Unbind retires the state; \<open>fresh\<close> is the identity of the new one. The retired state is returned.\<close>

definition endpoint_unbind ::
    "ws_env \<Rightarrow> nat \<Rightarrow> (nat \<Rightarrow> bool) \<Rightarrow> ws_endpoint \<times> http_server
      \<Rightarrow> web_result \<times> (ws_endpoint \<times> http_server) \<times> ws_binding \<times> ws_output list" where
  "endpoint_unbind env fresh others st = (case st of (ep, srv) \<Rightarrow>
     let b = ep_binding ep
     in if \<not> wb_active b
        then (Success, (ep, release_binding (seen_active others (ep_id ep) b) (Some (ep_id ep)) srv), b, [])
        else
          let (r, b1, out) = close_all env 1001 (map (of_char :: char \<Rightarrow> u8) ''endpoint unbound'') b;
              retired = b1\<lparr>wb_active := False\<rparr>;
              srv1 = release_binding (seen_active others (ep_id ep) retired) (Some (ep_id ep)) srv
          in (r, (ep\<lparr>ep_id := fresh, ep_binding := make_binding (ep_sink ep)\<rparr>, srv1), retired,
              out @ notify (ep_sink ep) (Activity EndpointUnbound 0 FtClose 0 r 1001)))"

definition endpoint_broadcast_binary ::
    "ws_env \<Rightarrow> bytes option \<Rightarrow> nat \<Rightarrow> ws_endpoint \<Rightarrow> (web_result \<times> ws_output list) option" where
  "endpoint_broadcast_binary env data n ep =
     (if wb_active (ep_binding ep) then broadcast_binary env data n (ep_binding ep)
      else Some (fail_with InvalidState, []))"

definition endpoint_broadcast_text ::
    "ws_env \<Rightarrow> bytes \<Rightarrow> ws_endpoint \<Rightarrow> (web_result \<times> ws_output list) option" where
  "endpoint_broadcast_text env text ep =
     (if wb_active (ep_binding ep) then broadcast_text env text (ep_binding ep)
      else Some (fail_with InvalidState, []))"

definition endpoint_close_all ::
    "ws_env \<Rightarrow> u16 \<Rightarrow> bytes \<Rightarrow> ws_endpoint \<Rightarrow> web_result \<times> ws_endpoint \<times> ws_output list" where
  "endpoint_close_all env code reason ep =
     (let (r, b, out) = close_all env code reason (ep_binding ep) in (r, ep\<lparr>ep_binding := b\<rparr>, out))"

section \<open>Reassembly of fragmented messages\<close>

text \<open>What the accumulation makes of a list of data frames, or \<open>None\<close> at a protocol error.\<close>

type_synonym ws_frame = "ws_type \<times> bool \<times> bytes"

fun feed :: "ws_connection \<Rightarrow> ws_frame list \<Rightarrow> (ws_connection \<times> (ws_type \<times> bytes) list) option" where
  "feed c [] = Some (c, [])"
| "feed c ((t, final, p) # fs) = (case accumulate_fragment t final p c of (r, c1, m) \<Rightarrow>
     if r \<noteq> Success then None
     else map_option (\<lambda>(c2, ms). (c2, (case m of None \<Rightarrow> ms | Some x \<Rightarrow> x # ms))) (feed c1 fs))"

text \<open>A message of the protocol: text or binary, and how it is cut.\<close>

record ws_message =
  wm_text :: bool
  wm_pieces :: "bytes list"

definition message_type :: "ws_message \<Rightarrow> ws_type" where
  "message_type m = (if wm_text m then WsText else WsBinary)"

definition message_ok :: "ws_message \<Rightarrow> bool" where
  "message_ok m \<longleftrightarrow> wm_pieces m \<noteq> [] \<and> length (concat (wm_pieces m)) \<le> max_message"

fun continuation_frames :: "bytes list \<Rightarrow> ws_frame list" where
  "continuation_frames [] = []"
| "continuation_frames (p # ps) = (WsContinue, ps = [], p) # continuation_frames ps"

definition message_frames :: "ws_message \<Rightarrow> ws_frame list" where
  "message_frames m = (case wm_pieces m of [] \<Rightarrow> []
     | p # ps \<Rightarrow> (message_type m, ps = [], p) # continuation_frames ps)"

lemma feed_append:
  "feed c (xs @ ys) = (case feed c xs of None \<Rightarrow> None
     | Some (c1, ms) \<Rightarrow> map_option (\<lambda>(c2, ns). (c2, ms @ ns)) (feed c1 ys))"
proof (induction c xs rule: feed.induct)
  case (1 c)
  then show ?case by (cases "feed c ys") auto
next
  case (2 c t final p fs)
  obtain r c1 m where a: "accumulate_fragment t final p c = (r, c1, m)" by (metis prod_cases3)
  show ?case
  proof (cases "r = Success")
    case True
    then show ?thesis using 2 [OF a [symmetric] refl] a
      by (auto split: option.splits simp: option.map_comp comp_def case_prod_unfold)
  qed (simp add: a)
qed

lemma feed_continuation:
  "wc_fragmenting c \<Longrightarrow> ps \<noteq> [] \<Longrightarrow> length (wc_fragments c) + length (concat ps) \<le> max_message \<Longrightarrow>
     feed c (continuation_frames ps) = Some (c\<lparr>wc_fragmenting := False, wc_fragments := []\<rparr>,
       [(wc_fragment_type c, wc_fragments c @ concat ps)])"
proof (induction ps arbitrary: c)
  case (Cons p ps)
  show ?case
  proof (cases "ps = []")
    case True
    then show ?thesis using Cons.prems by (simp add: accumulate_fragment_def)
  next
    case False
    then show ?thesis
      using Cons.IH [of "c\<lparr>wc_fragments := wc_fragments c @ p\<rparr>"] Cons.prems
      by (simp add: accumulate_fragment_def)
  qed
qed simp

lemma feed_message:
  assumes "message_ok m" and "\<not> wc_fragmenting c" and "wc_fragments c = []"
  obtains t where "feed c (message_frames m) =
    Some (c\<lparr>wc_fragment_type := t\<rparr>, [(message_type m, concat (wm_pieces m))])"
proof -
  obtain p ps where m: "wm_pieces m = p # ps" using assms(1) by (cases "wm_pieces m") (auto simp: message_ok_def)
  have t: "message_type m = WsText \<or> message_type m = WsBinary" by (simp add: message_type_def)
  show ?thesis
  proof (cases ps)
    case Nil
    then show ?thesis
      using t m assms(2) that [of "wc_fragment_type c"]
      by (auto simp: message_frames_def accumulate_fragment_def)
  next
    case (Cons q qs)
    let ?c = "c\<lparr>wc_fragmenting := True, wc_fragment_type := message_type m, wc_fragments := p\<rparr>"
    have "feed ?c (continuation_frames ps) =
        Some (?c\<lparr>wc_fragmenting := False, wc_fragments := []\<rparr>, [(message_type m, p @ concat ps)])"
      using feed_continuation [of ?c ps] Cons assms(1) m by (simp add: message_ok_def)
    moreover have "accumulate_fragment (message_type m) False p c = (Success, ?c, None)"
      using t assms m by (auto simp: accumulate_fragment_def message_ok_def)
    moreover have "?c\<lparr>wc_fragmenting := False, wc_fragments := []\<rparr> = c\<lparr>wc_fragment_type := message_type m\<rparr>"
      using assms(2,3) by (cases c) simp
    ultimately show ?thesis
      using Cons m that [of "message_type m"] by (simp add: message_frames_def)
  qed
qed

lemma feed_messages:
  "list_all message_ok ms \<Longrightarrow> \<not> wc_fragmenting c \<Longrightarrow> wc_fragments c = [] \<Longrightarrow>
     \<exists>t. feed c (concat (map message_frames ms)) =
       Some (c\<lparr>wc_fragment_type := t\<rparr>, map (\<lambda>m. (message_type m, concat (wm_pieces m))) ms)"
proof (induction ms arbitrary: c)
  case Nil
  show ?case by (rule exI [of _ "wc_fragment_type c"]) simp
next
  case (Cons m ms)
  then obtain t where t: "feed c (message_frames m) =
      Some (c\<lparr>wc_fragment_type := t\<rparr>, [(message_type m, concat (wm_pieces m))])"
    using feed_message [of m c] by auto
  obtain u where "feed (c\<lparr>wc_fragment_type := t\<rparr>) (concat (map message_frames ms)) =
      Some (c\<lparr>wc_fragment_type := u\<rparr>, map (\<lambda>m. (message_type m, concat (wm_pieces m))) ms)"
    using Cons.IH [of "c\<lparr>wc_fragment_type := t\<rparr>"] Cons.prems by auto
  then show ?case using t by (auto simp: feed_append)
qed

text \<open>The requests the native server makes of the frames of one socket.\<close>

definition frame_request :: "int \<Rightarrow> ws_frame \<Rightarrow> ws_request" where
  "frame_request socket f = (case f of (t, final, p) \<Rightarrow>
     \<lparr>wr_get = False, wr_socket = socket, wr_handle = True, wr_header_err = ESP_OK, wr_type = t,
      wr_final = final, wr_len = length p, wr_payload_err = ESP_OK, wr_payload = p, wr_send_err = ESP_OK\<rparr>)"

fun run_requests :: "ws_env \<Rightarrow> ws_request list \<Rightarrow> ws_binding \<Rightarrow> (ws_binding \<times> ws_output list) option" where
  "run_requests env [] b = Some (b, [])"
| "run_requests env (q # qs) b = do {
     (e, b1, out) \<leftarrow> handle_websocket_request env q b;
     (b2, outs) \<leftarrow> run_requests env qs b1;
     Some (b2, out @ outs)
   }"

definition is_message :: "ws_output \<Rightarrow> bool" where
  "is_message o1 = (case o1 of OnText i p \<Rightarrow> True | OnBinary i p \<Rightarrow> True | _ \<Rightarrow> False)"

definition delivery_of :: "ws_id \<Rightarrow> ws_type \<times> bytes \<Rightarrow> ws_output" where
  "delivery_of i m = (if fst m = WsText then OnText i (snd m) else OnBinary i (snd m))"

lemma is_message_simps [simp]:
  "\<not> is_message (Activity k i t n r c)" "\<not> is_message (SendNow u p)" "\<not> is_message (SendAsync i u p b)"
  "\<not> is_message (OnConnected i)" "\<not> is_message (OnDisconnected i c p)" "\<not> is_message (TriggerClose i)"
  "is_message (OnText i p)" "is_message (OnBinary i p)"
  by (simp_all add: is_message_def)

lemma filter_notify [simp]: "filter P (notify s x) = (if P x then notify s x else [])"
  by (cases s) (simp_all add: notify_def)

lemma find_put_connection:
  "find_connection i b = Some c \<Longrightarrow> wc_id c' = i \<Longrightarrow> find_connection i (put_connection c' b) = Some c'"
proof -
  assume a: "find_connection i b = Some c" "wc_id c' = i"
  have "find (\<lambda>d. wc_id d = i) xs = Some c \<Longrightarrow>
      find (\<lambda>d. wc_id d = i) (map (\<lambda>d. if wc_id d = i then c' else d) xs) = Some c'" for xs
    using a(2) by (induction xs) (auto split: if_splits)
  then show ?thesis using a by (simp add: find_connection_def put_connection_def)
qed

lemma find_connection_id: "find_connection i b = Some c \<Longrightarrow> wc_id c = i"
  by (auto simp: find_connection_def find_Some_iff)

lemma put_connection_fields [simp]:
  "wb_active (put_connection c b) = wb_active b" "wb_sink (put_connection c b) = wb_sink b"
  "wb_path (put_connection c b) = wb_path b" "wb_protocol (put_connection c b) = wb_protocol b"
  by (simp_all add: put_connection_def)

lemma accumulate_fields [simp]:
  "wc_id (fst (snd (accumulate_fragment t f p c))) = wc_id c"
  "wc_sink (fst (snd (accumulate_fragment t f p c))) = wc_sink c"
  "wc_server (fst (snd (accumulate_fragment t f p c))) = wc_server c"
  "wc_open (fst (snd (accumulate_fragment t f p c))) = wc_open c"
  by (simp_all add: accumulate_fragment_def Let_def)

text \<open>The type a connection remembers is that of a message.\<close>

definition fragment_type_ok :: "ws_connection \<Rightarrow> bool" where
  "fragment_type_ok c \<longleftrightarrow> (wc_fragmenting c \<longrightarrow> wc_fragment_type c = WsText \<or> wc_fragment_type c = WsBinary)"

lemma accumulate_type_ok:
  "fragment_type_ok c \<Longrightarrow> fragment_type_ok (fst (snd (accumulate_fragment t f p c)))"
  "fragment_type_ok c \<Longrightarrow> (case snd (snd (accumulate_fragment t f p c)) of None \<Rightarrow> True
     | Some x \<Rightarrow> fst x = WsText \<or> fst x = WsBinary)"
  by (auto simp: accumulate_fragment_def Let_def fragment_type_ok_def)

lemma request_feeds:
  assumes b: "find_connection i b = Some c" "wb_active b" "0 \<le> socket" "i = word_of_int socket"
    and f: "length p \<le> max_message" "t \<notin> {WsPing, WsPong, WsClose}"
    and acc: "accumulate_fragment t final p c = (Success, c1, m)"
    and ty: "fragment_type_ok c"
  obtains out where
    "handle_websocket_request env (frame_request socket (t, final, p)) b = Some (ESP_OK, put_connection c1 b, out)"
    "filter is_message out = (case m of None \<Rightarrow> [] | Some x \<Rightarrow> notify (wb_sink b) (delivery_of i x))"
proof (cases m)
  case None
  show ?thesis
    by (rule that)
      (use b f acc None in \<open>auto simp: handle_websocket_request_def frame_request_def receive_frame_def
        dispatch_frame_def Let_def\<close>)
next
  case (Some x)
  obtain u w where x: "x = (u, w)" by force
  have u: "u = WsText \<or> u = WsBinary"
    using accumulate_type_ok(2) [OF ty, of t final p] acc Some x by simp
  have i: "wc_id c = i" using b(1) by (rule find_connection_id)
  show ?thesis
    by (rule that)
      (use b f acc Some x u i in \<open>auto simp: handle_websocket_request_def frame_request_def receive_frame_def
        dispatch_frame_def delivery_of_def Let_def\<close>)
qed

lemma control_ignored:
  assumes b: "find_connection i b = Some c" "wb_active b" "0 \<le> socket" "i = word_of_int socket"
    and f: "length p \<le> max_message" "t \<in> {WsPing, WsPong}"
  obtains out where
    "handle_websocket_request env (frame_request socket (t, final, p)) b = Some (ESP_OK, b, out)"
    "filter is_message out = []"
proof -
  have t: "t = WsPing \<or> t = WsPong" using f(2) by blast
  show ?thesis
  proof (cases "t = WsPing")
    case True
    show ?thesis by (rule that) (use b f(1) True in
      \<open>auto simp: handle_websocket_request_def frame_request_def receive_frame_def dispatch_frame_def Let_def\<close>)
  next
    case False
    show ?thesis by (rule that) (use b f(1) t False in
      \<open>auto simp: handle_websocket_request_def frame_request_def receive_frame_def dispatch_frame_def Let_def\<close>)
  qed
qed

definition is_control :: "ws_frame \<Rightarrow> bool" where
  "is_control f \<longleftrightarrow> fst f \<in> {WsPing, WsPong}"

lemma run_feeds:
  assumes "feed c (filter (\<lambda>f. \<not> is_control f) fs) = Some (c', ms)"
    and "find_connection i b = Some c" "wb_active b" "0 \<le> socket" "i = word_of_int socket"
    and "\<forall>f \<in> set fs. length (snd (snd f)) \<le> max_message \<and> fst f \<noteq> WsClose"
    and "fragment_type_ok c"
  shows "\<exists>b' out. run_requests env (map (frame_request socket) fs) b = Some (b', out) \<and>
      find_connection i b' = Some c' \<and> wb_active b' \<and> wb_sink b' = wb_sink b \<and>
      filter is_message out = concat (map (\<lambda>m. notify (wb_sink b) (delivery_of i m)) ms)"
  using assms
proof (induction fs arbitrary: b c ms)
  case (Cons f fs)
  obtain t final p where f: "f = (t, final, p)" by (metis prod_cases3)
  note prems = Cons.prems
  show ?case
  proof (cases "is_control f")
    case True
    obtain out where out: "handle_websocket_request env (frame_request socket f) b = Some (ESP_OK, b, out)"
      "filter is_message out = []"
      using control_ignored [OF prems(2-5), of p t env final] True prems(6) f by (auto simp: is_control_def)
    have "\<exists>b' outs. run_requests env (map (frame_request socket) fs) b = Some (b', outs) \<and>
        find_connection i b' = Some c' \<and> wb_active b' \<and> wb_sink b' = wb_sink b \<and>
        filter is_message outs = concat (map (\<lambda>m. notify (wb_sink b) (delivery_of i m)) ms)"
      by (rule Cons.IH) (use prems True in auto)
    then show ?thesis using out by auto
  next
    case False
    obtain r c1 m where acc: "accumulate_fragment t final p c = (r, c1, m)" by (metis prod_cases3)
    obtain ms1 where r: "r = Success" and ms1: "feed c1 (filter (\<lambda>f. \<not> is_control f) fs) = Some (c', ms1)"
      "ms = (case m of None \<Rightarrow> ms1 | Some x \<Rightarrow> x # ms1)"
      using prems(1) False f acc by (auto split: if_splits)
    obtain out where out:
      "handle_websocket_request env (frame_request socket f) b = Some (ESP_OK, put_connection c1 b, out)"
      "filter is_message out = (case m of None \<Rightarrow> [] | Some x \<Rightarrow> notify (wb_sink b) (delivery_of i x))"
      using request_feeds [OF prems(2-5), of p t final c1 m env] acc r f False prems(6,7)
      by (auto simp: is_control_def)
    have id1: "wc_id c1 = i" using accumulate_fields(1) [of t final p c] acc find_connection_id [OF prems(2)] by simp
    have "\<exists>b' outs. run_requests env (map (frame_request socket) fs) (put_connection c1 b) = Some (b', outs) \<and>
        find_connection i b' = Some c' \<and> wb_active b' \<and> wb_sink b' = wb_sink (put_connection c1 b) \<and>
        filter is_message outs = concat (map (\<lambda>m. notify (wb_sink (put_connection c1 b)) (delivery_of i m)) ms1)"
      by (rule Cons.IH [OF ms1(1) find_put_connection [OF prems(2) id1]])
        (use prems accumulate_type_ok(1) [of c t final p] acc in auto)
    then show ?thesis using out ms1(2) by (cases m) auto
  qed
qed simp

section \<open>Invariants of a binding\<close>

definition connection_ok :: "ws_connection \<Rightarrow> bool" where
  "connection_ok c \<longleftrightarrow> length (wc_fragments c) \<le> max_message \<and>
     (\<not> wc_fragmenting c \<longrightarrow> wc_fragments c = []) \<and> fragment_type_ok c"

definition binding_ok :: "ws_binding \<Rightarrow> bool" where
  "binding_ok b \<longleftrightarrow> distinct (map wc_id (wb_connections b)) \<and>
     (\<forall>c \<in> set (wb_connections b). wc_sink c = wb_sink b \<and> connection_ok c)"

text \<open>What a frame on connection \<open>i\<close> may put out.\<close>

definition output_ok :: "ws_id \<Rightarrow> ws_output \<Rightarrow> bool" where
  "output_ok i x = (case x of
       OnText j p \<Rightarrow> j = i \<and> length p \<le> max_message
     | OnBinary j p \<Rightarrow> j = i \<and> length p \<le> max_message
     | SendAsync j t p after \<Rightarrow> j = i \<and> t = WsClose \<and> 2 \<le> length p \<and> length p \<le> 125 \<and> after
     | SendNow t p \<Rightarrow> (t = WsPong \<or> t = WsClose) \<and> length p \<le> max_message
     | OnConnected j \<Rightarrow> False
     | OnDisconnected j code reason \<Rightarrow> False
     | _ \<Rightarrow> True)"

lemma output_ok_simps [simp]:
  "output_ok i (Activity k j t n r c)" "output_ok i (TriggerClose j)"
  "output_ok i (OnText j p) \<longleftrightarrow> j = i \<and> length p \<le> max_message"
  "output_ok i (OnBinary j p) \<longleftrightarrow> j = i \<and> length p \<le> max_message"
  "output_ok i (SendAsync j u p after) \<longleftrightarrow> j = i \<and> u = WsClose \<and> 2 \<le> length p \<and> length p \<le> 125 \<and> after"
  "output_ok i (SendNow u p) \<longleftrightarrow> (u = WsPong \<or> u = WsClose) \<and> length p \<le> max_message"
  "\<not> output_ok i (OnConnected j)" "\<not> output_ok i (OnDisconnected j code reason)"
  by (simp_all add: output_ok_def)

lemma set_notify [simp]: "set (notify s x) = (if s then {x} else {})"
  by (cases s) (simp_all add: notify_def)

lemma list_all_notify [simp]: "list_all P (notify s x) \<longleftrightarrow> (s \<longrightarrow> P x)"
  by (cases s) (simp_all add: notify_def)

lemma length_close_payload [simp]: "length (close_payload code reason) = 2 + min (length reason) 123"
  by (simp add: close_payload_def)

lemma queue_owned_outputs:
  "wc_id c = i \<Longrightarrow> 2 \<le> length p \<Longrightarrow> length p \<le> 125 \<Longrightarrow>
     list_all (output_ok i) (snd (queue_owned_frame env WsClose p True allow c))"
  by (simp add: queue_owned_frame_def send_failed_def Let_def)

lemma close_connection_fields [simp]:
  "wc_id (fst (snd (close_connection env code reason c))) = wc_id c"
  "wc_sink (fst (snd (close_connection env code reason c))) = wc_sink c"
  "connection_ok (fst (snd (close_connection env code reason c))) = connection_ok c"
  "\<not> wc_open (fst (snd (close_connection env code reason c)))"
  by (simp_all add: close_connection_def Let_def case_prod_unfold connection_ok_def fragment_type_ok_def)

lemma close_connection_outputs:
  "list_all (output_ok (wc_id c)) (snd (snd (close_connection env code reason c)))"
  using queue_owned_outputs [of
      "c\<lparr>wc_open := False, wc_close_code := code, wc_close_reason := reason\<rparr>" "wc_id c"
      "close_payload code reason" env True]
  by (simp add: close_connection_def Let_def case_prod_unfold)

lemma accumulate_ok:
  "connection_ok c \<Longrightarrow> length p \<le> max_message \<Longrightarrow> connection_ok (fst (snd (accumulate_fragment t f p c)))"
  "connection_ok c \<Longrightarrow> length p \<le> max_message \<Longrightarrow>
     (case snd (snd (accumulate_fragment t f p c)) of None \<Rightarrow> True | Some x \<Rightarrow> length (snd x) \<le> max_message)"
  by (auto simp: accumulate_fragment_def Let_def connection_ok_def fragment_type_ok_def)

text \<open>A frame leaves the binding, or updates its connection; nothing else.\<close>

definition frame_outcome :: "ws_connection \<Rightarrow> ws_binding \<Rightarrow> ws_binding \<times> ws_output list \<Rightarrow> bool" where
  "frame_outcome c b x \<longleftrightarrow> list_all (output_ok (wc_id c)) (snd x) \<and>
     (fst x = b \<or> (\<exists>c'. fst x = put_connection c' b \<and> wc_id c' = wc_id c \<and> wc_sink c' = wc_sink c \<and> connection_ok c'))"

lemma frame_outcome_same [simp]:
  "frame_outcome c b (b, out) \<longleftrightarrow> list_all (output_ok (wc_id c)) out"
  by (auto simp: frame_outcome_def)

lemma frame_outcome_put:
  "wc_id c' = wc_id c \<Longrightarrow> wc_sink c' = wc_sink c \<Longrightarrow> connection_ok c' \<Longrightarrow>
     list_all (output_ok (wc_id c)) out \<Longrightarrow> frame_outcome c b (put_connection c' b, out)"
  by (auto simp: frame_outcome_def)

lemma dispatch_data_outcome:
  assumes c: "connection_ok c" and n: "length (wr_payload q) \<le> max_message"
    and t: "wr_type q \<noteq> WsPing" "wr_type q \<noteq> WsPong" "wr_type q \<noteq> WsClose"
    and d: "dispatch_frame env q c b = Some (e, b', out)"
  shows "frame_outcome c b (b', out)"
proof -
  obtain r c1 m where acc: "accumulate_fragment (wr_type q) (wr_final q) (wr_payload q) c = (r, c1, m)"
    by (metis prod_cases3)
  have c1: "wc_id c1 = wc_id c" "wc_sink c1 = wc_sink c" "connection_ok c1"
    "\<And>u w. m = Some (u, w) \<Longrightarrow> length w \<le> max_message"
    using accumulate_fields(1,2) [of "wr_type q" "wr_final q" "wr_payload q" c]
      accumulate_ok [OF c n, of "wr_type q" "wr_final q"] acc by auto
  show ?thesis
  proof (cases "r = Success")
    case False
    obtain r2 c2 outs where cl: "close_connection env (if r = fail_with ResourceExhausted then 1009 else 1002)
        (map (of_char :: char \<Rightarrow> u8) ''invalid websocket message'') c1 = (r2, c2, outs)"
      by (metis prod_cases3)
    have c2: "wc_id c2 = wc_id c" "wc_sink c2 = wc_sink c" "connection_ok c2"
      "list_all (output_ok (wc_id c)) outs"
      using close_connection_fields(1-3) [of env _ _ c1] close_connection_outputs [of c1 env] cl c1
      by (metis fst_conv snd_conv)+
    show ?thesis
      using d t acc False cl c2
      by (auto simp: dispatch_frame_def Let_def intro!: frame_outcome_put)
  next
    case True
    then show ?thesis
      using d t acc c1
      by (auto simp: dispatch_frame_def Let_def split: option.splits intro!: frame_outcome_put)
  qed
qed

lemma dispatch_outcome:
  assumes "connection_ok c" and "length (wr_payload q) \<le> max_message"
    and d: "dispatch_frame env q c b = Some (e, b', out)"
  shows "frame_outcome c b (b', out)"
proof (cases "wr_type q = WsPing \<or> wr_type q = WsPong \<or> wr_type q = WsClose")
  case False
  then show ?thesis using dispatch_data_outcome [OF assms(1,2) _ _ _ d] by blast
next
  case True
  then consider "wr_type q = WsPing" | "wr_type q = WsPong" | "wr_type q = WsClose" by blast
  then show ?thesis
  proof cases
    case 3
    then obtain c1 where c1: "remember_peer_close (wr_payload q) c = Some c1" "b' = put_connection c1 b"
      "list_all (output_ok (wc_id c)) out"
      using d assms(2) by (auto simp: dispatch_frame_def Let_def bind_eq_Some_conv)
    then have "wc_id c1 = wc_id c" "wc_sink c1 = wc_sink c" "connection_ok c1"
      using assms(1)
      by (auto simp: remember_peer_close_def bind_eq_Some_conv connection_ok_def fragment_type_ok_def)
    then show ?thesis using c1 by (auto intro: frame_outcome_put)
  qed (use d assms(2) in \<open>auto simp: dispatch_frame_def Let_def\<close>)
qed

lemma receive_outcome:
  assumes c: "connection_ok c" and q: "length (wr_payload q) = wr_len q"
    and d: "receive_frame env q c b = Some (e, b', out)"
  shows "frame_outcome c b (b', out)"
proof -
  consider (header) "wr_header_err q \<noteq> ESP_OK"
    | (large) "wr_header_err q = ESP_OK" "wr_len q > max_message"
    | (payload) "wr_header_err q = ESP_OK" "wr_len q \<le> max_message" "wr_payload_err q \<noteq> ESP_OK"
    | (read) "wr_header_err q = ESP_OK" "wr_len q \<le> max_message" "wr_payload_err q = ESP_OK"
    by fastforce
  then show ?thesis
  proof cases
    case large
    obtain r c1 outs where cl: "close_connection env 1009
        (map (of_char :: char \<Rightarrow> u8) ''message too large'') c = (r, c1, outs)" by (metis prod_cases3)
    have "wc_id c1 = wc_id c" "wc_sink c1 = wc_sink c" "connection_ok c1" "list_all (output_ok (wc_id c)) outs"
      using close_connection_fields(1-3) [of env _ _ c] close_connection_outputs [of c env] cl c
      by (metis fst_conv snd_conv)+
    then show ?thesis
      using d large cl by (auto simp: receive_frame_def Let_def intro!: frame_outcome_put)
  next
    case read
    then obtain e1 b1 out1 where "dispatch_frame env q c b = Some (e1, b1, out1)" "b' = b1"
      "list_all (output_ok (wc_id c)) out1 \<Longrightarrow> list_all (output_ok (wc_id c)) out"
      using d by (auto simp: receive_frame_def Let_def)
    moreover from this(1) have "frame_outcome c b (b1, out1)"
      using dispatch_outcome [OF c, of q env b e1 b1 out1] q read(2) by simp
    ultimately show ?thesis by (simp add: frame_outcome_def)
  qed (use d in \<open>auto simp: receive_frame_def Let_def\<close>)
qed

section \<open>Operations on a binding\<close>

datatype binding_op =
    RequestOp ws_env ws_request
  | SessionClosedOp int
  | CloseAllOp ws_env u16 bytes
  | ActiveOp bool

fun run_binding_op :: "binding_op \<Rightarrow> ws_binding \<Rightarrow> (ws_binding \<times> ws_output list) option" where
  "run_binding_op (RequestOp env q) b = map_option snd (handle_websocket_request env q b)"
| "run_binding_op (SessionClosedOp s) b = Some (on_session_closed s b)"
| "run_binding_op (CloseAllOp env code reason) b = Some (snd (close_all env code reason b))"
| "run_binding_op (ActiveOp a) b = Some (b\<lparr>wb_active := a\<rparr>, [])"

text \<open>The payload buffer has the length the frame's header states.\<close>

definition binding_op_ok :: "binding_op \<Rightarrow> bool" where
  "binding_op_ok p = (case p of RequestOp env q \<Rightarrow> length (wr_payload q) = wr_len q | _ \<Rightarrow> True)"

inductive ws_reach :: "bool \<Rightarrow> ws_binding \<Rightarrow> ws_output list \<Rightarrow> bool" for sink where
  start: "ws_reach sink (make_binding sink) []"
| step: "ws_reach sink b outs \<Longrightarrow> binding_op_ok p \<Longrightarrow> run_binding_op p b = Some (b', out) \<Longrightarrow>
    ws_reach sink b' (outs @ out)"

text \<open>
  What the sink may be told, as a monitor over the identities it knows: a connection is announced
  while unknown, its messages come and its end is announced while it is known.
\<close>

fun monitor :: "ws_id list \<Rightarrow> ws_output list \<Rightarrow> ws_id list option" where
  "monitor ids [] = Some ids"
| "monitor ids (OnConnected i # xs) = (if i \<in> set ids then None else monitor (ids @ [i]) xs)"
| "monitor ids (OnDisconnected i code reason # xs) = (if i \<in> set ids then monitor (remove1 i ids) xs else None)"
| "monitor ids (OnText i p # xs) = (if i \<in> set ids \<and> length p \<le> max_message then monitor ids xs else None)"
| "monitor ids (OnBinary i p # xs) = (if i \<in> set ids \<and> length p \<le> max_message then monitor ids xs else None)"
| "monitor ids (SendAsync i t p after # xs) =
     (if t = WsClose \<and> (length p < 2 \<or> 125 < length p) then None else monitor ids xs)"
| "monitor ids (_ # xs) = monitor ids xs"

lemma monitor_append:
  "monitor ids (xs @ ys) = (case monitor ids xs of None \<Rightarrow> None | Some ids' \<Rightarrow> monitor ids' ys)"
  by (induction ids xs rule: monitor.induct) auto

lemma monitor_quiet: "list_all (output_ok i) out \<Longrightarrow> i \<in> set ids \<Longrightarrow> monitor ids out = Some ids"
proof (induction out)
  case (Cons x out)
  then show ?case by (cases x) auto
qed simp

lemma put_connection_ids [simp]: "map wc_id (wb_connections (put_connection c b)) = map wc_id (wb_connections b)"
  by (simp add: put_connection_def)

lemma set_put_connection:
  "set (wb_connections (put_connection c b)) \<subseteq> insert c (set (wb_connections b))"
  by (auto simp: put_connection_def)

lemma find_connection_in: "find_connection i b = Some c \<Longrightarrow> c \<in> set (wb_connections b) \<and> wc_id c = i"
  by (auto simp: find_connection_def find_Some_iff)

lemma find_connection_none: "find_connection i b = None \<longleftrightarrow> i \<notin> wc_id ` set (wb_connections b)"
  by (auto simp: find_connection_def find_None_iff)

text \<open>The step of the invariant and of the monitor together.\<close>

definition step_ok :: "ws_binding \<Rightarrow> ws_binding \<times> ws_output list \<Rightarrow> bool" where
  "step_ok b x \<longleftrightarrow> binding_ok (fst x) \<and> wb_sink (fst x) = wb_sink b \<and>
     (wb_sink b \<longrightarrow> monitor (map wc_id (wb_connections b)) (snd x) = Some (map wc_id (wb_connections (fst x))))"

lemma frame_step_ok:
  assumes b: "binding_ok b" and c: "c \<in> set (wb_connections b)" and o: "frame_outcome c b x"
  shows "step_ok b x"
proof -
  have m: "monitor (map wc_id (wb_connections b)) (snd x) = Some (map wc_id (wb_connections b))"
    by (rule monitor_quiet [of "wc_id c"]) (use o c in \<open>auto simp: frame_outcome_def\<close>)
  from o consider "fst x = b"
    | c' where "fst x = put_connection c' b" "wc_id c' = wc_id c" "wc_sink c' = wc_sink c" "connection_ok c'"
    by (auto simp: frame_outcome_def)
  then show ?thesis
  proof cases
    case 1
    then show ?thesis using b m by (simp add: step_ok_def)
  next
    case 2
    have "binding_ok (put_connection c' b)"
      using b c 2(3,4) set_put_connection [of c' b] unfolding binding_ok_def by fastforce
    then show ?thesis using m 2(1) by (simp add: step_ok_def)
  qed
qed

lemma ensure_step_ok:
  assumes "binding_ok b" and "ensure_connection env h i b = (c, b', out)"
  shows "step_ok b (b', out)" "c = Some d \<Longrightarrow> d \<in> set (wb_connections b') \<and> wc_id d = i"
proof -
  have n: "connection_ok (new_connection h i (wb_sink b))"
    by (simp add: connection_ok_def new_connection_def fragment_type_ok_def)
  show "step_ok b (b', out)"
    using assms n
    by (auto simp: ensure_connection_def step_ok_def binding_ok_def find_connection_none notify_def
        new_connection_def Let_def split: option.splits if_splits)
  show "c = Some d \<Longrightarrow> d \<in> set (wb_connections b') \<and> wc_id d = i"
    using assms(2)
    by (auto simp: ensure_connection_def Let_def new_connection_def dest: find_connection_in
        split: option.splits if_splits)
qed

lemma step_ok_trans:
  "step_ok b (b1, o1) \<Longrightarrow> step_ok b1 (b2, o2) \<Longrightarrow> step_ok b (b2, o1 @ o2)"
  by (auto simp: step_ok_def monitor_append)

lemma step_ok_quiet:
  "binding_ok b \<Longrightarrow> (\<And>ids. monitor ids out = Some ids) \<Longrightarrow> step_ok b (b, out)"
  by (simp add: step_ok_def)

lemma monitor_activity [simp]: "monitor ids (notify s (Activity k i t n r c) @ xs) = monitor ids xs"
  "monitor ids (notify s (Activity k i t n r c)) = Some ids"
  by (simp_all add: notify_def)

lemma request_step_ok:
  assumes b: "binding_ok b" and q: "length (wr_payload q) = wr_len q"
    and h: "handle_websocket_request env q b = Some (e, b', out)"
  shows "step_ok b (b', out)"
proof -
  let ?i = "word_of_int (wr_socket q) :: ws_id"
  consider (refused) "\<not> wb_active b \<or> wr_socket q < 0"
    | (upgrade) "wb_active b" "0 \<le> wr_socket q" "wr_get q"
    | (frame) "wb_active b" "0 \<le> wr_socket q" "\<not> wr_get q"
    by fastforce
  then show ?thesis
  proof cases
    case refused
    then show ?thesis using h b by (auto simp: handle_websocket_request_def Let_def step_ok_def)
  next
    case upgrade
    obtain c b1 o1 where en: "ensure_connection env (wr_handle q) ?i b = (c, b1, o1)" by (metis prod_cases3)
    then have "b' = b1" "out = notify (wb_sink b) (Activity UpgradeRequested ?i FtText 0 Success 0) @ o1"
      using h upgrade by (auto simp: handle_websocket_request_def Let_def)
    then show ?thesis using ensure_step_ok(1) [OF b en] by (simp add: step_ok_def)
  next
    case frame
    obtain found b1 o1 where f: "(case find_connection ?i b of
             Some c \<Rightarrow> (Some c, b, [])
           | None \<Rightarrow>
               if wr_handle q \<and> we_websocket env ?i then ensure_connection env (wr_handle q) ?i b
               else (None, b, [])) = (found, b1, o1)" by (metis prod_cases3)
    have s1: "step_ok b (b1, o1)" "\<And>d. found = Some d \<Longrightarrow> d \<in> set (wb_connections b1)"
      using f b ensure_step_ok [OF b, of env "wr_handle q" ?i]
      by (auto simp: step_ok_def dest: find_connection_in split: option.splits if_splits)
    show ?thesis
    proof (cases found)
      case None
      then have "b' = b1" "out = o1 @ notify (wb_sink b) (Activity ReceiveFailed ?i FtBinary 0 (fail_with NotFound) 0)"
        using h frame f by (auto simp: handle_websocket_request_def Let_def)
      then show ?thesis using s1(1) by (auto simp: step_ok_def monitor_append)
    next
      case (Some c)
      then obtain e2 o2 where r: "receive_frame env q c b1 = Some (e2, b', o2)" "out = o1 @ o2"
        using h frame f by (auto simp: handle_websocket_request_def Let_def)
      have b1: "binding_ok b1" "c \<in> set (wb_connections b1)" "connection_ok c"
        using s1 Some by (auto simp: step_ok_def binding_ok_def)
      have "step_ok b1 (b', o2)"
        by (rule frame_step_ok [OF b1(1,2) receive_outcome [OF b1(3) q r(1)]])
      then show ?thesis using step_ok_trans [OF s1(1)] r(2) by blast
    qed
  qed
qed

lemma closed_step_ok:
  assumes "binding_ok b"
  shows "step_ok b (on_session_closed socket b)"
proof (cases "find_connection (word_of_int socket) b")
  case None
  then show ?thesis using assms by (simp add: on_session_closed_def Let_def step_ok_def)
next
  case (Some c)
  then have c: "c \<in> set (wb_connections b)" "wc_id c = word_of_int socket"
    by (auto dest: find_connection_in)
  have "distinct (map wc_id xs) \<Longrightarrow> c \<in> set xs \<Longrightarrow> map wc_id (remove1 c xs) = remove1 (wc_id c) (map wc_id xs)" for xs
    by (induction xs) (auto simp: image_iff)
  then have ids: "map wc_id (remove1 c (wb_connections b)) = remove1 (wc_id c) (map wc_id (wb_connections b))"
    using assms c(1) by (simp add: binding_ok_def)
  have "binding_ok (b\<lparr>wb_connections := remove1 c (wb_connections b)\<rparr>)"
    using assms ids set_remove1_subset [of c "wb_connections b"]
    by (auto simp: binding_ok_def distinct_remove1)
  then show ?thesis
    using Some c ids imageI [OF c(1), of wc_id] by (auto simp: on_session_closed_def Let_def step_ok_def)
qed

lemma close_each_ok:
  "\<forall>c \<in> set cs. wc_sink c = s \<and> connection_ok c \<Longrightarrow> wc_id ` set cs \<subseteq> set ids \<Longrightarrow>
     close_each env code reason r cs = (r', cs', out) \<Longrightarrow>
     map wc_id cs' = map wc_id cs \<and> (\<forall>c \<in> set cs'. wc_sink c = s \<and> connection_ok c \<and> \<not> wc_open c) \<and>
     monitor ids out = Some ids"
proof (induction cs arbitrary: r r' cs' out)
  case (Cons c cs)
  obtain r1 c1 o1 where one: "close_connection env code reason c = (r1, c1, o1)" by (metis prod_cases3)
  obtain r2 cs1 os where rest: "close_each env code reason (if r1 = Success then r else r1) cs = (r2, cs1, os)"
    by (metis prod_cases3)
  have cs': "cs' = c1 # cs1" "out = o1 @ os" using Cons.prems(3) one rest by auto
  have c1: "wc_id c1 = wc_id c" "wc_sink c1 = wc_sink c" "connection_ok c1 = connection_ok c" "\<not> wc_open c1"
    "list_all (output_ok (wc_id c)) o1"
    using close_connection_fields [of env code reason c] close_connection_outputs [of c env code reason] one
    by simp_all
  have "monitor ids o1 = Some ids" by (rule monitor_quiet [OF c1(5)]) (use Cons.prems(2) in auto)
  then show ?case using Cons.IH [OF _ _ rest] Cons.prems(1,2) c1 cs' by (auto simp: monitor_append)
qed simp

lemma close_all_step_ok:
  assumes "binding_ok b"
  shows "step_ok b (snd (close_all env code reason b))"
proof -
  obtain r cs out where c: "close_each env code reason Success (wb_connections b) = (r, cs, out)"
    by (metis prod_cases3)
  have "map wc_id cs = map wc_id (wb_connections b) \<and>
      (\<forall>c \<in> set cs. wc_sink c = wb_sink b \<and> connection_ok c \<and> \<not> wc_open c) \<and>
      monitor (map wc_id (wb_connections b)) out = Some (map wc_id (wb_connections b))"
    by (rule close_each_ok [OF _ _ c]) (use assms in \<open>auto simp: binding_ok_def\<close>)
  then show ?thesis using assms c by (simp add: close_all_def step_ok_def binding_ok_def)
qed

lemma ws_reach_ok:
  "ws_reach sink b outs \<Longrightarrow> binding_ok b \<and> wb_sink b = sink \<and>
     (sink \<longrightarrow> monitor [] outs = Some (map wc_id (wb_connections b)))"
proof (induction rule: ws_reach.induct)
  case start
  show ?case by (simp add: binding_ok_def make_binding_def)
next
  case (step b outs p b' out)
  have "step_ok b (b', out)"
  proof (cases p)
    case (RequestOp env q)
    then show ?thesis using step request_step_ok [of b q env] by (auto simp: binding_op_ok_def)
  next
    case (SessionClosedOp s)
    then show ?thesis using step closed_step_ok [of b s] by simp
  next
    case (CloseAllOp env code reason)
    then show ?thesis using step close_all_step_ok [of b env code reason] by simp
  next
    case (ActiveOp a)
    then show ?thesis using step by (auto simp: step_ok_def binding_ok_def)
  qed
  then show ?case using step.IH by (auto simp: step_ok_def monitor_append)
qed

section \<open>The endpoint and the server\<close>

datatype ep_op =
    BindOp string string
  | UnbindOp ws_env nat
  | OnBinding binding_op
  | SinkOp bool
  | OtherAdd nat
  | OtherRelease nat
  | SrvInit http_config nat
  | SrvStart "esp_err \<times> nat" "nat \<Rightarrow> esp_err"
  | SrvStop esp_err
  | SrvReset http_config esp_err

text \<open>
  A step of the endpoint or of the server it is bound to. A new binding state is at an address no
  binding of the server has; a request or a closed session does not change whether the endpoint is
  bound.
\<close>

fun ep_step ::
    "(nat \<Rightarrow> bool) \<Rightarrow> (nat \<Rightarrow> binding_info) \<Rightarrow> ep_op \<Rightarrow> ws_endpoint \<times> http_server
      \<Rightarrow> (ws_endpoint \<times> http_server) option" where
  "ep_step others infos (BindOp path protocol) st = Some (fst (snd (endpoint_bind others infos path protocol st)))"
| "ep_step others infos (UnbindOp env fresh) st =
     (if fresh \<in> insert (ep_id (fst st)) (set (hs_bindings (snd st))) then None
      else Some (fst (snd (endpoint_unbind env fresh others st))))"
| "ep_step others infos (OnBinding p) st = (case p of
       ActiveOp a \<Rightarrow> None
     | _ \<Rightarrow> map_option (\<lambda>(b, out). ((fst st)\<lparr>ep_binding := b\<rparr>, snd st))
         (run_binding_op p (ep_binding (fst st))))"
| "ep_step others infos (SinkOp s) st = Some (endpoint_set_sink s (fst st), snd st)"
| "ep_step others infos (OtherAdd b) st =
     (if b = ep_id (fst st) then None
      else Some (fst st, snd (add_binding (seen_active others (ep_id (fst st)) (ep_binding (fst st)))
        (seen_info infos (ep_id (fst st)) (ep_binding (fst st))) (Some b) (snd st))))"
| "ep_step others infos (OtherRelease b) st =
     (if b = ep_id (fst st) then None
      else Some (fst st, release_binding (seen_active others (ep_id (fst st)) (ep_binding (fst st)))
        (Some b) (snd st)))"
| "ep_step others infos (SrvInit cfg d) st = Some (fst st, snd (server_initialize cfg d (snd st)))"
| "ep_step others infos (SrvStart started registered) st =
     Some (fst st, fst (snd (server_start started registered
       (seen_active others (ep_id (fst st)) (ep_binding (fst st)))
       (seen_info infos (ep_id (fst st)) (ep_binding (fst st))) (snd st))))"
| "ep_step others infos (SrvStop e) st =
     Some (fst st, fst (snd (server_stop e (seen_active others (ep_id (fst st)) (ep_binding (fst st))) (snd st))))"
| "ep_step others infos (SrvReset cfg e) st =
     Some (fst st, fst (server_reset cfg e (seen_active others (ep_id (fst st)) (ep_binding (fst st))) (snd st)))"

inductive ep_reach :: "ws_endpoint \<times> http_server \<Rightarrow> bool" where
  start: "ep_reach (new_endpoint i, fresh_http_server cfg)"
| step: "ep_reach st \<Longrightarrow> ep_step others infos p st = Some st' \<Longrightarrow> ep_reach st'"

definition bound_iff_kept :: "ws_endpoint \<times> http_server \<Rightarrow> bool" where
  "bound_iff_kept st \<longleftrightarrow> (wb_active (ep_binding (fst st)) \<longleftrightarrow> ep_id (fst st) \<in> set (hs_bindings (snd st)))"

lemma seen_active_simps [simp]:
  "seen_active others i b i = wb_active b" "j \<noteq> i \<Longrightarrow> seen_active others i b j = others j"
  by (simp_all add: seen_active_def)

lemma bind_bound:
  assumes "bound_iff_kept (ep, srv)"
  shows "bound_iff_kept (fst (snd (endpoint_bind others infos path protocol (ep, srv))))"
proof -
  let ?b = "ep_binding ep"
  show ?thesis
  proof (cases "wb_active ?b \<or> fst (binding_prepare path protocol ?b) \<noteq> Success")
    case True
    then show ?thesis using assms
      by (auto simp: endpoint_bind_def binding_prepare_def Let_def split: if_splits)
  next
    case False
    let ?b2 = "?b\<lparr>wb_path := path, wb_protocol := protocol, wb_active := True\<rparr>"
    have prep: "binding_prepare path protocol ?b = (Success, ?b\<lparr>wb_path := path, wb_protocol := protocol\<rparr>)"
      using False by (auto simp: binding_prepare_def split: if_splits)
    have new: "ep_id ep \<notin> set (hs_bindings srv)" using assms False by (simp add: bound_iff_kept_def)
    obtain r srv1 where a: "add_binding (seen_active others (ep_id ep) ?b2) (seen_info infos (ep_id ep) ?b2)
        (Some (ep_id ep)) srv = (r, srv1)" by fastforce
    have "ep_id ep \<in> set (hs_bindings srv1) \<longleftrightarrow> r = Success"
      using http_registry.added [OF new] http_registry.refused [OF new a] a new by (cases "r = Success") auto
    then show ?thesis using False prep a
      by (auto simp: endpoint_bind_def bound_iff_kept_def Let_def)
  qed
qed

lemma unbind_bound:
  assumes "fresh \<notin> set (hs_bindings srv)" and "bound_iff_kept (ep, srv)"
  shows "bound_iff_kept (fst (snd (endpoint_unbind env fresh others (ep, srv))))"
proof (cases "wb_active (ep_binding ep)")
  case True
  have "fresh \<notin> set (hs_bindings (release_binding active (Some (ep_id ep)) srv))" for active
    using http_registry.nothing_enters [of active "ep_id ep" srv] assms(1) by blast
  then show ?thesis using True
    by (simp add: endpoint_unbind_def bound_iff_kept_def Let_def case_prod_unfold make_binding_def)
next
  case False
  have "ep_id ep \<notin> set (hs_bindings (release_binding active (Some (ep_id ep)) srv))" for active
    using http_registry.nothing_enters [of active "ep_id ep" srv] assms(2) False
    by (auto simp: bound_iff_kept_def)
  then show ?thesis using False by (simp add: endpoint_unbind_def bound_iff_kept_def Let_def)
qed

lemma handler_keeps_active:
  assumes "handle_websocket_request env q b = Some (e, b', out)"
  shows "wb_active b' = wb_active b"
proof -
  have e: "ensure_connection env h i b = (c, b1, o1) \<Longrightarrow> wb_active b1 = wb_active b" for h i c b1 o1
    by (auto simp: ensure_connection_def Let_def split: option.splits if_splits)
  have d: "dispatch_frame env q c b0 = Some (e, b1, o1) \<Longrightarrow> wb_active b1 = wb_active b0" for c b0 e b1 o1
    by (auto simp: dispatch_frame_def Let_def bind_eq_Some_conv case_prod_unfold
        split: if_splits option.splits)
  have r: "receive_frame env q c b0 = Some (e, b1, o1) \<Longrightarrow> wb_active b1 = wb_active b0" for c b0 e b1 o1
    by (auto simp: receive_frame_def Let_def case_prod_unfold dest: d split: if_splits)
  show ?thesis
    using assms
    by (auto simp: handle_websocket_request_def Let_def dest: e r split: if_splits prod.splits option.splits)
qed

lemma binding_op_keeps_active:
  "run_binding_op p b = Some (b', out) \<Longrightarrow> (\<forall>a. p \<noteq> ActiveOp a) \<Longrightarrow> wb_active b' = wb_active b"
  by (cases p) (auto simp: on_session_closed_def close_all_def Let_def case_prod_unfold
      dest: handler_keeps_active split: option.splits)

lemma server_keeps_active:
  "active b \<Longrightarrow> b \<in> set (hs_bindings (fst (snd (server_start st rg active info s)))) \<longleftrightarrow> b \<in> set (hs_bindings s)"
  "active b \<Longrightarrow> b \<in> set (hs_bindings (fst (snd (server_stop e active s)))) \<longleftrightarrow> b \<in> set (hs_bindings s)"
  "active b \<Longrightarrow> b \<in> set (hs_bindings (fst (server_reset cfg e active s))) \<longleftrightarrow> b \<in> set (hs_bindings s)"
  by (auto simp: server_start_def start_enter_def start_failed_def start_exit_def server_stop_def
      stop_enter_def server_reset_def reset_section_def prune_def Let_def case_prod_unfold
      split: option.splits sum.splits)

lemma server_adds_none:
  "set (hs_bindings (fst (snd (server_start st rg active info s)))) \<subseteq> set (hs_bindings s)"
  "set (hs_bindings (fst (snd (server_stop e active s)))) \<subseteq> set (hs_bindings s)"
  "set (hs_bindings (fst (server_reset cfg e active s))) \<subseteq> set (hs_bindings s)"
  by (auto simp: server_start_def start_enter_def start_failed_def start_exit_def server_stop_def
      stop_enter_def server_reset_def reset_section_def prune_def Let_def case_prod_unfold
      split: option.splits sum.splits if_splits)

lemma others_bound:
  assumes "bound_iff_kept (ep, srv)"
    and "set (hs_bindings srv') - {c} \<subseteq> set (hs_bindings srv)" "c \<noteq> ep_id ep"
    and "wb_active (ep_binding ep) \<Longrightarrow> ep_id ep \<in> set (hs_bindings srv) \<Longrightarrow> ep_id ep \<in> set (hs_bindings srv')"
  shows "bound_iff_kept (ep, srv')"
  using assms by (auto simp: bound_iff_kept_def)

lemma add_other:
  "set (hs_bindings (snd (add_binding active info (Some b) s))) - {b} \<subseteq> set (hs_bindings s)"
  "set (hs_bindings s) \<subseteq> set (hs_bindings (snd (add_binding active info (Some b) s)))"
  by (auto simp: add_binding_def split: option.splits)

lemma ep_step_bound:
  assumes b: "bound_iff_kept st" and s: "ep_step others infos p st = Some st'"
  shows "bound_iff_kept st'"
proof -
  obtain ep srv where st: "st = (ep, srv)" by force
  note b = b [unfolded st] and s = s [unfolded st]
  let ?act = "seen_active others (ep_id ep) (ep_binding ep)"
  have other: "Suc (ep_id ep) \<noteq> ep_id ep" by simp
  show ?thesis
  proof (cases p)
    case (BindOp path protocol)
    have e: "st' = fst (snd (endpoint_bind others infos path protocol (ep, srv)))" using s BindOp by simp
    show ?thesis unfolding e by (rule bind_bound [OF b])
  next
    case (UnbindOp env fresh)
    have e: "fresh \<notin> set (hs_bindings srv)" "st' = fst (snd (endpoint_unbind env fresh others (ep, srv)))"
      using s UnbindOp by (simp_all split: if_splits)
    show ?thesis unfolding e(2) by (rule unbind_bound [OF e(1) b])
  next
    case (OnBinding q)
    then have q: "\<forall>a. q \<noteq> ActiveOp a" using s by (cases q) simp_all
    then obtain b1 out where r: "run_binding_op q (ep_binding ep) = Some (b1, out)" "st' = (ep\<lparr>ep_binding := b1\<rparr>, srv)"
      using s OnBinding by (cases q) (auto split: prod.splits)
    show ?thesis using b binding_op_keeps_active [OF r(1) q] unfolding r(2) by (simp add: bound_iff_kept_def)
  next
    case (SinkOp x)
    have e: "st' = (endpoint_set_sink x ep, srv)" using s SinkOp by simp
    show ?thesis using b unfolding e
      by (simp add: bound_iff_kept_def endpoint_set_sink_def binding_set_sink_def)
  next
    case (OtherAdd c)
    let ?s = "snd (add_binding ?act (seen_info infos (ep_id ep) (ep_binding ep)) (Some c) srv)"
    have e: "c \<noteq> ep_id ep" "st' = (ep, ?s)" using s OtherAdd by (simp_all split: if_splits)
    show ?thesis unfolding e(2)
      by (rule others_bound [OF b add_other(1) e(1)]) (use add_other(2) in blast)
  next
    case (OtherRelease c)
    have e: "c \<noteq> ep_id ep" "st' = (ep, release_binding ?act (Some c) srv)"
      using s OtherRelease by (simp_all split: if_splits)
    show ?thesis unfolding e(2)
      by (rule others_bound [OF b _ other])
        (use http_registry.nothing_enters http_registry.others_stay [of "ep_id ep" srv ?act c] e(1) in \<open>auto dest: subsetD\<close>)
  next
    case (SrvInit cfg d)
    have e: "st' = (ep, snd (server_initialize cfg d srv))" using s SrvInit by simp
    show ?thesis using b unfolding e by (simp add: bound_iff_kept_def section_bindings)
  next
    case (SrvStart started rg)
    let ?s = "fst (snd (server_start started rg ?act (seen_info infos (ep_id ep) (ep_binding ep)) srv))"
    have e: "st' = (ep, ?s)" using s SrvStart by simp
    show ?thesis unfolding e
    proof (rule others_bound [OF b _ other])
      show "set (hs_bindings ?s) - {Suc (ep_id ep)} \<subseteq> set (hs_bindings srv)" using server_adds_none(1) by blast
    qed (simp add: server_keeps_active(1))
  next
    case (SrvStop x)
    have e: "st' = (ep, fst (snd (server_stop x ?act srv)))" using s SrvStop by simp
    show ?thesis unfolding e
    proof (rule others_bound [OF b _ other])
      show "set (hs_bindings (fst (snd (server_stop x ?act srv)))) - {Suc (ep_id ep)} \<subseteq> set (hs_bindings srv)"
        using server_adds_none(2) by blast
    qed (simp add: server_keeps_active(2))
  next
    case (SrvReset cfg x)
    have e: "st' = (ep, fst (server_reset cfg x ?act srv))" using s SrvReset by simp
    show ?thesis unfolding e
    proof (rule others_bound [OF b _ other])
      show "set (hs_bindings (fst (server_reset cfg x ?act srv))) - {Suc (ep_id ep)} \<subseteq> set (hs_bindings srv)"
        using server_adds_none(3) by blast
    qed (simp add: server_keeps_active(3))
  qed
qed

lemma ep_reach_bound: "ep_reach st \<Longrightarrow> bound_iff_kept st"
proof (induction rule: ep_reach.induct)
  case (start i cfg)
  show ?case
    by (simp add: bound_iff_kept_def new_endpoint_def make_binding_def fresh_http_server_def)
qed (rule ep_step_bound)

section \<open>Properties\<close>

text \<open>C22: Fragmentation is invisible: whatever way text and binary messages of at most 65536 bytes
  are cut into frames, and wherever pings and pongs come in between, the sink gets exactly the
  messages, whole, once each and in order, and the connection is ready for the next one. The
  connection is known, between messages and on an active binding with a sink.\<close>

theorem ws_reassembly:
  assumes "find_connection (word_of_int socket) b = Some c" and "wb_active b" "wb_sink b" "0 \<le> socket"
    and "\<not> wc_fragmenting c" "wc_fragments c = []"
    and "list_all message_ok ms" and "filter (\<lambda>f. \<not> is_control f) fs = concat (map message_frames ms)"
    and "\<forall>f \<in> set fs. is_control f \<longrightarrow> length (snd (snd f)) \<le> max_message"
  shows "\<exists>b' out c'. run_requests env (map (frame_request socket) fs) b = Some (b', out) \<and>
    filter is_message out =
      map (\<lambda>m. if wm_text m then OnText (word_of_int socket) (concat (wm_pieces m))
               else OnBinary (word_of_int socket) (concat (wm_pieces m))) ms \<and>
    find_connection (word_of_int socket) b' = Some c' \<and> \<not> wc_fragmenting c' \<and> wc_fragments c' = []"
proof -
  obtain t where t: "feed c (concat (map message_frames ms)) =
      Some (c\<lparr>wc_fragment_type := t\<rparr>, map (\<lambda>m. (message_type m, concat (wm_pieces m))) ms)"
    using feed_messages [OF assms(7,5,6)] by blast
  have cont: "f \<in> set (continuation_frames ps) \<Longrightarrow> fst f = WsContinue \<and> snd (snd f) \<in> set ps" for f ps
    by (induction ps) auto
  have piece: "length p \<le> max_message" if "m \<in> set ms" "p \<in> set (wm_pieces m)" for m p
  proof -
    have "length (concat (wm_pieces m)) \<le> max_message" using assms(7) that(1) by (auto simp: list_all_iff message_ok_def)
    then show ?thesis using that(2) member_le_sum_list [of "length p" "map length (wm_pieces m)"]
      by (auto simp: length_concat)
  qed
  have small: "length (snd (snd f)) \<le> max_message \<and> fst f \<noteq> WsClose" if f: "f \<in> set fs" for f
  proof (cases "is_control f")
    case True
    then show ?thesis using assms(9) f by (auto simp: is_control_def)
  next
    case False
    then have "f \<in> set (filter (\<lambda>f. \<not> is_control f) fs)" using f by simp
    then have "f \<in> set (concat (map message_frames ms))" unfolding assms(8) .
    then obtain m where m: "m \<in> set ms" "f \<in> set (message_frames m)" by auto
    then show ?thesis using piece [OF m(1)] cont [of f]
      by (cases "wm_pieces m") (auto simp: message_frames_def message_type_def split: if_splits)
  qed
  have fed: "feed c (filter (\<lambda>f. \<not> is_control f) fs) =
      Some (c\<lparr>wc_fragment_type := t\<rparr>, map (\<lambda>m. (message_type m, concat (wm_pieces m))) ms)"
    using t assms(8) by simp
  have "\<exists>b' out. run_requests env (map (frame_request socket) fs) b = Some (b', out) \<and>
      find_connection (word_of_int socket) b' = Some (c\<lparr>wc_fragment_type := t\<rparr>) \<and> wb_active b' \<and> wb_sink b' = wb_sink b \<and>
      filter is_message out = concat (map (\<lambda>m. notify (wb_sink b) (delivery_of (word_of_int socket) m))
        (map (\<lambda>m. (message_type m, concat (wm_pieces m))) ms))"
    by (rule run_feeds [OF fed assms(1,2,4) refl]) (use small assms(5) in \<open>auto simp: fragment_type_ok_def\<close>)
  moreover have "concat (map (\<lambda>m. notify (wb_sink b) (delivery_of i m))
        (map (\<lambda>m. (message_type m, concat (wm_pieces m))) ms)) =
      map (\<lambda>m. if wm_text m then OnText i (concat (wm_pieces m)) else OnBinary i (concat (wm_pieces m))) ms" for i
    using assms(3) by (induction ms) (auto simp: notify_def delivery_of_def message_type_def)
  ultimately show ?thesis using assms(5,6) by auto
qed

definition demo_ws_env :: ws_env where
  "demo_ws_env = \<lparr>we_websocket = \<lambda>_. True, we_alloc = Allocated, we_async = \<lambda>_. ESP_OK\<rparr>"

definition demo_binding :: ws_binding where
  "demo_binding = \<lparr>wb_active = True, wb_sink = True, wb_path = ''/ws'', wb_protocol = ''chat'',
     wb_connections = [new_connection True 5 True]\<rparr>"

lemma ws_reassembly_witness:
  "\<exists>b' out. run_requests demo_ws_env (map (frame_request 5)
       [(WsText, False, [72]), (WsPing, True, []), (WsContinue, True, [105]), (WsBinary, True, [1])])
       demo_binding = Some (b', out) \<and>
     filter is_message out = [OnText 5 [72, 105], OnBinary 5 [1]]"
proof -
  let ?ms = "[\<lparr>wm_text = True, wm_pieces = [[72], [105]]\<rparr>, \<lparr>wm_text = False, wm_pieces = [[1]]\<rparr>]"
  have c: "find_connection (word_of_int 5) demo_binding = Some (new_connection True 5 True)"
    by (simp add: find_connection_def demo_binding_def new_connection_def)
  show ?thesis
    using ws_reassembly [OF c, of ?ms
        "[(WsText, False, [72]), (WsPing, True, []), (WsContinue, True, [105]), (WsBinary, True, [1])]" demo_ws_env]
    by (auto simp: demo_binding_def new_connection_def message_ok_def max_message_def is_control_def
        message_frames_def message_type_def)
qed

text \<open>C23: For any sequence of upgrades, frames, session ends and closes on a binding with a sink:
  what the sink is told is a well-ordered history. A connection is announced only while it is
  unknown and its end only while it is known, messages come from known connections and have at
  most 65536 bytes, a queued close frame carries 2 to 125 bytes, and after the history the
  connections announced and not ended are exactly those of the list, each once.\<close>

theorem ws_session_history:
  assumes "ws_reach True b outs"
  shows "monitor [] outs = Some (map wc_id (wb_connections b)) \<and>
    distinct (map wc_id (wb_connections b)) \<and>
    (\<forall>c \<in> set (wb_connections b). length (wc_fragments c) \<le> max_message \<and>
       (\<not> wc_fragmenting c \<longrightarrow> wc_fragments c = []))"
  using ws_reach_ok [OF assms] by (simp add: binding_ok_def connection_ok_def)

lemma ws_session_history_witness:
  "\<exists>b outs. ws_reach True b outs \<and> map wc_id (wb_connections b) = [5] \<and> monitor [] outs = Some [5]"
proof -
  let ?q = "(frame_request 5 (WsText, True, [72]))\<lparr>wr_get := True\<rparr>"
  let ?b1 = "(make_binding True)\<lparr>wb_active := True\<rparr>"
  let ?b2 = "?b1\<lparr>wb_connections := [new_connection True 5 True]\<rparr>"
  have reach1: "ws_reach True ?b1 ([] @ [])"
    by (rule ws_reach.step [OF ws_reach.start, of "ActiveOp True"]) (simp_all add: binding_op_ok_def)
  have run: "run_binding_op (RequestOp demo_ws_env ?q) ?b1 = Some (?b2,
      [Activity UpgradeRequested 5 FtText 0 Success 0, Activity ConnectionCreated 5 FtText 0 Success 0, OnConnected 5])"
    by (simp add: handle_websocket_request_def frame_request_def ensure_connection_def find_connection_def
        make_binding_def demo_ws_env_def notify_def Let_def)
  have "ws_reach True ?b2 (([] @ []) @
      [Activity UpgradeRequested 5 FtText 0 Success 0, Activity ConnectionCreated 5 FtText 0 Success 0, OnConnected 5])"
    by (rule ws_reach.step [OF reach1 _ run]) (simp add: binding_op_ok_def frame_request_def)
  then show ?thesis using ws_session_history by (fastforce simp: new_connection_def)
qed

text \<open>C24: An endpoint is bound exactly while the HTTP server keeps its binding state, after any
  sequence of operations on the endpoint, on other endpoints and on the server: no failed Bind
  leaves its state behind, no Start, Stop, Reset or release of another binding loses it, and after
  Unbind a new state takes its place that the server has never seen.\<close>

theorem ws_bound_iff_registered:
  assumes "ep_reach (ep, srv)"
  shows "wb_active (ep_binding ep) \<longleftrightarrow> ep_id ep \<in> set (hs_bindings srv)"
  using ep_reach_bound [OF assms] by (simp add: bound_iff_kept_def)

lemma ws_bound_iff_registered_witness:
  "\<exists>ep srv. ep_reach (ep, srv) \<and> wb_active (ep_binding ep) \<and> hs_bindings srv = [3]"
proof -
  let ?st = "fst (snd (endpoint_bind (\<lambda>_. False) demo_info ''/ws'' ''chat'' (new_endpoint 3, fresh_http_server demo_config)))"
  have r: "ep_reach ?st"
    by (rule ep_reach.step [OF ep_reach.start, of "\<lambda>_. False" demo_info "BindOp ''/ws'' ''chat''"]) simp
  have e: "hs_bindings (snd ?st) = [3]" "ep_id (fst ?st) = 3"
    by (simp_all add: endpoint_bind_def new_endpoint_def make_binding_def binding_prepare_def
        add_binding_def fresh_http_server_def busy_def notify_def seen_active_def seen_info_def Let_def)
  have "wb_active (ep_binding (fst ?st))"
    using ws_bound_iff_registered [of "fst ?st" "snd ?st"] r e by simp
  then show ?thesis using r e by (metis prod.collapse)
qed

text \<open>C25: Failing a connection does not end it. A continuation frame with no message to continue is a
  protocol error: the endpoint queues a close frame with code 1002 and the connection counts as
  closed. A text frame that arrives after it is handed to the application like any other.\<close>

theorem ws_message_after_failure:
  assumes "find_connection (word_of_int socket) b = Some c" and "wb_active b" "wb_sink b" "0 \<le> socket"
    and "wc_open c" "wc_server c" "wc_sink c" "\<not> wc_fragmenting c"
    and "we_websocket env (wc_id c)" "we_alloc env = Allocated" "we_async env (wc_id c) = ESP_OK"
    and "length p \<le> max_message" "length text \<le> max_message"
  shows "\<exists>b' c' out1 out2 reason.
    run_requests env (map (frame_request socket) [(WsContinue, final, p), (WsText, True, text)]) b =
      Some (b', out1 @ out2 @ [OnText (wc_id c) text]) \<and>
    SendAsync (wc_id c) WsClose (close_payload 1002 reason) True \<in> set out1 \<and>
    find_connection (word_of_int socket) b' = Some c' \<and> \<not> wc_open c'"
proof -
  let ?i = "word_of_int socket :: ws_id"
  let ?reason = "map (of_char :: char \<Rightarrow> u8) ''invalid websocket message''"
  have i: "wc_id c = ?i" using find_connection_id [OF assms(1)] .
  define c1 where "c1 = c\<lparr>wc_open := False, wc_close_code := 1002, wc_close_reason := ?reason\<rparr>"
  obtain out where close: "close_connection env 1002 ?reason c =
      (Success, c1, Activity CloseRequested ?i FtClose (length ?reason) Success 1002
        # SendAsync ?i WsClose (close_payload 1002 ?reason) True # out)"
    using assms i by (simp add: close_connection_def queue_owned_frame_def notify_def c1_def Let_def)
  obtain o1 where first: "handle_websocket_request env (frame_request socket (WsContinue, final, p)) b =
      Some (ESP_OK, put_connection c1 b, o1)" "SendAsync ?i WsClose (close_payload 1002 ?reason) True \<in> set o1"
    using assms i close
    by (auto simp: handle_websocket_request_def frame_request_def receive_frame_def dispatch_frame_def
        accumulate_fragment_def notify_def Let_def)
  have c1: "find_connection ?i (put_connection c1 b) = Some c1" "wc_id c1 = ?i" "\<not> wc_fragmenting c1" "\<not> wc_open c1"
    using find_put_connection [OF assms(1), of c1] i assms(8) by (simp_all add: c1_def)
  obtain o2 b2 where second: "handle_websocket_request env (frame_request socket (WsText, True, text)) (put_connection c1 b) =
      Some (ESP_OK, b2, o2 @ [OnText ?i text])" "find_connection ?i b2 = Some c1"
  proof
    show "handle_websocket_request env (frame_request socket (WsText, True, text)) (put_connection c1 b) =
      Some (ESP_OK, put_connection c1 (put_connection c1 b),
        [Activity FrameHeaderReceived ?i FtText (length text) Success 0,
         Activity FramePayloadReceived ?i FtText (length text) Success 0] @ [OnText ?i text])"
      using assms c1
      by (simp add: handle_websocket_request_def frame_request_def receive_frame_def dispatch_frame_def
          accumulate_fragment_def notify_def frame_type_of_def Let_def)
    show "find_connection ?i (put_connection c1 (put_connection c1 b)) = Some c1"
      by (rule find_put_connection [OF c1(1,2)])
  qed
  show ?thesis using first second c1(4) i by auto
qed

lemma ws_message_after_failure_witness:
  "\<exists>b' out. run_requests demo_ws_env (map (frame_request 5) [(WsContinue, True, []), (WsText, True, [72])])
     demo_binding = Some (b', out) \<and> OnText 5 [72] \<in> set out"
proof -
  have c: "find_connection (word_of_int 5) demo_binding = Some (new_connection True 5 True)"
    by (simp add: find_connection_def demo_binding_def new_connection_def)
  show ?thesis
    using ws_message_after_failure [OF c, of demo_ws_env "[]" "[72]" True]
    by (force simp: demo_binding_def demo_ws_env_def new_connection_def max_message_def)
qed

end
