(* ===== verification/Ws_Client.thy ===== *)
theory Ws_Client
  imports Ws_Endpoint
begin

text \<open>
  src/ESPressio_WebSocketClientPlatform.hpp: the WebSocket client on \<open>esp_websocket_client\<close>.

  The native client answers through the environment of an operation, and the calls made are
  returned; a native client is its handle, a number. A connection object is its identity. Payloads,
  credentials and close reasons are bytes; host, path, protocol and headers are characters.
  Disconnect runs in two sections under the lock with native calls between them; its sections, and
  the events of the native client's own task, are the steps of \<open>client_step\<close>.
\<close>

section \<open>Credentials\<close>

datatype encoding = Pem | Der

text \<open>A view of a credential, with what \<open>Empty\<close> and \<open>Valid\<close> of ESPressio-Web answer for it.\<close>

record credential_view =
  cv_data :: bytes
  cv_encoding :: encoding
  cv_empty :: bool
  cv_valid :: bool

record credential =
  cr_bytes :: bytes
  cr_encoding :: encoding

definition cleared :: credential where
  "cleared = \<lparr>cr_bytes = [], cr_encoding = Pem\<rparr>"

definition native_length :: "credential \<Rightarrow> nat" where
  "native_length c = (if cr_encoding c = Der then length (cr_bytes c) else 0)"

definition native_data :: "credential \<Rightarrow> bytes option" where
  "native_data c = (if cr_bytes c = [] then None else Some (cr_bytes c))"

definition assign_credential :: "credential_view \<Rightarrow> web_result \<times> credential" where
  "assign_credential v =
     (if cv_empty v then (Success, cleared)
      else if \<not> cv_valid v then (fail_with InvalidConfiguration, cleared)
      else if cv_encoding v = Der then (Success, \<lparr>cr_bytes = cv_data v, cr_encoding = Der\<rparr>)
      else
        let n = length (cv_data v);
            logical = (if n \<noteq> 0 \<and> last (cv_data v) = 0 then n - 1 else n)
        in if 0 \<in> set (take logical (cv_data v)) then (fail_with InvalidConfiguration, cleared)
           else (Success, \<lparr>cr_bytes = take logical (cv_data v) @ [0], cr_encoding = cv_encoding v\<rparr>))"

section \<open>Configuration\<close>

record client_policy =
  cp_reconnect :: bool
  cp_reconnect_delay :: u32
  cp_reconnect_clean :: bool
  cp_ping :: u32
  cp_pong :: u32
  cp_keep_alive :: bool
  cp_keep_idle :: u32
  cp_keep_interval :: u32
  cp_keep_count :: u32
  cp_timeout :: u32
  cp_max_header_bytes :: nat

datatype server_trust = PlatformTrust | CertificateAuthority | OtherTrust int

record client_tls =
  ct_trust :: server_trust
  ct_ca :: credential_view
  ct_certificate :: credential_view
  ct_key :: credential_view
  ct_validate :: web_result

text \<open>The header source: how many there are, and the answer for each index.\<close>

record client_config =
  cc_host :: string
  cc_port :: u16
  cc_path :: string
  cc_protocol :: string
  cc_tls_transport :: bool
  cc_tls :: client_tls
  cc_headers :: "(nat \<times> (nat \<Rightarrow> (string \<times> string) option)) option"
  cc_policy :: client_policy

definition validate_native_policy :: "client_config \<Rightarrow> web_result" where
  "validate_native_policy cfg = (let p = cc_policy cfg in
     if cc_host cfg = [] \<or> cc_port cfg = 0 \<or> take 1 (cc_path cfg) \<noteq> ''/'' then fail_with InvalidConfiguration
     else if cp_timeout p \<noteq> 10000 then fail_with Unsupported
     else if cp_reconnect p \<and> cp_reconnect_delay p \<noteq> 10000 then fail_with Unsupported
     else if cp_reconnect_clean p then fail_with Unsupported
     else if cp_ping p mod 1000 \<noteq> 0 \<or> cp_pong p mod 1000 \<noteq> 0 then fail_with Unsupported
     else if cp_keep_alive p \<and>
       (cp_keep_idle p = 0 \<or> cp_keep_interval p = 0 \<or> cp_keep_count p = 0 \<or>
        cp_keep_idle p > 2147483647 \<or> cp_keep_interval p > 2147483647 \<or> cp_keep_count p > 2147483647)
     then fail_with InvalidConfiguration
     else Success)"

section \<open>Handshake headers\<close>

definition lower_ascii :: "char \<Rightarrow> char" where
  "lower_ascii c = (let n = of_char c :: nat in if 65 \<le> n \<and> n \<le> 90 then char_of (n + (97 - 65)) else c)"

fun client_name_equals :: "string \<Rightarrow> string \<Rightarrow> bool" where
  "client_name_equals [] [] = True"
| "client_name_equals (a # as) (b # bs) = (lower_ascii a = lower_ascii b \<and> client_name_equals as bs)"
| "client_name_equals as bs = False"

definition is_reserved_handshake_header :: "string \<Rightarrow> bool" where
  "is_reserved_handshake_header name \<longleftrightarrow>
     client_name_equals name ''Host'' \<or> client_name_equals name ''Connection'' \<or>
     client_name_equals name ''Upgrade'' \<or> client_name_equals name ''Sec-WebSocket-Key'' \<or>
     client_name_equals name ''Sec-WebSocket-Version'' \<or> client_name_equals name ''Sec-WebSocket-Protocol''"

definition header_is_safe :: "string \<times> string \<Rightarrow> bool" where
  "header_is_safe h \<longleftrightarrow> fst h \<noteq> [] \<and> \<not> is_reserved_handshake_header (fst h) \<and>
     list_all (\<lambda>c. 32 < (of_char c :: nat) \<and> (of_char c :: nat) < 127 \<and> c \<noteq> CHR '':'') (fst h) \<and>
     CHR 0x0D \<notin> set (snd h) \<and> CHR 0x0A \<notin> set (snd h)"

definition max_handshake_headers :: nat where "max_handshake_headers = 64"

text \<open>The loop from \<open>index\<close>, with the number of headers still to come.\<close>

fun append_headers ::
    "(nat \<Rightarrow> (string \<times> string) option) \<Rightarrow> nat \<Rightarrow> nat \<Rightarrow> nat \<Rightarrow> string \<Rightarrow> web_result \<times> string" where
  "append_headers source limit index 0 text = (Success, text)"
| "append_headers source limit index (Suc n) text = (case source index of
       None \<Rightarrow> (fail_with InvalidConfiguration, text)
     | Some h \<Rightarrow>
         if \<not> header_is_safe h then (fail_with InvalidConfiguration, text)
         else
           let line_bytes = length (fst h) + length (snd h) + 4
           in if line_bytes > limit \<or> length text > limit - line_bytes
              then (fail_with ResourceExhausted, text)
              else append_headers source limit (Suc index) n (text @ header_line h))"

definition build_native_headers :: "client_config \<Rightarrow> web_result \<times> string" where
  "build_native_headers cfg = (case cc_headers cfg of
       None \<Rightarrow> (Success, [])
     | Some (n, source) \<Rightarrow>
         if n > max_handshake_headers then (fail_with ResourceExhausted, [])
         else append_headers source (cp_max_header_bytes (cc_policy cfg)) 0 n [])"

section \<open>State\<close>

record ws_client =
  cl_client :: "nat option"
  cl_sink :: bool
  cl_connection :: "(u32 \<times> bool) option"
  cl_connected :: bool
  cl_disconnecting :: bool
  cl_notified :: bool
  cl_event_task :: "nat option"
  cl_send_ticks :: u32
  cl_ca :: credential
  cl_certificate :: credential
  cl_key :: credential
  cl_incoming :: bytes
  cl_opcode :: u8
  cl_requested_code :: u16
  cl_requested_reason :: bytes
  cl_peer_code :: u16
  cl_peer_reason :: bytes

definition fresh_ws_client :: "u32 \<Rightarrow> ws_client" where
  "fresh_ws_client ticks = \<lparr>cl_client = None, cl_sink = False, cl_connection = None, cl_connected = False,
     cl_disconnecting = False, cl_notified = True, cl_event_task = None, cl_send_ticks = ticks,
     cl_ca = cleared, cl_certificate = cleared, cl_key = cleared, cl_incoming = [], cl_opcode = 0,
     cl_requested_code = 1000, cl_requested_reason = [], cl_peer_code = 1000, cl_peer_reason = []\<rparr>"

definition clear_credentials :: "ws_client \<Rightarrow> ws_client" where
  "clear_credentials s = s\<lparr>cl_ca := cleared, cl_certificate := cleared, cl_key := cleared\<rparr>"

definition set_open :: "bool \<Rightarrow> ws_client \<Rightarrow> ws_client" where
  "set_open x s = s\<lparr>cl_connection := map_option (\<lambda>(i, _). (i, x)) (cl_connection s)\<rparr>"

definition prepare_credentials :: "client_config \<Rightarrow> ws_client \<Rightarrow> web_result \<times> ws_client" where
  "prepare_credentials cfg s0 =
     (let s = clear_credentials s0; tls = cc_tls cfg
      in if \<not> cc_tls_transport cfg then
           (if \<not> cv_empty (ct_ca tls) \<or> \<not> cv_empty (ct_certificate tls) \<or> \<not> cv_empty (ct_key tls)
            then (fail_with InvalidConfiguration, s) else (Success, s))
      else if ct_validate tls \<noteq> Success then (ct_validate tls, s)
      else
        let (r1, s1) = (if ct_trust tls = CertificateAuthority
              then (let (r, c) = assign_credential (ct_ca tls) in (r, s\<lparr>cl_ca := c\<rparr>)) else (Success, s))
        in if r1 \<noteq> Success then (r1, s1)
        else
          let (r2, c2) = assign_credential (ct_certificate tls); s2 = s1\<lparr>cl_certificate := c2\<rparr>
          in if r2 \<noteq> Success then (r2, clear_credentials s2)
          else
            let (r3, c3) = assign_credential (ct_key tls); s3 = s2\<lparr>cl_key := c3\<rparr>
            in if r3 \<noteq> Success then (r3, clear_credentials s3) else (Success, s3))"

text \<open>What the native client is given.\<close>

record native_client_config =
  nw_host :: string
  nw_port :: u16
  nw_path :: string
  nw_subprotocol :: "string option"
  nw_headers :: "string option"
  nw_tls :: bool
  nw_disable_reconnect :: bool
  nw_ping_seconds :: u32
  nw_pong_seconds :: u32
  nw_keep_alive :: "(u32 \<times> u32 \<times> u32) option"
  nw_global_ca :: bool
  nw_certificate :: "bytes option \<times> nat"
  nw_client_certificate :: "(bytes option \<times> nat) option"
  nw_client_key :: "(bytes option \<times> nat) option"

datatype client_call =
    CallInit native_client_config
  | CallRegisterEvents nat
  | CallClientStart nat
  | CallClose nat u16 bytes u32
  | CallClientStop nat
  | CallDestroy nat
  | CallSendBinary nat bytes u32
  | CallSendText nat bytes u32

record connect_env =
  ce_mbedtls :: bool
  ce_ca_store :: bool
  ce_init :: "nat option"
  ce_register :: esp_err
  ce_start :: esp_err
  ce_ticks :: "u32 \<Rightarrow> u32"

definition native_config_for :: "client_config \<Rightarrow> string \<Rightarrow> ws_client \<Rightarrow> native_client_config" where
  "native_config_for cfg headers s = (let p = cc_policy cfg; tls = cc_tls_transport cfg in
     \<lparr>nw_host = c_string (cc_host cfg), nw_port = cc_port cfg, nw_path = c_string (cc_path cfg),
      nw_subprotocol = (if cc_protocol cfg = [] then None else Some (c_string (cc_protocol cfg))),
      nw_headers = (if headers = [] then None else Some (c_string headers)),
      nw_tls = tls, nw_disable_reconnect = (\<not> cp_reconnect p),
      nw_ping_seconds = cp_ping p div 1000, nw_pong_seconds = cp_pong p div 1000,
      nw_keep_alive = (if cp_keep_alive p then Some (cp_keep_idle p, cp_keep_interval p, cp_keep_count p) else None),
      nw_global_ca = (tls \<and> ct_trust (cc_tls cfg) = PlatformTrust),
      nw_certificate = (if tls \<and> ct_trust (cc_tls cfg) \<noteq> PlatformTrust
        then (native_data (cl_ca s), native_length (cl_ca s)) else (None, 0)),
      nw_client_certificate = (if tls \<and> cr_bytes (cl_certificate s) \<noteq> []
        then Some (native_data (cl_certificate s), native_length (cl_certificate s)) else None),
      nw_client_key = (if tls \<and> cr_bytes (cl_certificate s) \<noteq> []
        then Some (native_data (cl_key s), native_length (cl_key s)) else None)\<rparr>)"

text \<open>\<open>NextConnectionId\<close>: the identity taken and the counter left; the counter is shared by all clients.\<close>

definition next_connection_id :: "u32 \<Rightarrow> u32 \<times> u32" where
  "next_connection_id counter =
     (if counter = 0 then (counter + 1, counter + 1 + 1) else (counter, counter + 1))"

definition milliseconds_to_ticks :: "(u32 \<Rightarrow> u32) \<Rightarrow> u32 \<Rightarrow> u32" where
  "milliseconds_to_ticks native ms = (let t = native ms in if ms \<noteq> 0 \<and> t = 0 then 1 else t)"

text \<open>The state Connect leaves before it starts the native client.\<close>

definition installed :: "(u32 \<Rightarrow> u32) \<Rightarrow> client_config \<Rightarrow> nat \<Rightarrow> u32 \<Rightarrow> ws_client \<Rightarrow> ws_client" where
  "installed ticks cfg h i s = s\<lparr>cl_client := Some h, cl_connection := Some (i, False),
     cl_connected := False, cl_notified := True, cl_event_task := None, cl_incoming := [], cl_opcode := 0,
     cl_requested_code := 1000, cl_requested_reason := [], cl_peer_code := 1000, cl_peer_reason := [],
     cl_send_ticks := milliseconds_to_ticks ticks (cp_timeout (cc_policy cfg))\<rparr>"

definition client_connect ::
    "connect_env \<Rightarrow> u32 \<Rightarrow> client_config \<Rightarrow> ws_client \<Rightarrow> web_result \<times> ws_client \<times> client_call list \<times> u32" where
  "client_connect env counter cfg s =
     (if cl_client s \<noteq> None \<or> cl_disconnecting s then (fail_with InvalidState, s, [], counter)
      else if validate_native_policy cfg \<noteq> Success then (validate_native_policy cfg, s, [], counter)
      else
        let (r, s1) = prepare_credentials cfg s
        in if r \<noteq> Success then (r, s1, [], counter)
        else
          let (rh, headers) = build_native_headers cfg
          in if rh \<noteq> Success then (rh, clear_credentials s1, [], counter)
          else if cc_tls_transport cfg \<and> ct_trust (cc_tls cfg) = PlatformTrust \<and>
                  (\<not> ce_mbedtls env \<or> \<not> ce_ca_store env)
          then (fail_with Unsupported, clear_credentials s1, [], counter)
          else
            let init = CallInit (native_config_for cfg headers s1)
            in (case ce_init env of
                None \<Rightarrow> (fail_with PlatformFailure, clear_credentials s1, [init], counter)
              | Some h \<Rightarrow>
                  if ce_register env \<noteq> ESP_OK
                  then (websocket_client_result (ce_register env), clear_credentials s1,
                    [init, CallRegisterEvents h, CallDestroy h], counter)
                  else
                    let (i, counter1) = next_connection_id counter; s2 = installed (ce_ticks env) cfg h i s1
                    in if ce_start env \<noteq> ESP_OK
                       then (websocket_client_result (ce_start env),
                         clear_credentials (s2\<lparr>cl_client := None, cl_connection := None\<rparr>),
                         [init, CallRegisterEvents h, CallClientStart h, CallDestroy h], counter1)
                       else (Success, s2, [init, CallRegisterEvents h, CallClientStart h], counter1)))"

section \<open>Disconnect\<close>

definition disconnect_enter ::
    "nat \<Rightarrow> u16 \<Rightarrow> bytes \<Rightarrow> ws_client \<Rightarrow> (web_result + nat \<times> bool) \<times> ws_client" where
  "disconnect_enter task code reason s = (case cl_client s of
       None \<Rightarrow> (Inl Success, s)
     | Some h \<Rightarrow>
         if cl_disconnecting s then (Inl (fail_with InvalidState), s)
         else if cl_event_task s = Some task then (Inl (fail_with InvalidState), s)
         else (Inr (h, cl_connected s),
               s\<lparr>cl_disconnecting := True, cl_requested_code := code, cl_requested_reason := reason\<rparr>))"

datatype client_event =
    ToldConnected u32
  | ToldDisconnected u16 bytes
  | ToldText u32 bytes
  | ToldBinary u32 bytes

definition disconnect_exit ::
    "nat \<Rightarrow> bool \<Rightarrow> u16 \<Rightarrow> ws_client \<Rightarrow> ws_client \<times> client_event list" where
  "disconnect_exit h was_connected code s =
     (let s1 = clear_credentials (set_open False (s\<lparr>cl_client := (if cl_client s = Some h then None else cl_client s),
              cl_connected := False, cl_event_task := None, cl_incoming := [], cl_opcode := 0\<rparr>))
              \<lparr>cl_disconnecting := False\<rparr>
      in if was_connected \<and> \<not> cl_notified s1
         then (s1\<lparr>cl_notified := True\<rparr>,
               if cl_sink s1 then [ToldDisconnected code (cl_requested_reason s1)] else [])
         else (s1, []))"

definition disconnect_calls :: "nat \<Rightarrow> bool \<Rightarrow> u16 \<Rightarrow> bytes \<Rightarrow> u32 \<Rightarrow> client_call list" where
  "disconnect_calls h native_connected code reason ticks =
     [if native_connected then CallClose h code (take (min (length reason) 123) reason) ticks
      else CallClientStop h, CallDestroy h]"

definition disconnect_result :: "bool \<Rightarrow> esp_err \<Rightarrow> esp_err \<Rightarrow> web_result" where
  "disconnect_result was_connected stopped destroyed =
     (if destroyed \<noteq> ESP_OK then websocket_client_result destroyed
      else if stopped \<noteq> ESP_OK \<and> was_connected then websocket_client_result stopped
      else Success)"

text \<open>Disconnect with nothing in between: what the native client says of itself and answers.\<close>

definition client_disconnect ::
    "nat \<Rightarrow> bool \<Rightarrow> esp_err \<Rightarrow> esp_err \<Rightarrow> u16 \<Rightarrow> bytes \<Rightarrow> ws_client
      \<Rightarrow> web_result \<times> ws_client \<times> client_call list \<times> client_event list" where
  "client_disconnect task native_connected stopped destroyed code reason s =
     (case disconnect_enter task code reason s of
       (Inl r, s1) \<Rightarrow> (r, s1, [], [])
     | (Inr (h, was), s1) \<Rightarrow>
         let (s2, told) = disconnect_exit h was code s1
         in (disconnect_result was stopped destroyed, s2,
             disconnect_calls h native_connected code reason (cl_send_ticks s1), told))"

definition reset_end :: "ws_client \<Rightarrow> ws_client" where
  "reset_end s = clear_credentials (s\<lparr>cl_sink := False, cl_connection := None\<rparr>)"

definition client_set_sink :: "bool \<Rightarrow> ws_client \<Rightarrow> ws_client" where
  "client_set_sink x s = s\<lparr>cl_sink := x\<rparr>"

definition client_close_connection ::
    "u32 \<Rightarrow> nat \<Rightarrow> bool \<Rightarrow> esp_err \<Rightarrow> esp_err \<Rightarrow> u16 \<Rightarrow> bytes \<Rightarrow> ws_client
      \<Rightarrow> web_result \<times> ws_client \<times> client_call list \<times> client_event list" where
  "client_close_connection i task native_connected stopped destroyed code reason s =
     (if map_option fst (cl_connection s) \<noteq> Some i then (fail_with Closed, s, [], [])
      else client_disconnect task native_connected stopped destroyed code reason s)"

section \<open>Sending\<close>

text \<open>\<open>sent\<close> is what the native send returns. The connection asks with its own identity.\<close>

definition may_send :: "u32 \<Rightarrow> ws_client \<Rightarrow> nat option" where
  "may_send i s =
     (if \<not> cl_connected s \<or> map_option fst (cl_connection s) \<noteq> Some i then None else cl_client s)"

definition client_send_binary ::
    "int \<Rightarrow> u32 \<Rightarrow> bytes option \<Rightarrow> nat \<Rightarrow> ws_client \<Rightarrow> (web_result \<times> client_call list) option" where
  "client_send_binary sent i data n s =
     (if data = None \<or> n = 0 \<or> n > 2147483647 then Some (fail_with InvalidConfiguration, [])
      else (case may_send i s of
          None \<Rightarrow> Some (fail_with Closed, [])
        | Some h \<Rightarrow> do {
            payload \<leftarrow> slice (the data) 0 n;
            Some (if sent = int n then Success else Failure ConnectionFailure (Some (NativeInt sent)),
              [CallSendBinary h payload (cl_send_ticks s)])
          }))"

definition client_send_text :: "int \<Rightarrow> u32 \<Rightarrow> bytes \<Rightarrow> ws_client \<Rightarrow> web_result \<times> client_call list" where
  "client_send_text sent i text s =
     (if text = [] then (fail_with Unsupported, [])
      else if length text > 2147483647 then (fail_with InvalidConfiguration, [])
      else (case may_send i s of
          None \<Rightarrow> (fail_with Closed, [])
        | Some h \<Rightarrow> (if sent = int (length text) then Success else Failure ConnectionFailure (Some (NativeInt sent)),
            [CallSendText h text (cl_send_ticks s)])))"

section \<open>Events of the native client\<close>

definition handle_connected :: "ws_client \<Rightarrow> ws_client \<times> client_event list" where
  "handle_connected s = (case cl_connection s of
       None \<Rightarrow> (s, [])
     | Some (i, x) \<Rightarrow>
         if cl_client s = None then (s, [])
         else (s\<lparr>cl_connected := True, cl_notified := False, cl_connection := Some (i, True),
                 cl_peer_code := 1000, cl_peer_reason := []\<rparr>,
               if cl_sink s then [ToldConnected i] else []))"

definition lost_reason :: bytes where
  "lost_reason = map of_char ''connection lost''"

definition handle_disconnected :: "bool \<Rightarrow> ws_client \<Rightarrow> ws_client \<times> client_event list" where
  "handle_disconnected clean s =
     (let s1 = set_open False (s\<lparr>cl_connected := False\<rparr>)
      in if cl_notified s1 then (s1, [])
      else
        let (code, reason) =
          (if clean then
             (if cl_peer_reason s1 \<noteq> [] \<or> cl_peer_code s1 \<noteq> 1000 then (cl_peer_code s1, cl_peer_reason s1)
              else (cl_requested_code s1, cl_requested_reason s1))
           else (1006, lost_reason))
        in (s1\<lparr>cl_notified := True\<rparr>, if cl_sink s1 then [ToldDisconnected code reason] else []))"

definition client_remember_peer_close :: "bytes \<Rightarrow> ws_client \<Rightarrow> ws_client option" where
  "client_remember_peer_close payload s = do {
     code \<leftarrow> (if length payload \<ge> 2 then read_network_u16 payload else Some 1000);
     Some (s\<lparr>cl_peer_code := code, cl_peer_reason := (if length payload > 2 then drop 2 payload else [])\<rparr>)
   }"

definition dispatch_payload :: "u8 \<Rightarrow> bytes \<Rightarrow> ws_client \<Rightarrow> client_event list" where
  "dispatch_payload opcode payload s = (case cl_connection s of
       None \<Rightarrow> []
     | Some (i, x) \<Rightarrow>
         if \<not> cl_connected s \<or> \<not> cl_sink s then []
         else if opcode = 1 then [ToldText i payload] else [ToldBinary i payload])"

text \<open>A data event: a piece of a frame. \<open>de_data\<close> is the memory behind the pointer, \<open>None\<close> for null.\<close>

record data_event =
  de_payload_len :: int
  de_offset :: int
  de_len :: int
  de_opcode :: u8
  de_data :: "bytes option"

definition client_max_message :: nat where "client_max_message = 65536"

definition data_bytes :: "data_event \<Rightarrow> bytes option" where
  "data_bytes e = (if de_len e = 0 then Some [] else
     (case de_data e of None \<Rightarrow> None | Some d \<Rightarrow> slice d 0 (nat (de_len e))))"

definition deliver_frame :: "u8 \<Rightarrow> bytes \<Rightarrow> ws_client \<Rightarrow> (ws_client \<times> client_event list) option" where
  "deliver_frame opcode payload s =
     (if opcode = 8 then map_option (\<lambda>s1. (s1, [])) (client_remember_peer_close payload s)
      else if opcode = 1 \<or> opcode = 2 then Some (s, dispatch_payload opcode payload s)
      else Some (s, []))"

definition handle_data :: "data_event \<Rightarrow> ws_client \<Rightarrow> (ws_client \<times> client_event list) option" where
  "handle_data e s =
     (if de_payload_len e < 0 \<or> de_offset e < 0 \<or> de_len e < 0 then Some (s, [])
      else
        let len = nat (de_payload_len e); offset = nat (de_offset e); n = nat (de_len e)
        in if len > client_max_message \<or> offset > len \<or> n > len - offset then Some (s, [])
        else if de_opcode e = 9 \<or> de_opcode e = 10 then Some (s, [])
        else if de_opcode e = 0 then Some (s, [])
        else if offset = 0 \<and> n = len then
          (if de_opcode e = 8 \<or> de_opcode e = 1 \<or> de_opcode e = 2
           then do {
             payload \<leftarrow> (if de_opcode e = 8 \<and> de_data e = None then Some [] else data_bytes e);
             deliver_frame (de_opcode e) payload s
           }
           else Some (s, []))
        else
          let s1 = (if offset = 0
                then s\<lparr>cl_incoming := replicate len 0, cl_opcode := de_opcode e\<rparr> else s)
          in if length (cl_incoming s1) \<noteq> len \<or> cl_opcode s1 \<noteq> de_opcode e \<or> (n \<noteq> 0 \<and> de_data e = None)
             then Some (s1\<lparr>cl_incoming := [], cl_opcode := 0\<rparr>, [])
             else do {
               piece \<leftarrow> data_bytes e;
               buf \<leftarrow> blit (cl_incoming s1) offset piece;
               if offset + n = len
               then deliver_frame (cl_opcode s1) buf (s1\<lparr>cl_incoming := [], cl_opcode := 0\<rparr>)
               else Some (s1\<lparr>cl_incoming := buf\<rparr>, [])
             })"

datatype native_event = NvConnected | NvDisconnected | NvClosed | NvData "data_event option" | NvError

definition handle_native_event ::
    "nat \<Rightarrow> native_event \<Rightarrow> ws_client \<Rightarrow> (ws_client \<times> client_event list) option" where
  "handle_native_event task ev s0 =
     (let s = (if cl_event_task s0 = None then s0\<lparr>cl_event_task := Some task\<rparr> else s0)
      in case ev of
        NvConnected \<Rightarrow> Some (handle_connected s)
      | NvDisconnected \<Rightarrow> Some (handle_disconnected False s)
      | NvClosed \<Rightarrow> Some (handle_disconnected True s)
      | NvData e \<Rightarrow> (case e of None \<Rightarrow> Some (s, []) | Some d \<Rightarrow> handle_data d s)
      | NvError \<Rightarrow> Some (s, []))"

section \<open>Pieces of a frame\<close>

fun piece_events :: "u8 \<Rightarrow> nat \<Rightarrow> nat \<Rightarrow> bytes list \<Rightarrow> data_event list" where
  "piece_events opcode len offset [] = []"
| "piece_events opcode len offset (p # ps) =
     \<lparr>de_payload_len = int len, de_offset = int offset, de_len = int (length p), de_opcode = opcode,
      de_data = Some p\<rparr> # piece_events opcode len (offset + length p) ps"

fun run_data :: "data_event list \<Rightarrow> ws_client \<Rightarrow> (ws_client \<times> client_event list) option" where
  "run_data [] s = Some (s, [])"
| "run_data (e # es) s = do {
     (s1, told) \<leftarrow> handle_data e s;
     (s2, told') \<leftarrow> run_data es s1;
     Some (s2, told @ told')
   }"

definition receives :: "u8 \<Rightarrow> u32 \<Rightarrow> bytes \<Rightarrow> client_event" where
  "receives opcode i payload = (if opcode = 1 then ToldText i payload else ToldBinary i payload)"

definition listening :: "u32 \<Rightarrow> ws_client \<Rightarrow> bool" where
  "listening i s \<longleftrightarrow> cl_connected s \<and> cl_sink s \<and> map_option fst (cl_connection s) = Some i"

lemma dispatch_listening:
  "listening i s \<Longrightarrow> dispatch_payload opcode payload s = [receives opcode i payload]"
  by (auto simp: listening_def dispatch_payload_def receives_def split: option.splits)

lemma listening_incoming [simp]: "listening i (s\<lparr>cl_incoming := x, cl_opcode := y\<rparr>) = listening i s"
  "listening i (s\<lparr>cl_incoming := x\<rparr>) = listening i s"
  by (simp_all add: listening_def)

text \<open>A piece that does not hold the whole frame, put into the buffer at its offset.\<close>

definition buffered :: "u8 \<Rightarrow> bytes \<Rightarrow> nat \<Rightarrow> ws_client \<Rightarrow> bool" where
  "buffered opcode payload offset s \<longleftrightarrow> cl_opcode s = opcode \<and>
     length (cl_incoming s) = length payload \<and> take offset (cl_incoming s) = take offset payload"

lemma handle_piece:
  assumes op: "opcode = 1 \<or> opcode = 2" and len: "length payload \<le> client_max_message"
    and part: "offset + length p \<le> length payload" "length p < length payload"
    and p: "take (length p) (drop offset payload) = p"
    and buf: "offset = 0 \<or> buffered opcode payload offset s"
    and e: "e = \<lparr>de_payload_len = int (length payload), de_offset = int offset, de_len = int (length p),
      de_opcode = opcode, de_data = Some p\<rparr>"
    and i: "listening i s"
  obtains s' where "listening i s'" "cl_event_task s' = cl_event_task s"
    "if offset + length p = length payload
     then handle_data e s = Some (s', [receives opcode i payload])
     else handle_data e s = Some (s', []) \<and> buffered opcode payload (offset + length p) s'"
proof -
  define s1 where "s1 = (if offset = 0
      then s\<lparr>cl_incoming := replicate (length payload) 0, cl_opcode := opcode\<rparr> else s)"
  have s1: "length (cl_incoming s1) = length payload" "cl_opcode s1 = opcode" "listening i s1"
    "take offset (cl_incoming s1) = take offset payload" "cl_event_task s1 = cl_event_task s"
    using buf i by (auto simp: s1_def buffered_def)
  define b where "b = take offset payload @ p @ drop (offset + length p) (cl_incoming s1)"
  have data: "data_bytes e = Some p" by (auto simp: data_bytes_def e)
  have blit: "blit (cl_incoming s1) offset p = Some b"
    using s1 part by (simp add: b_def)
  have opc: "opcode \<noteq> 0" "opcode \<noteq> 8" "opcode \<noteq> 9" "opcode \<noteq> 10" using op by auto
  have h: "handle_data e s = (if offset + length p = length payload
      then deliver_frame opcode b (s1\<lparr>cl_incoming := [], cl_opcode := 0\<rparr>)
      else Some (s1\<lparr>cl_incoming := b\<rparr>, []))"
  proof (cases "offset = 0")
    case True
    then have "s1 = s\<lparr>cl_incoming := replicate (length payload) 0, cl_opcode := opcode\<rparr>" by (simp add: s1_def)
    then show ?thesis using True opc len part s1 data blit by (simp add: handle_data_def Let_def e)
  next
    case False
    then have "s1 = s" by (simp add: s1_def)
    moreover have "\<not> length payload - offset < length p" using part by simp
    ultimately show ?thesis using False opc len part s1 data blit
      by (simp add: handle_data_def Let_def e del: blit_Some)
  qed
  show ?thesis
  proof (cases "offset + length p = length payload")
    case True
    then have "b = payload" using p s1(1) append_take_drop_id [of offset payload] by (simp add: b_def)
    then show ?thesis
      using True h op s1 that [of "s1\<lparr>cl_incoming := [], cl_opcode := 0\<rparr>"]
      by (auto simp: deliver_frame_def dispatch_listening)
  next
    case False
    have "take (offset + length p) payload = take offset payload @ p"
      using p by (simp add: take_add)
    then have "buffered opcode payload (offset + length p) (s1\<lparr>cl_incoming := b\<rparr>)"
      using s1 part by (simp add: buffered_def b_def)
    then show ?thesis using False h s1 that [of "s1\<lparr>cl_incoming := b\<rparr>"] by auto
  qed
qed

lemma run_pieces:
  "opcode = 1 \<or> opcode = 2 \<Longrightarrow> length payload \<le> client_max_message \<Longrightarrow> listening i s \<Longrightarrow>
   ps \<noteq> [] \<Longrightarrow> [] \<notin> set ps \<Longrightarrow> offset \<le> length payload \<Longrightarrow> drop offset payload = concat ps \<Longrightarrow>
   offset = 0 \<and> length ps \<noteq> 1 \<or> 0 < offset \<and> buffered opcode payload offset s \<Longrightarrow>
   \<exists>s'. run_data (piece_events opcode (length payload) offset ps) s = Some (s', [receives opcode i payload]) \<and>
     listening i s'"
proof (induction ps arbitrary: offset s)
  case (Cons p ps)
  have d: "drop offset payload = p @ concat ps" using Cons.prems(7) by simp
  then have part: "offset + length p + length (concat ps) = length payload"
    using Cons.prems(6) length_drop [of offset payload] by (simp add: d)
  have ne: "p \<noteq> []" "ps \<noteq> [] \<Longrightarrow> concat ps \<noteq> []" using Cons.prems(5) by (auto, cases ps, auto)
  have lt: "length p < length payload"
  proof (cases "offset = 0")
    case True
    then have "concat ps \<noteq> []" using Cons.prems(8) ne(2) by auto
    then obtain a l where "concat ps = a # l" by (meson neq_Nil_conv)
    then show ?thesis using part by simp
  qed (use part in simp)
  have pp: "take (length p) (drop offset payload) = p" using d by simp
  define e where "e = \<lparr>de_payload_len = int (length payload), de_offset = int offset, de_len = int (length p),
      de_opcode = opcode, de_data = Some p\<rparr>"
  have "offset + length p \<le> length payload" "offset = 0 \<or> buffered opcode payload offset s"
    using part Cons.prems(8) by auto
  from handle_piece [OF Cons.prems(1,2) this(1) lt pp this(2) e_def Cons.prems(3)]
  obtain s1 where s1: "listening i s1"
    "if offset + length p = length payload
     then handle_data e s = Some (s1, [receives opcode i payload])
     else handle_data e s = Some (s1, []) \<and> buffered opcode payload (offset + length p) s1"
    by metis
  show ?case
  proof (cases "ps = []")
    case True
    then show ?thesis using s1 part by (simp flip: e_def)
  next
    case False
    then have "offset + length p \<noteq> length payload" using part ne(2) by auto
    then have e1: "handle_data e s = Some (s1, [])" "buffered opcode payload (offset + length p) s1"
      using s1(2) by simp_all
    have nn: "[] \<notin> set ps" "offset + length p \<le> length payload" "0 < offset + length p"
      using Cons.prems(5) part ne(1) by auto
    have dr: "drop (offset + length p) payload = concat ps"
      using d by (metis append_eq_conv_conj add.commute drop_drop)
    obtain s2 where "run_data (piece_events opcode (length payload) (offset + length p) ps) s1 =
        Some (s2, [receives opcode i payload])" "listening i s2"
      using Cons.IH [OF Cons.prems(1,2) s1(1) False nn(1,2) dr disjI2 [OF conjI [OF nn(3) e1(2)]]] by blast
    then show ?thesis using e1(1) by (simp flip: e_def)
  qed
qed simp

lemma handle_whole:
  assumes "opcode = 1 \<or> opcode = 2" "length p \<le> client_max_message" "listening i s"
  shows "run_data (piece_events opcode (length p) 0 [p]) s = Some (s, [receives opcode i p])"
proof -
  have "opcode \<noteq> 0" "opcode \<noteq> 8" "opcode \<noteq> 9" "opcode \<noteq> 10" using assms(1) by auto
  then show ?thesis
    using assms by (auto simp: handle_data_def data_bytes_def deliver_frame_def dispatch_listening Let_def)
qed

section \<open>Handshake headers\<close>

lemma lower_ascii_to_lower: "lower_ascii = to_lower"
  by (simp add: fun_eq_iff lower_ascii_def to_lower_def Let_def)

lemma client_name_equals_eq: "client_name_equals a b = header_name_equals a b"
  by (induction a b rule: client_name_equals.induct)
    (auto simp: header_name_equals_iff lower_ascii_to_lower)

lemma append_headers_success:
  "append_headers source limit index n text = (Success, out) \<longleftrightarrow>
     (\<exists>hs. map source [index..<index + n] = map Some hs \<and> list_all header_is_safe hs \<and>
        out = text @ concat (map header_line hs) \<and> (n = 0 \<or> length out \<le> limit))"
proof (induction source limit index n "text" arbitrary: out rule: append_headers.induct)
  case (2 source limit index n pre)
  let ?range = "[index..<index + Suc n]"
  have range: "?range = index # [Suc index..<Suc index + n]" by (simp add: upt_rec)
  show ?case
  proof (cases "source index")
    case None
    then show ?thesis unfolding range by (auto simp: map_eq_Cons_conv)
  next
    case (Some h)
    let ?line = "length (fst h) + length (snd h) + 4"
    have split: "(\<exists>hs. map source ?range = map Some hs \<and> Q hs) \<longleftrightarrow>
        (\<exists>hs. map source [Suc index..<Suc index + n] = map Some hs \<and> Q (h # hs))" for Q
    proof
      assume "\<exists>hs. map source ?range = map Some hs \<and> Q hs"
      then obtain hs where hs: "map source ?range = map Some hs" "Q hs" by blast
      then obtain hs' where "hs = h # hs'" using Some unfolding range by (cases hs) auto
      then show "\<exists>hs. map source [Suc index..<Suc index + n] = map Some hs \<and> Q (h # hs)"
        using hs unfolding range by auto
    next
      assume "\<exists>hs. map source [Suc index..<Suc index + n] = map Some hs \<and> Q (h # hs)"
      then obtain hs where hs: "map source [Suc index..<Suc index + n] = map Some hs" "Q (h # hs)" by blast
      have "map source ?range = map Some (h # hs)" using hs(1) Some unfolding range by simp
      then show "\<exists>hs. map source ?range = map Some hs \<and> Q hs" using hs(2) by blast
    qed
    have line: "length (header_line h) = ?line" by (simp add: header_line_def crlf_def)
    show ?thesis
    proof (cases "header_is_safe h \<and> ?line \<le> limit \<and> length pre \<le> limit - ?line")
      case False
      have "append_headers source limit index (Suc n) pre \<noteq> (Success, out)" using False Some by auto
      moreover have "limit < length pre + (length (header_line h) + k)" if "header_is_safe h" for k
        using False that line by auto
      ultimately show ?thesis unfolding split by (auto simp: not_le)
    next
      case True
      have fits: "length (pre @ header_line h) \<le> limit" using True line by auto
      have "append_headers source limit index (Suc n) pre = (Success, out) \<longleftrightarrow>
          (\<exists>hs. map source [Suc index..<Suc index + n] = map Some hs \<and> list_all header_is_safe hs \<and>
            out = (pre @ header_line h) @ concat (map header_line hs) \<and> (n = 0 \<or> length out \<le> limit))"
        using "2.IH" [OF Some _ refl, of out] True Some by simp
      moreover have "map source [Suc index..<Suc index + 0] = map Some hs \<Longrightarrow> hs = []" for hs by simp
      ultimately show ?thesis using True fits unfolding split by (cases n) auto
    qed
  qed
qed (simp add: eq_commute)

section \<open>Histories\<close>

record client_world =
  cw_client :: ws_client
  cw_counter :: u32
  cw_pending :: "(nat \<times> bool \<times> u16) option"
  cw_told :: "client_event list"

datatype client_op =
    OpConnect connect_env client_config
  | OpEnter nat u16 bytes
  | OpExit
  | OpEvent nat native_event
  | OpResetEnd

text \<open>
  Steps of a history: Connect, the two sections of Disconnect, the events of the native client,
  which come from its own task while it exists, and the end of Reset. Sends do not change the state.
\<close>

fun client_step :: "client_op \<Rightarrow> client_world \<Rightarrow> client_world option" where
  "client_step (OpConnect env cfg) w =
     (case client_connect env (cw_counter w) cfg (cw_client w) of (r, s, calls, counter) \<Rightarrow>
        Some (w\<lparr>cw_client := s, cw_counter := counter\<rparr>))"
| "client_step (OpEnter task code reason) w =
     (case disconnect_enter task code reason (cw_client w) of
        (Inl r, s) \<Rightarrow> Some (w\<lparr>cw_client := s\<rparr>)
      | (Inr (h, was), s) \<Rightarrow> Some (w\<lparr>cw_client := s, cw_pending := Some (h, was, code)\<rparr>))"
| "client_step OpExit w = (case cw_pending w of
        None \<Rightarrow> None
      | Some (h, was, code) \<Rightarrow> (case disconnect_exit h was code (cw_client w) of (s, told) \<Rightarrow>
          Some (w\<lparr>cw_client := s, cw_pending := None, cw_told := cw_told w @ told\<rparr>)))"
| "client_step (OpEvent task ev) w =
     (if cl_client (cw_client w) = None then None
      else (case handle_native_event task ev (cw_client w) of
          None \<Rightarrow> None
        | Some (s, told) \<Rightarrow> Some (w\<lparr>cw_client := s, cw_told := cw_told w @ told\<rparr>)))"
| "client_step OpResetEnd w = Some (w\<lparr>cw_client := reset_end (cw_client w)\<rparr>)"

text \<open>\<open>quiet\<close>: no connection is made while a Disconnect is between its sections.\<close>

inductive client_reach :: "bool \<Rightarrow> client_world \<Rightarrow> bool" for quiet where
  start: "client_reach quiet \<lparr>cw_client = (fresh_ws_client ticks)\<lparr>cl_sink := True\<rparr>, cw_counter = n,
    cw_pending = None, cw_told = []\<rparr>"
| step: "client_reach quiet w \<Longrightarrow> client_step p w = Some w' \<Longrightarrow>
    (quiet \<longrightarrow> cw_pending w \<noteq> None \<longrightarrow> (\<forall>task. p \<noteq> OpEvent task NvConnected)) \<Longrightarrow> client_reach quiet w'"

text \<open>
  The history the sink may see: \<open>up\<close> says whether it was last told of a connection. The end of one
  is told only while it is up, and so are messages.
\<close>

fun client_monitor :: "bool \<Rightarrow> client_event list \<Rightarrow> bool option" where
  "client_monitor up [] = Some up"
| "client_monitor up (ToldConnected i # es) = client_monitor True es"
| "client_monitor up (ToldDisconnected code reason # es) = (if up then client_monitor False es else None)"
| "client_monitor up (ToldText i p # es) = (if up then client_monitor up es else None)"
| "client_monitor up (ToldBinary i p # es) = (if up then client_monitor up es else None)"

lemma client_monitor_append:
  "client_monitor up (xs @ ys) = (case client_monitor up xs of None \<Rightarrow> None | Some u \<Rightarrow> client_monitor u ys)"
  by (induction up xs rule: client_monitor.induct) auto

definition no_credentials :: "ws_client \<Rightarrow> bool" where
  "no_credentials s \<longleftrightarrow> cl_ca s = cleared \<and> cl_certificate s = cleared \<and> cl_key s = cleared"

text \<open>Facts about one state, and about a state with what the sink was told.\<close>

definition client_ok :: "client_world \<Rightarrow> bool" where
  "client_ok w \<longleftrightarrow> (let s = cw_client w in
     (cl_client s = None \<longrightarrow> no_credentials s \<and> \<not> cl_connected s \<and> \<not> cl_disconnecting s) \<and>
     (cl_disconnecting s \<longleftrightarrow> cw_pending w \<noteq> None) \<and>
     (\<forall>h was code. cw_pending w = Some (h, was, code) \<longrightarrow> cl_client s = Some h) \<and>
     (cl_connected s \<longrightarrow> \<not> cl_notified s))"

definition told_ok :: "client_world \<Rightarrow> bool" where
  "told_ok w \<longleftrightarrow> (\<exists>up. client_monitor False (cw_told w) = Some up \<and>
     (cl_sink (cw_client w) \<longrightarrow> \<not> cl_notified (cw_client w) \<longrightarrow> up))"

definition settled :: "client_world \<Rightarrow> bool" where
  "settled w \<longleftrightarrow> (let s = cw_client w in
     (cl_connected s \<longleftrightarrow> \<not> cl_notified s) \<and>
     (\<forall>h was code. cw_pending w = Some (h, was, code) \<longrightarrow> \<not> cl_notified s \<longrightarrow> was) \<and>
     (cl_sink s \<longrightarrow> client_monitor False (cw_told w) = Some (\<not> cl_notified s)))"

lemma set_open_fields [simp]:
  "cl_client (set_open x s) = cl_client s" "cl_notified (set_open x s) = cl_notified s"
  "cl_sink (set_open x s) = cl_sink s" "cl_connected (set_open x s) = cl_connected s"
  "cl_disconnecting (set_open x s) = cl_disconnecting s" "no_credentials (set_open x s) = no_credentials s"
  by (simp_all add: set_open_def no_credentials_def)

lemma clear_credentials_fields [simp]:
  "cl_client (clear_credentials s) = cl_client s" "cl_notified (clear_credentials s) = cl_notified s"
  "cl_sink (clear_credentials s) = cl_sink s" "cl_connected (clear_credentials s) = cl_connected s"
  "cl_disconnecting (clear_credentials s) = cl_disconnecting s" "no_credentials (clear_credentials s)"
  by (simp_all add: clear_credentials_def no_credentials_def)

lemma assign_fails_cleared:
  "assign_credential v = (r, c) \<Longrightarrow> r \<noteq> Success \<Longrightarrow> c = cleared"
  by (auto simp: assign_credential_def Let_def split: if_splits)

lemma prepare_fields:
  assumes "prepare_credentials cfg s = (r, s1)"
  shows "cl_client s1 = cl_client s \<and> cl_notified s1 = cl_notified s \<and> cl_sink s1 = cl_sink s \<and>
    cl_connected s1 = cl_connected s \<and> cl_disconnecting s1 = cl_disconnecting s \<and>
    (r \<noteq> Success \<longrightarrow> no_credentials s1)"
proof -
  obtain r1 c1 where a1: "assign_credential (ct_ca (cc_tls cfg)) = (r1, c1)" by fastforce
  obtain r2 c2 where a2: "assign_credential (ct_certificate (cc_tls cfg)) = (r2, c2)" by fastforce
  obtain r3 c3 where a3: "assign_credential (ct_key (cc_tls cfg)) = (r3, c3)" by fastforce
  have z: "r1 \<noteq> Success \<Longrightarrow> c1 = cleared" using assign_fails_cleared [OF a1] .
  show ?thesis
    using assms a1 a2 a3 z
    by (auto simp: prepare_credentials_def Let_def clear_credentials_def no_credentials_def
        split: if_splits)
qed

text \<open>Connect, in the two ways it ends: the client it had, or the new one.\<close>

lemma connect_refused:
  assumes "cl_client s \<noteq> None \<or> cl_disconnecting s"
  shows "client_connect env n cfg s = (fail_with InvalidState, s, [], n)"
  using assms by (simp add: client_connect_def)

lemma connect_outcome:
  assumes idle: "cl_client s = None" "\<not> cl_disconnecting s" and none: "no_credentials s"
    and run: "client_connect env n cfg s = (r, s', calls, n')"
  shows "if r = Success
    then \<exists>h s1. s' = installed (ce_ticks env) cfg h (fst (next_connection_id n)) s1 \<and>
      cl_sink s1 = cl_sink s \<and> cl_disconnecting s1 = cl_disconnecting s \<and> ce_init env = Some h
    else cl_client s' = None \<and> no_credentials s' \<and> cl_sink s' = cl_sink s \<and>
      cl_disconnecting s' = cl_disconnecting s \<and>
      (cl_connected s \<longrightarrow> \<not> cl_notified s \<longrightarrow> cl_connected s' \<longrightarrow> \<not> cl_notified s') \<and>
      (cl_connected s' \<longrightarrow> cl_connected s) \<and> (cl_notified s \<longrightarrow> cl_notified s') \<and>
      (calls \<noteq> [] \<longrightarrow> (\<forall>h. ce_init env = Some h \<longrightarrow> last calls = CallDestroy h))"
proof -
  obtain rp s1 where prep: "prepare_credentials cfg s = (rp, s1)" by fastforce
  obtain rh headers where hd: "build_native_headers cfg = (rh, headers)" by fastforce
  obtain i n1 where nid: "next_connection_id n = (i, n1)" by fastforce
  have s1: "cl_client s1 = None" "cl_notified s1 = cl_notified s" "cl_sink s1 = cl_sink s"
    "cl_connected s1 = cl_connected s" "cl_disconnecting s1 = cl_disconnecting s"
    "rp \<noteq> Success \<Longrightarrow> no_credentials s1"
    using prepare_fields [OF prep] idle by auto
  have c: "cl_client (clear_credentials s1) = None" "no_credentials (clear_credentials s1)"
    "cl_sink (clear_credentials s1) = cl_sink s" "cl_connected (clear_credentials s1) = cl_connected s"
    "cl_notified (clear_credentials s1) = cl_notified s"
    "cl_disconnecting (clear_credentials s1) = cl_disconnecting s"
    using s1 by simp_all
  note run = run [unfolded client_connect_def prep hd nid Let_def split_conv]
  show ?thesis
  proof (cases "validate_native_policy cfg = Success")
    case False
    then show ?thesis using run idle none by simp
  next
    case valid: True
    show ?thesis
    proof (cases "rp = Success")
      case False
      then show ?thesis using run idle valid s1 by simp
    next
      case prepared: True
      show ?thesis
      proof (cases "rh = Success")
        case False
        then show ?thesis using run idle valid prepared c by simp
      next
        case headed: True
        let ?no_ca = "cc_tls_transport cfg \<and> ct_trust (cc_tls cfg) = PlatformTrust \<and>
          (\<not> ce_mbedtls env \<or> \<not> ce_ca_store env)"
        show ?thesis
        proof (cases ?no_ca)
          case True
          then show ?thesis using run idle valid prepared headed c by auto
        next
          case ca: False
          note run = run [unfolded if_not_P [OF ca]]
          show ?thesis
          proof (cases "ce_init env")
            case None
            then show ?thesis using run idle valid prepared headed c by auto
          next
            case (Some h)
            consider "ce_register env \<noteq> ESP_OK" | "ce_register env = ESP_OK" "ce_start env \<noteq> ESP_OK"
              | "ce_register env = ESP_OK" "ce_start env = ESP_OK" by blast
            then show ?thesis
              by cases (use run idle valid prepared headed c s1 Some nid in \<open>auto simp: installed_def\<close>)
          qed
        qed
      qed
    qed
  qed
qed


text \<open>Data events change only the buffer and what is known of a peer's close.\<close>

definition same_session :: "ws_client \<Rightarrow> ws_client \<Rightarrow> bool" where
  "same_session s s' \<longleftrightarrow> cl_client s' = cl_client s \<and> cl_notified s' = cl_notified s \<and>
     cl_sink s' = cl_sink s \<and> cl_connected s' = cl_connected s \<and>
     cl_disconnecting s' = cl_disconnecting s \<and> no_credentials s' = no_credentials s"

lemma same_session_refl [simp]: "same_session s s"
  by (simp add: same_session_def)

lemma same_session_updates [simp]:
  "same_session s (s\<lparr>cl_incoming := x\<rparr>)" "same_session s (s\<lparr>cl_incoming := x, cl_opcode := y\<rparr>)"
  "same_session s (s\<lparr>cl_peer_code := c, cl_peer_reason := q\<rparr>)" "same_session s (s\<lparr>cl_event_task := e\<rparr>)"
  by (simp_all add: same_session_def no_credentials_def)

lemma same_session_trans: "same_session a b \<Longrightarrow> same_session b c \<Longrightarrow> same_session a c"
  by (simp add: same_session_def)

text \<open>What a data event may tell: messages, and only to a sink of a connected client.\<close>

definition messages_only :: "ws_client \<Rightarrow> client_event list \<Rightarrow> bool" where
  "messages_only s told \<longleftrightarrow> told = [] \<or>
     cl_connected s \<and> cl_sink s \<and> (\<exists>i p. told = [ToldText i p] \<or> told = [ToldBinary i p])"

lemma deliver_session:
  "deliver_frame opcode payload s = Some (s', told) \<Longrightarrow> same_session s s' \<and> messages_only s told"
  by (auto simp: deliver_frame_def client_remember_peer_close_def dispatch_payload_def messages_only_def
      bind_eq_Some_conv split: if_splits option.splits)

lemma handle_data_session:
  assumes "handle_data e s = Some (s', told)"
  shows "same_session s s' \<and> messages_only s told"
proof -
  define len where "len = nat (de_payload_len e)"
  define offset where "offset = nat (de_offset e)"
  define n where "n = nat (de_len e)"
  define s1 where "s1 = (if offset = 0
        then s\<lparr>cl_incoming := replicate len 0, cl_opcode := de_opcode e\<rparr> else s)"
  note run = assms [unfolded handle_data_def Let_def, folded len_def offset_def n_def, folded s1_def]
  have s1: "same_session s s1" "messages_only (s1\<lparr>cl_incoming := [], cl_opcode := 0\<rparr>) told \<longleftrightarrow> messages_only s told"
    by (simp_all add: s1_def messages_only_def)
  have quiet: "messages_only s []" by (simp add: messages_only_def)
  have deliver: "deliver_frame opcode buf x = Some (s', told) \<Longrightarrow> same_session s x \<Longrightarrow>
      messages_only x told = messages_only s told \<Longrightarrow> same_session s s' \<and> messages_only s told" for opcode buf x
    using deliver_session same_session_trans by blast
  let ?bad = "de_payload_len e < 0 \<or> de_offset e < 0 \<or> de_len e < 0"
  let ?outside = "client_max_message < len \<or> len < offset \<or> len - offset < n"
  let ?control = "de_opcode e = 9 \<or> de_opcode e = 10"
  show ?thesis
  proof (cases "?bad \<or> ?outside \<or> ?control \<or> de_opcode e = 0")
    case True
    then have "s' = s" "told = []" using run by (simp_all split: if_splits)
    then show ?thesis using quiet by simp
  next
    case False
    then have go: "\<not> ?bad" "\<not> ?outside" "\<not> ?control" "de_opcode e \<noteq> 0" by blast+
    note run = run [unfolded if_not_P [OF go(1)] if_not_P [OF go(2)] if_not_P [OF go(3)] if_not_P [OF go(4)]]
    show ?thesis
    proof (cases "offset = 0 \<and> n = len")
      case True
      note run = run [unfolded if_P [OF True]]
      show ?thesis
      proof (cases "de_opcode e = 8 \<or> de_opcode e = 1 \<or> de_opcode e = 2")
        case True
        then show ?thesis using run [unfolded if_P [OF True]] deliver_session
          by (auto simp: bind_eq_Some_conv)
      next
        case False
        then show ?thesis using run [unfolded if_not_P [OF False]] quiet by simp
      qed
    next
      case False
      note run = run [unfolded if_not_P [OF False]]
      let ?drop = "length (cl_incoming s1) \<noteq> len \<or> cl_opcode s1 \<noteq> de_opcode e \<or> (n \<noteq> 0 \<and> de_data e = None)"
      have emptied: "same_session s (s1\<lparr>cl_incoming := [], cl_opcode := 0\<rparr>)"
        by (rule same_session_trans [OF s1(1)]) simp
      show ?thesis
      proof (cases ?drop)
        case True
        then show ?thesis using run [unfolded if_P [OF True]] quiet emptied by auto
      next
        case False
        obtain buf where b: "(if offset + n = len
               then deliver_frame (cl_opcode s1) buf (s1\<lparr>cl_incoming := [], cl_opcode := 0\<rparr>)
               else Some (s1\<lparr>cl_incoming := buf\<rparr>, [])) = Some (s', told)"
          using run [unfolded if_not_P [OF False]] by (auto simp: bind_eq_Some_conv)
        show ?thesis
        proof (cases "offset + n = len")
          case True
          then show ?thesis using b deliver [OF _ emptied s1(2)] by simp
        next
          case False
          then show ?thesis using b quiet same_session_trans [OF s1(1), of "s1\<lparr>cl_incoming := buf\<rparr>"] by auto
        qed
      qed
    qed
  qed
qed

lemma handle_connected_facts:
  assumes "handle_connected s = (s', told)"
  shows "cl_client s' = cl_client s" "cl_sink s' = cl_sink s" "cl_disconnecting s' = cl_disconnecting s"
    "no_credentials s' = no_credentials s"
    "s' = s \<and> told = [] \<or> cl_connected s' \<and> \<not> cl_notified s' \<and>
       (if cl_sink s then \<exists>i. told = [ToldConnected i] else told = [])"
  using assms by (auto simp: handle_connected_def no_credentials_def split: option.splits if_splits)

lemma handle_disconnected_facts:
  assumes "handle_disconnected clean s = (s', told)"
  shows "cl_client s' = cl_client s" "cl_sink s' = cl_sink s" "cl_disconnecting s' = cl_disconnecting s"
    "no_credentials s' = no_credentials s" "\<not> cl_connected s'" "cl_notified s'"
    "if \<not> cl_notified s \<and> cl_sink s then \<exists>c r. told = [ToldDisconnected c r] else told = []"
proof -
  obtain code reason where cr: "(if clean then
             (if cl_peer_reason s \<noteq> [] \<or> cl_peer_code s \<noteq> 1000 then (cl_peer_code s, cl_peer_reason s)
              else (cl_requested_code s, cl_requested_reason s))
           else (1006, lost_reason)) = (code, reason)" by fastforce
  have "handle_disconnected clean s = (if cl_notified s then (set_open False (s\<lparr>cl_connected := False\<rparr>), [])
     else ((set_open False (s\<lparr>cl_connected := False\<rparr>))\<lparr>cl_notified := True\<rparr>,
       if cl_sink s then [ToldDisconnected code reason] else []))"
    using cr by (auto simp: handle_disconnected_def set_open_def Let_def split: if_splits)
  then have e: "s' = (if cl_notified s then set_open False (s\<lparr>cl_connected := False\<rparr>)
      else (set_open False (s\<lparr>cl_connected := False\<rparr>))\<lparr>cl_notified := True\<rparr>)"
    "told = (if \<not> cl_notified s \<and> cl_sink s then [ToldDisconnected code reason] else [])"
    using assms by (simp_all split: if_splits)
  show "cl_client s' = cl_client s" "cl_sink s' = cl_sink s" "cl_disconnecting s' = cl_disconnecting s"
    "no_credentials s' = no_credentials s" "\<not> cl_connected s'" "cl_notified s'"
    "if \<not> cl_notified s \<and> cl_sink s then \<exists>c r. told = [ToldDisconnected c r] else told = []"
    unfolding e by (simp_all add: no_credentials_def set_open_def)
qed

lemma native_session:
  assumes "handle_native_event task ev s = Some (s', told)"
  shows "cl_client s' = cl_client s \<and> cl_sink s' = cl_sink s \<and> cl_disconnecting s' = cl_disconnecting s \<and>
    no_credentials s' = no_credentials s" (is ?keeps)
    "if ev = NvConnected then
        told = [] \<and> cl_connected s' = cl_connected s \<and> cl_notified s' = cl_notified s \<or>
        cl_connected s' \<and> \<not> cl_notified s' \<and> (if cl_sink s then \<exists>i. told = [ToldConnected i] else told = [])
     else if ev = NvDisconnected \<or> ev = NvClosed then
        \<not> cl_connected s' \<and> cl_notified s' \<and>
        (if \<not> cl_notified s \<and> cl_sink s then \<exists>c r. told = [ToldDisconnected c r] else told = [])
     else cl_connected s' = cl_connected s \<and> cl_notified s' = cl_notified s \<and> messages_only s told" (is ?tells)
proof -
  define s0 where "s0 = (if cl_event_task s = None then s\<lparr>cl_event_task := Some task\<rparr> else s)"
  have s0: "same_session s s0" "messages_only s0 told = messages_only s told"
    by (simp_all add: s0_def messages_only_def)
  note run = assms [unfolded handle_native_event_def Let_def, folded s0_def]
  have data: "same_session s s' \<and> messages_only s told" if d: "ev = NvData d" for d
  proof (cases d)
    case None
    then show ?thesis using run d s0 by (simp add: messages_only_def)
  next
    case (Some e)
    then have "handle_data e s0 = Some (s', told)" using run d by simp
    then show ?thesis using handle_data_session [of e s0] s0 same_session_trans by blast
  qed
  have err: "same_session s s' \<and> messages_only s told" if "ev = NvError"
    using run that s0 by (simp add: messages_only_def)
  have f: "cl_client s0 = cl_client s" "cl_sink s0 = cl_sink s" "cl_disconnecting s0 = cl_disconnecting s"
    "no_credentials s0 = no_credentials s" "cl_connected s0 = cl_connected s" "cl_notified s0 = cl_notified s"
    using s0(1) by (simp_all add: same_session_def)
  have "?keeps \<and> ?tells"
  proof (cases ev)
    case NvConnected
    then have "handle_connected s0 = (s', told)" using run by simp
    then show ?thesis using handle_connected_facts [of s0 s' told] f NvConnected by auto
  next
    case NvDisconnected
    then have "handle_disconnected False s0 = (s', told)" using run by simp
    then show ?thesis using handle_disconnected_facts [of False s0 s' told] f NvDisconnected by auto
  next
    case NvClosed
    then have "handle_disconnected True s0 = (s', told)" using run by simp
    then show ?thesis using handle_disconnected_facts [of True s0 s' told] f NvClosed by auto
  next
    case (NvData d)
    then show ?thesis using data by (simp add: same_session_def)
  next
    case NvError
    then show ?thesis using err by (simp add: same_session_def)
  qed
  then show ?keeps ?tells by blast+
qed

lemma exit_session:
  assumes "disconnect_exit h was code s = (s', told)"
  shows "cl_client s' = (if cl_client s = Some h then None else cl_client s)" "\<not> cl_connected s'"
    "\<not> cl_disconnecting s'" "no_credentials s'" "cl_sink s' = cl_sink s"
    "cl_notified s' = (was \<or> cl_notified s)"
    "told = (if was \<and> \<not> cl_notified s \<and> cl_sink s then [ToldDisconnected code (cl_requested_reason s)] else [])"
  using assms
  by (auto simp: disconnect_exit_def Let_def set_open_def clear_credentials_def no_credentials_def split: if_splits)

lemma enter_session:
  "disconnect_enter task code reason s = (Inl r, s') \<Longrightarrow> s' = s"
  "disconnect_enter task code reason s = (Inr (h, was), s') \<Longrightarrow>
     cl_client s = Some h \<and> \<not> cl_disconnecting s \<and> was = cl_connected s \<and>
     s' = s\<lparr>cl_disconnecting := True, cl_requested_code := code, cl_requested_reason := reason\<rparr>"
  by (auto simp: disconnect_enter_def split: option.splits if_splits)

lemma client_ok_idle:
  "client_ok w \<Longrightarrow> \<not> (cl_client (cw_client w) \<noteq> None \<or> cl_disconnecting (cw_client w)) \<Longrightarrow>
     cl_client (cw_client w) = None \<and> \<not> cl_disconnecting (cw_client w) \<and> no_credentials (cw_client w) \<and>
     \<not> cl_connected (cw_client w) \<and> cw_pending w = None"
  unfolding client_ok_def Let_def by blast

lemma client_ok_step:
  assumes ok: "client_ok w" and step: "client_step p w = Some w'"
  shows "client_ok w'"
proof (cases p)
  case (OpConnect env cfg)
  obtain r s calls n where c: "client_connect env (cw_counter w) cfg (cw_client w) = (r, s, calls, n)"
    by (metis prod_cases4)
  have w': "w' = w\<lparr>cw_client := s, cw_counter := n\<rparr>" using step OpConnect c by simp
  show ?thesis
  proof (cases "cl_client (cw_client w) \<noteq> None \<or> cl_disconnecting (cw_client w)")
    case True
    then have "s = cw_client w" using c connect_refused by simp
    then show ?thesis using ok unfolding w' by (simp add: client_ok_def)
  next
    case False
    then have idle: "cl_client (cw_client w) = None" "\<not> cl_disconnecting (cw_client w)"
      "no_credentials (cw_client w)" "\<not> cl_connected (cw_client w)" "cw_pending w = None"
      using client_ok_idle [OF ok False] by blast+
    show ?thesis
      using connect_outcome [OF idle(1-3) c] idle unfolding w'
      by (auto simp: client_ok_def installed_def Let_def split: if_splits)
  qed
next
  case (OpEnter task code reason)
  then show ?thesis using ok step
    by (auto simp: client_ok_def Let_def no_credentials_def dest!: enter_session
        split: sum.splits prod.splits)
next
  case OpExit
  then obtain h was code s told where x: "cw_pending w = Some (h, was, code)"
    "disconnect_exit h was code (cw_client w) = (s, told)"
    "w' = w\<lparr>cw_client := s, cw_pending := None, cw_told := cw_told w @ told\<rparr>"
    using step by (auto split: option.splits prod.splits)
  then have "cl_client (cw_client w) = Some h" using ok by (simp add: client_ok_def Let_def)
  then show ?thesis using exit_session [OF x(2)] unfolding x(3) by (simp add: client_ok_def Let_def)
next
  case (OpEvent task ev)
  then obtain s told where x: "cl_client (cw_client w) \<noteq> None"
    "handle_native_event task ev (cw_client w) = Some (s, told)"
    "w' = w\<lparr>cw_client := s, cw_told := cw_told w @ told\<rparr>"
    using step by (auto split: if_splits option.splits prod.splits)
  show ?thesis using ok x(1) native_session [OF x(2)] unfolding x(3)
    by (cases ev) (auto simp: client_ok_def Let_def)
next
  case OpResetEnd
  then show ?thesis using ok step
    by (auto simp: client_ok_def Let_def reset_end_def clear_credentials_def no_credentials_def)
qed

lemma messages_monitor:
  "messages_only s told \<Longrightarrow> told \<noteq> [] \<longrightarrow> up \<Longrightarrow> client_monitor up told = Some up"
  by (auto simp: messages_only_def)

lemma settled_step:
  assumes ok: "client_ok w" and set: "settled w" and step: "client_step p w = Some w'"
    and quiet: "cw_pending w \<noteq> None \<longrightarrow> (\<forall>task. p \<noteq> OpEvent task NvConnected)"
  shows "settled w'"
proof (cases p)
  case (OpConnect env cfg)
  obtain r s calls n where c: "client_connect env (cw_counter w) cfg (cw_client w) = (r, s, calls, n)"
    by (metis prod_cases4)
  have w': "w' = w\<lparr>cw_client := s, cw_counter := n\<rparr>" using step OpConnect c by simp
  show ?thesis
  proof (cases "cl_client (cw_client w) \<noteq> None \<or> cl_disconnecting (cw_client w)")
    case True
    then have "s = cw_client w" using c connect_refused by simp
    then show ?thesis using set unfolding w' by (simp add: settled_def)
  next
    case False
    then have idle: "cl_client (cw_client w) = None" "\<not> cl_disconnecting (cw_client w)"
      "no_credentials (cw_client w)" "\<not> cl_connected (cw_client w)" "cw_pending w = None"
      using client_ok_idle [OF ok False] by blast+
    then have "cl_notified (cw_client w)" using set by (simp add: settled_def Let_def)
    then show ?thesis
      using connect_outcome [OF idle(1-3) c] idle set unfolding w'
      by (auto simp: settled_def installed_def Let_def split: if_splits)
  qed
next
  case (OpEnter task code reason)
  then show ?thesis using set step
    by (auto simp: settled_def Let_def dest!: enter_session split: sum.splits prod.splits)
next
  case OpExit
  then obtain h was code s told where x: "cw_pending w = Some (h, was, code)"
    "disconnect_exit h was code (cw_client w) = (s, told)"
    "w' = w\<lparr>cw_client := s, cw_pending := None, cw_told := cw_told w @ told\<rparr>"
    using step by (auto split: option.splits prod.splits)
  then show ?thesis using set exit_session [OF x(2)] unfolding x(3)
    by (auto simp: settled_def Let_def client_monitor_append)
next
  case (OpEvent task ev)
  then obtain s told where x: "cl_client (cw_client w) \<noteq> None"
    "handle_native_event task ev (cw_client w) = Some (s, told)"
    "w' = w\<lparr>cw_client := s, cw_told := cw_told w @ told\<rparr>"
    using step by (auto split: if_splits option.splits prod.splits)
  have pend: "ev = NvConnected \<Longrightarrow> cw_pending w = None" using quiet OpEvent by (cases "cw_pending w") auto
  show ?thesis
  proof (cases "ev = NvError \<or> (\<exists>d. ev = NvData d)")
    case True
    then have "messages_only (cw_client w) told" "cl_connected s = cl_connected (cw_client w)"
      "cl_notified s = cl_notified (cw_client w)" "cl_sink s = cl_sink (cw_client w)"
      using native_session [OF x(2)] by auto
    then show ?thesis using set unfolding x(3)
      by (auto simp: settled_def Let_def client_monitor_append messages_only_def)
  next
    case False
    then show ?thesis using set pend native_session [OF x(2)] unfolding x(3)
      by (cases ev) (auto simp: settled_def Let_def client_monitor_append)
  qed
next
  case OpResetEnd
  then show ?thesis using set step
    by (auto simp: settled_def Let_def reset_end_def clear_credentials_def)
qed

lemma client_reach_ok: "client_reach quiet w \<Longrightarrow> client_ok w"
proof (induction rule: client_reach.induct)
  case (start ticks n)
  show ?case by (simp add: client_ok_def fresh_ws_client_def no_credentials_def)
qed (rule client_ok_step)

lemma client_reach_settled: "client_reach quiet w \<Longrightarrow> quiet \<Longrightarrow> settled w"
proof (induction rule: client_reach.induct)
  case (start ticks n)
  show ?case by (simp add: settled_def fresh_ws_client_def)
next
  case (step w p w')
  then show ?case using settled_step client_reach_ok by blast
qed

section \<open>Properties\<close>

text \<open>C26: A text or binary frame of at most 65536 bytes that the native client hands over in
  consecutive pieces, however it is cut, is delivered to the sink exactly once and whole, when its
  last piece arrives, with nothing read or written out of bounds.\<close>

theorem client_pieces_reassembled:
  assumes "opcode = 1 \<or> opcode = 2" and "length (concat ps) \<le> client_max_message"
    and "ps \<noteq> []" and "[] \<notin> set ps \<or> ps = [[]]"
    and "cl_connected s" "cl_sink s" "cl_connection s = Some (i, x)"
  shows "\<exists>s'. run_data (piece_events opcode (length (concat ps)) 0 ps) s =
    Some (s', [if opcode = 1 then ToldText i (concat ps) else ToldBinary i (concat ps)])"
proof -
  have i: "listening i s" using assms(5-7) by (simp add: listening_def)
  show ?thesis
  proof (cases "length ps = 1")
    case True
    then obtain p where "ps = [p]" by (cases ps) auto
    then show ?thesis using handle_whole [OF assms(1) _ i, of p] assms(2) by (simp add: receives_def)
  next
    case False
    then have "[] \<notin> set ps" using assms(4) by auto
    then show ?thesis
      using run_pieces [OF assms(1,2) i assms(3), of 0] False by (auto simp: receives_def)
  qed
qed

lemma client_pieces_reassembled_witness:
  "\<exists>s'. run_data (piece_events 1 3 0 [[72], [105, 33]])
     ((fresh_ws_client 0)\<lparr>cl_connected := True, cl_sink := True, cl_connection := Some (4, True)\<rparr>) =
     Some (s', [ToldText 4 [72, 105, 33]])"
  using client_pieces_reassembled [of 1 "[[72], [105, 33]]"
      "(fresh_ws_client 0)\<lparr>cl_connected := True, cl_sink := True, cl_connection := Some (4, True)\<rparr>" 4 True]
  by (simp add: client_max_message_def)

text \<open>The first frame of a message in several frames is delivered as if it were the whole message:
  the client cannot see that it is not final, and drops only the continuation frames that follow.\<close>

theorem client_fragment_truncated:
  assumes "length p + length q \<le> client_max_message" and "p \<noteq> []" "q \<noteq> []"
    and "cl_connected s" "cl_sink s" "cl_connection s = Some (i, x)"
  shows "run_data (piece_events 1 (length p) 0 [p] @ piece_events 0 (length q) 0 [q]) s = Some (s, [ToldText i p])"
  using assms by (simp add: handle_data_def data_bytes_def deliver_frame_def dispatch_payload_def Let_def)

lemma client_fragment_truncated_witness:
  "run_data (piece_events 1 2 0 [[72, 105]] @ piece_events 0 1 0 [[33]])
     ((fresh_ws_client 0)\<lparr>cl_connected := True, cl_sink := True, cl_connection := Some (4, True)\<rparr>) =
   Some ((fresh_ws_client 0)\<lparr>cl_connected := True, cl_sink := True, cl_connection := Some (4, True)\<rparr>,
     [ToldText 4 [72, 105]])"
  using client_fragment_truncated [of "[72, 105]" "[33]"
      "(fresh_ws_client 0)\<lparr>cl_connected := True, cl_sink := True, cl_connection := Some (4, True)\<rparr>" 4 True]
  by (simp add: client_max_message_def)

text \<open>C27: The handshake headers are built exactly when there are at most 64 of them, each is answered
  for and safe, and their lines fit the policy's limit; the text is then their lines in order, and
  splitting it at CRLF gives back one line per header and nothing else, so that no name or value
  can add a header.\<close>

theorem client_headers_exact:
  assumes "cc_headers cfg = Some (n, source)"
  shows "(fst (build_native_headers cfg) = Success \<longleftrightarrow>
      n \<le> 64 \<and> (\<exists>hs. map source [0..<n] = map Some hs \<and> list_all header_is_safe hs \<and>
        length (concat (map header_line hs)) \<le> cp_max_header_bytes (cc_policy cfg))) \<and>
    (\<forall>text. build_native_headers cfg = (Success, text) \<longrightarrow>
      (\<exists>hs. map source [0..<n] = map Some hs \<and> text = concat (map header_line hs) \<and>
        crlf_lines text = map (\<lambda>h. fst h @ '': '' @ snd h) hs @ [[]]))"
proof -
  let ?limit = "cp_max_header_bytes (cc_policy cfg)"
  have b: "build_native_headers cfg = (if n > 64 then (fail_with ResourceExhausted, [])
      else append_headers source ?limit 0 n [])"
    using assms by (simp add: build_native_headers_def max_handshake_headers_def)
  have ok: "append_headers source ?limit 0 n [] = (Success, out) \<longleftrightarrow>
      (\<exists>hs. map source [0..<n] = map Some hs \<and> list_all header_is_safe hs \<and>
        out = concat (map header_line hs) \<and> length out \<le> ?limit)" for out
    using append_headers_success [of source ?limit 0 n "[]" out] by (cases n) auto
  have "fst (append_headers source ?limit 0 n []) = Success \<longleftrightarrow>
      (\<exists>out. append_headers source ?limit 0 n [] = (Success, out))"
    by (cases "append_headers source ?limit 0 n []") auto
  moreover have "crlf_lines (concat (map header_line hs)) = map (\<lambda>h. fst h @ '': '' @ snd h) hs @ [[]]"
    if "list_all header_is_safe hs" for hs
  proof -
    have cr: "of_char (CHR 0x0D) = (13 :: nat)" by simp
    have "header_line = (\<lambda>l. l @ crlf) \<circ> (\<lambda>h. fst h @ '': '' @ snd h)"
      by (simp add: header_line_def fun_eq_iff)
    then have e: "map header_line hs = map (\<lambda>l. l @ crlf) (map (\<lambda>h. fst h @ '': '' @ snd h) hs)"
      by (simp only: map_map)
    have "list_all (\<lambda>l. CHR 0x0D \<notin> set l) (map (\<lambda>h. fst h @ '': '' @ snd h) hs)"
      using that by (fastforce simp: list_all_iff header_is_safe_def)
    then show ?thesis unfolding e using crlf_lines_concat [of _ "[]"] by fastforce
  qed
  ultimately show ?thesis using b ok by auto
qed

text \<open>C28: However Connect, Disconnect and the native events interleave: while there is no native client
  no credential bytes are held and the client is neither connected nor disconnecting; at most one
  Disconnect is between its sections, and the native client it works on is the one installed.\<close>

theorem client_credentials_released:
  assumes "client_reach False w" and "cl_client (cw_client w) = None"
  shows "cr_bytes (cl_ca (cw_client w)) = [] \<and> cr_bytes (cl_certificate (cw_client w)) = [] \<and>
    cr_bytes (cl_key (cw_client w)) = [] \<and> \<not> cl_connected (cw_client w) \<and>
    \<not> cl_disconnecting (cw_client w) \<and> cw_pending w = None"
proof -
  have ok: "client_ok w" by (rule client_reach_ok [OF assms(1)])
  then have "\<not> cl_disconnecting (cw_client w)" using assms(2) by (simp add: client_ok_def Let_def)
  then show ?thesis using client_ok_idle [OF ok] assms(2) by (simp add: no_credentials_def cleared_def)
qed

text \<open>C29: When no connection comes up during a Disconnect, the sink's history is balanced: messages and
  the end of a connection are told only after its beginning and the end once, and whenever the
  client is connected exactly when the last thing of a connection it was told is its beginning; with
  the native client gone nothing is left open.\<close>

theorem client_history_balanced:
  assumes "client_reach True w" and "cl_sink (cw_client w)"
  shows "client_monitor False (cw_told w) = Some (cl_connected (cw_client w)) \<and>
    (cl_client (cw_client w) = None \<longrightarrow> client_monitor False (cw_told w) = Some False)"
  using client_reach_settled [OF assms(1)] client_reach_ok [OF assms(1)] assms(2)
  by (auto simp: settled_def client_ok_def Let_def)

definition demo_policy :: client_policy where
  "demo_policy = \<lparr>cp_reconnect = False, cp_reconnect_delay = 0, cp_reconnect_clean = False, cp_ping = 0,
     cp_pong = 0, cp_keep_alive = False, cp_keep_idle = 0, cp_keep_interval = 0, cp_keep_count = 0,
     cp_timeout = 10000, cp_max_header_bytes = 512\<rparr>"

definition demo_no_view :: credential_view where
  "demo_no_view = \<lparr>cv_data = [], cv_encoding = Pem, cv_empty = True, cv_valid = True\<rparr>"

definition demo_client_config :: client_config where
  "demo_client_config = \<lparr>cc_host = ''host'', cc_port = 80, cc_path = ''/'', cc_protocol = ''chat'',
     cc_tls_transport = False, cc_tls = \<lparr>ct_trust = PlatformTrust, ct_ca = demo_no_view,
       ct_certificate = demo_no_view, ct_key = demo_no_view, ct_validate = Success\<rparr>,
     cc_headers = Some (1, \<lambda>_. Some (''X-Token'', ''abc'')), cc_policy = demo_policy\<rparr>"

definition demo_connect :: connect_env where
  "demo_connect = \<lparr>ce_mbedtls = True, ce_ca_store = True, ce_init = Some 9, ce_register = ESP_OK,
     ce_start = ESP_OK, ce_ticks = \<lambda>ms. ms\<rparr>"

lemma demo_header_safe: "header_is_safe (''X-Token'', ''abc'')"
  by code_simp

lemma client_headers_exact_witness:
  "fst (build_native_headers demo_client_config) = Success"
proof -
  let ?source = "\<lambda>_ :: nat. Some (''X-Token'', ''abc'')"
  have h: "cc_headers demo_client_config = Some (1, ?source)" by (simp add: demo_client_config_def)
  have "map ?source [0..<1] = map Some [(''X-Token'', ''abc'')] \<and> list_all header_is_safe [(''X-Token'', ''abc'')] \<and>
      length (concat (map header_line [(''X-Token'', ''abc'')])) \<le> cp_max_header_bytes (cc_policy demo_client_config)"
    using demo_header_safe by (simp add: demo_client_config_def demo_policy_def header_line_def crlf_def)
  then show ?thesis using client_headers_exact [OF h] by fastforce
qed

text \<open>A history: connected, told, disconnected.\<close>

definition demo_history :: "client_op list" where
  "demo_history = [OpConnect demo_connect demo_client_config, OpEvent 2 NvConnected,
     OpEvent 2 (NvData (Some \<lparr>de_payload_len = 1, de_offset = 0, de_len = 1, de_opcode = 1, de_data = Some [72]\<rparr>)),
     OpEnter 1 1000 [], OpExit]"

fun run_history :: "bool \<Rightarrow> client_op list \<Rightarrow> client_world \<Rightarrow> client_world option" where
  "run_history quiet [] w = Some w"
| "run_history quiet (p # ps) w =
     (if quiet \<and> cw_pending w \<noteq> None \<and> (case p of OpEvent task NvConnected \<Rightarrow> True | _ \<Rightarrow> False) then None
      else (case client_step p w of None \<Rightarrow> None | Some w' \<Rightarrow> run_history quiet ps w'))"

lemma run_history_reach:
  "run_history quiet ps w = Some w' \<Longrightarrow> client_reach quiet w \<Longrightarrow> client_reach quiet w'"
proof (induction ps arbitrary: w)
  case (Cons p ps)
  then obtain w1 where w1: "client_step p w = Some w1" "run_history quiet ps w1 = Some w'"
    "quiet \<longrightarrow> cw_pending w \<noteq> None \<longrightarrow> (\<forall>task. p \<noteq> OpEvent task NvConnected)"
    by (auto split: if_splits option.splits client_op.splits native_event.splits)
  show ?case by (rule Cons.IH [OF w1(2) client_reach.step [OF Cons.prems(2) w1(1,3)]])
qed simp

definition demo_client_world :: client_world where
  "demo_client_world = \<lparr>cw_client = (fresh_ws_client 0)\<lparr>cl_sink := True\<rparr>, cw_counter = 1, cw_pending = None, cw_told = []\<rparr>"

lemma demo_client_reach:
  "run_history quiet ps demo_client_world = Some w \<Longrightarrow> client_reach quiet w"
  by (rule run_history_reach) (auto simp: demo_client_world_def intro: client_reach.start)


lemmas demo_client_simps = demo_client_world_def fresh_ws_client_def demo_connect_def client_connect_def
  validate_native_policy_def prepare_credentials_def demo_client_config_def demo_policy_def demo_no_view_def
  build_native_headers_def max_handshake_headers_def demo_header_safe header_line_def crlf_def
  next_connection_id_def installed_def milliseconds_to_ticks_def clear_credentials_def
  handle_native_event_def handle_connected_def handle_disconnected_def handle_data_def data_bytes_def
  deliver_frame_def dispatch_payload_def client_max_message_def disconnect_enter_def disconnect_exit_def
  set_open_def Let_def

lemma demo_history_run:
  "\<exists>w. run_history quiet demo_history demo_client_world = Some w \<and> cl_client (cw_client w) = None \<and>
     cl_sink (cw_client w) \<and> cw_told w = [ToldConnected 1, ToldText 1 [72], ToldDisconnected 1000 []]"
  by (cases quiet) (simp_all add: demo_history_def demo_client_simps)

lemma client_credentials_released_witness:
  "\<exists>w. run_history False demo_history demo_client_world = Some w \<and> cr_bytes (cl_key (cw_client w)) = []"
  using demo_history_run [of False] client_credentials_released demo_client_reach by metis

lemma client_history_balanced_witness:
  "\<exists>w. run_history True demo_history demo_client_world = Some w \<and> client_monitor False (cw_told w) = Some False"
  using demo_history_run [of True] client_history_balanced demo_client_reach by metis

text \<open>A connection that comes up while Disconnect is between its sections is announced and never
  ended: Disconnect took note of being unconnected when it began, so it tells nothing at its end. The
  trace below connects, enters Disconnect, comes up and leaves Disconnect; the native client is gone,
  nothing is pending, and the sink was told of a connection as the last thing.\<close>

theorem client_race_unbalanced:
  "\<exists>w. run_history False [OpConnect demo_connect demo_client_config, OpEnter 1 1000 [], OpEvent 2 NvConnected, OpExit]
       demo_client_world = Some w \<and> client_reach False w \<and>
     cl_client (cw_client w) = None \<and> cw_pending w = None \<and> cl_sink (cw_client w) \<and>
     client_monitor False (cw_told w) = Some True"
proof -
  have "\<exists>w. run_history False [OpConnect demo_connect demo_client_config, OpEnter 1 1000 [], OpEvent 2 NvConnected, OpExit]
       demo_client_world = Some w \<and> cl_client (cw_client w) = None \<and> cw_pending w = None \<and>
     cl_sink (cw_client w) \<and> client_monitor False (cw_told w) = Some True"
    by (simp add: demo_client_simps)
  then show ?thesis using demo_client_reach by blast
qed

end
