(* ===== verification/Event_Transport.thy ===== *)
theory Event_Transport
  imports Platform_Types
begin

text \<open>
  The event transports over a stream: src/ESPressio_TCPClientEventTransport.hpp and
  src/ESPressio_TLSEventTransport.hpp, and the pacing of reconnects they share with
  src/ESPressio_MQTTEventTransport.hpp.

  Framing belongs to ESPressio-Sockets: the frame decoder, the frame builder and the packet bound
  are a record of functions, the decoder's state a type parameter. The network client answers
  through the environment of a call (\<open>connected\<close>, the outcome of \<open>connect\<close>, what each read gives,
  whether a frame is written in full), and every call made on it is an event of a log, together
  with the packets handed on. The steps of \<open>link_do\<close> interleave the application's calls with the
  iterations of the worker thread, which exclude each other by the client's mutex. Of an iteration
  the packets are handed on after the mutex is released, to the receiver read for each of them; the
  model takes them as the end of the same step, so all have the receiver the step began with. \<open>Shutdown\<close>
  is one step of a history; its two sections are also defined on their own.
\<close>

section \<open>The library and the network client\<close>

record 'd sockets_library =
  sk_max_packet :: nat
  sk_fresh :: 'd
  sk_push :: "bytes \<Rightarrow> 'd \<Rightarrow> bool \<times> 'd \<times> bytes list"
  sk_frame :: "bytes \<Rightarrow> bytes"

record link_env =
  le_connected :: bool
  le_now :: u64
  le_connect :: bool
  le_reads :: "bytes option list"
  le_write :: bool

datatype link_event =
    LkStop
  | LkConnect string u16 u64 bool
  | LkRead bytes
  | LkReadNone
  | LkWrite bytes bool
  | LkPacket "nat option" bytes
  | LkInsecure
  | LkCACert string
  | LkCertificate string
  | LkPrivateKey string

definition now_ms :: "u64 \<Rightarrow> u32" where
  "now_ms ns = ucast (ns div 1000000)"

section \<open>The TCP client\<close>

record tcp_config =
  tc_host :: string
  tc_port :: u16
  tc_interval :: u32

record ('d, 'c) stream_client =
  sc_config :: 'c
  sc_decoder :: 'd
  sc_receiver :: "nat option"
  sc_last :: u32
  sc_initialized :: bool

definition ensure_connected ::
    "'d sockets_library \<Rightarrow> link_env \<Rightarrow> ('d, 'a tcp_config_scheme) stream_client
      \<Rightarrow> bool \<times> ('d, 'a tcp_config_scheme) stream_client \<times> link_event list" where
  "ensure_connected sk env s =
     (if le_connected env then (True, s, [])
      else
        let now = now_ms (le_now env)
        in if now - sc_last s < tc_interval (sc_config s) then (False, s, [])
           else (le_connect env, s\<lparr>sc_last := now, sc_decoder := sk_fresh sk\<rparr>,
             [LkStop, LkConnect (c_string (tc_host (sc_config s))) (tc_port (sc_config s)) (le_now env) (le_connect env)]))"

text \<open>
  The loop \<open>while (available())\<close>, one answer for each round: the bytes read, or \<open>None\<close> for a
  read that gives nothing; after the last answer nothing is available.
\<close>

fun read_loop :: "'d sockets_library \<Rightarrow> bytes option list \<Rightarrow> 'd \<Rightarrow> 'd \<times> link_event list \<times> bytes list" where
  "read_loop sk [] d = (d, [], [])"
| "read_loop sk (None # rs) d = (d, [LkReadNone], [])"
| "read_loop sk (Some chunk # rs) d =
     (let (valid, d1, completed) = sk_push sk chunk d
      in if \<not> valid then (d1, [LkRead chunk, LkStop], completed)
         else (let (d2, es, more) = read_loop sk rs d1 in (d2, LkRead chunk # es, completed @ more)))"

definition worker_iteration ::
    "'d sockets_library \<Rightarrow> link_env \<Rightarrow> ('d, 'a tcp_config_scheme) stream_client
      \<Rightarrow> ('d, 'a tcp_config_scheme) stream_client \<times> link_event list" where
  "worker_iteration sk env s =
     (let (up, s1, es) = ensure_connected sk env s
      in if \<not> up then (s1, es)
         else
           let (d, rs, completed) = read_loop sk (le_reads env) (sc_decoder s1)
           in (s1\<lparr>sc_decoder := d\<rparr>, es @ rs @ map (LkPacket (sc_receiver s1)) completed))"

text \<open>\<open>started\<close> is the answer of \<open>StartWorker\<close>.\<close>

definition transport_initialize ::
    "bool \<Rightarrow> 'a tcp_config_scheme \<Rightarrow> ('d, 'a tcp_config_scheme) stream_client
      \<Rightarrow> bool \<times> ('d, 'a tcp_config_scheme) stream_client" where
  "transport_initialize started cfg s =
     (if sc_initialized s then (True, s)
      else if tc_host cfg = [] \<or> tc_port cfg = 0 then (False, s)
      else if \<not> started then (False, s\<lparr>sc_config := cfg\<rparr>)
      else (True, s\<lparr>sc_config := cfg, sc_initialized := True\<rparr>))"

definition transport_shutdown ::
    "'d sockets_library \<Rightarrow> ('d, 'c) stream_client \<Rightarrow> ('d, 'c) stream_client \<times> link_event list" where
  "transport_shutdown sk s =
     (if \<not> sc_initialized s then (s, [])
      else (s\<lparr>sc_decoder := sk_fresh sk, sc_receiver := None, sc_initialized := False\<rparr>, [LkStop]))"

text \<open>
  \<open>Shutdown\<close> in its sections: the client is stopped under its mutex; only afterwards, without the
  mutex, is the transport marked as shut down.
\<close>

definition shutdown_close ::
    "'d sockets_library \<Rightarrow> ('d, 'c) stream_client \<Rightarrow> ('d, 'c) stream_client \<times> link_event list" where
  "shutdown_close sk s = (s\<lparr>sc_decoder := sk_fresh sk\<rparr>, [LkStop])"

definition shutdown_finish :: "('d, 'c) stream_client \<Rightarrow> ('d, 'c) stream_client" where
  "shutdown_finish s = s\<lparr>sc_receiver := None, sc_initialized := False\<rparr>"

lemma transport_shutdown_sections:
  "transport_shutdown sk s =
     (if \<not> sc_initialized s then (s, [])
      else (case shutdown_close sk s of (s1, es) \<Rightarrow> (shutdown_finish s1, es)))"
  by (simp add: transport_shutdown_def shutdown_close_def shutdown_finish_def)

definition transport_send ::
    "'d sockets_library \<Rightarrow> link_env \<Rightarrow> bytes option \<Rightarrow> ('d, 'a tcp_config_scheme) stream_client
      \<Rightarrow> bool \<times> ('d, 'a tcp_config_scheme) stream_client \<times> link_event list" where
  "transport_send sk env packet s = (case packet of
       None \<Rightarrow> (False, s, [])
     | Some p \<Rightarrow>
         if \<not> sc_initialized s \<or> p = [] \<or> length p > sk_max_packet sk then (False, s, [])
         else if sk_frame sk p = [] then (False, s, [])
         else
           let (up, s1, es) = ensure_connected sk env s
           in if \<not> up then (False, s1, es)
              else if \<not> le_write env then (False, s1, es @ [LkWrite (sk_frame sk p) False, LkStop])
              else (True, s1, es @ [LkWrite (sk_frame sk p) True]))"

definition transport_set_receiver :: "nat option \<Rightarrow> ('d, 'c) stream_client \<Rightarrow> ('d, 'c) stream_client" where
  "transport_set_receiver r s = s\<lparr>sc_receiver := r\<rparr>"

text \<open>A Send of another thread between the sections connects again: it succeeds, and the connection it
  made stays open, because the transport then counts as shut down and no later Shutdown stops it.\<close>

lemma send_during_shutdown:
  assumes "sc_initialized s" "p \<noteq> []" "length p \<le> sk_max_packet sk" "sk_frame sk p \<noteq> []"
    and "\<not> le_connected env" "le_connect env" "le_write env"
    and "tc_interval (sc_config s) \<le> now_ms (le_now env) - sc_last s"
    and "shutdown_close sk s = (s1, es1)" "transport_send sk env (Some p) s1 = (ok, s2, es2)"
  shows "ok \<and> last (es1 @ es2) = LkWrite (sk_frame sk p) True \<and>
    LkConnect (c_string (tc_host (sc_config s))) (tc_port (sc_config s)) (le_now env) True \<in> set es2 \<and>
    transport_shutdown sk (shutdown_finish s2) = (shutdown_finish s2, [])"
proof -
  have "\<not> now_ms (le_now env) - sc_last s < tc_interval (sc_config s)" using assms(8) by (simp add: leD)
  then show ?thesis
    using assms(1-7,9,10)
    by (auto simp: shutdown_close_def transport_send_def ensure_connected_def transport_shutdown_def
        shutdown_finish_def Let_def)
qed

section \<open>The TLS client\<close>

record tls_config = tcp_config +
  tl_ca :: "string option"
  tl_certificate :: "string option"
  tl_key :: "string option"
  tl_insecure :: bool

definition configure_security :: "'a tls_config_scheme \<Rightarrow> link_event list" where
  "configure_security cfg =
     (if tl_insecure cfg then [LkInsecure]
      else (case tl_ca cfg of None \<Rightarrow> [] | Some ca \<Rightarrow> [LkCACert ca]) @
        (case (tl_certificate cfg, tl_key cfg) of
           (Some c, Some k) \<Rightarrow> [LkCertificate c, LkPrivateKey k]
         | _ \<Rightarrow> []))"

definition tls_ensure_connected ::
    "'d sockets_library \<Rightarrow> link_env \<Rightarrow> ('d, 'a tls_config_scheme) stream_client
      \<Rightarrow> bool \<times> ('d, 'a tls_config_scheme) stream_client \<times> link_event list" where
  "tls_ensure_connected sk env s =
     (if le_connected env then (True, s, [])
      else
        let now = now_ms (le_now env)
        in if now - sc_last s < tc_interval (sc_config s) then (False, s, [])
           else (le_connect env, s\<lparr>sc_last := now, sc_decoder := sk_fresh sk\<rparr>,
             LkStop # configure_security (sc_config s) @
             [LkConnect (c_string (tc_host (sc_config s))) (tc_port (sc_config s)) (le_now env) (le_connect env)]))"

definition tls_worker_iteration ::
    "'d sockets_library \<Rightarrow> link_env \<Rightarrow> ('d, 'a tls_config_scheme) stream_client
      \<Rightarrow> ('d, 'a tls_config_scheme) stream_client \<times> link_event list" where
  "tls_worker_iteration sk env s =
     (let (up, s1, es) = tls_ensure_connected sk env s
      in if \<not> up then (s1, es)
         else
           let (d, rs, completed) = read_loop sk (le_reads env) (sc_decoder s1)
           in (s1\<lparr>sc_decoder := d\<rparr>, es @ rs @ map (LkPacket (sc_receiver s1)) completed))"

definition tls_initialize ::
    "bool \<Rightarrow> 'a tls_config_scheme \<Rightarrow> ('d, 'a tls_config_scheme) stream_client
      \<Rightarrow> bool \<times> ('d, 'a tls_config_scheme) stream_client" where
  "tls_initialize started cfg s =
     (if sc_initialized s then (True, s)
      else if tc_host cfg = [] \<or> tc_port cfg = 0 then (False, s)
      else if \<not> started then (False, s\<lparr>sc_config := cfg\<rparr>)
      else (True, s\<lparr>sc_config := cfg, sc_initialized := True\<rparr>))"

definition tls_shutdown ::
    "'d sockets_library \<Rightarrow> ('d, 'c) stream_client \<Rightarrow> ('d, 'c) stream_client \<times> link_event list" where
  "tls_shutdown sk s =
     (if \<not> sc_initialized s then (s, [])
      else (s\<lparr>sc_decoder := sk_fresh sk, sc_receiver := None, sc_initialized := False\<rparr>, [LkStop]))"

definition tls_send ::
    "'d sockets_library \<Rightarrow> link_env \<Rightarrow> bytes option \<Rightarrow> ('d, 'a tls_config_scheme) stream_client
      \<Rightarrow> bool \<times> ('d, 'a tls_config_scheme) stream_client \<times> link_event list" where
  "tls_send sk env packet s = (case packet of
       None \<Rightarrow> (False, s, [])
     | Some p \<Rightarrow>
         if \<not> sc_initialized s \<or> p = [] \<or> length p > sk_max_packet sk then (False, s, [])
         else if sk_frame sk p = [] then (False, s, [])
         else
           let (up, s1, es) = tls_ensure_connected sk env s
           in if \<not> up then (False, s1, es)
              else if \<not> le_write env then (False, s1, es @ [LkWrite (sk_frame sk p) False, LkStop])
              else (True, s1, es @ [LkWrite (sk_frame sk p) True]))"

definition tls_set_receiver :: "nat option \<Rightarrow> ('d, 'c) stream_client \<Rightarrow> ('d, 'c) stream_client" where
  "tls_set_receiver r s = s\<lparr>sc_receiver := r\<rparr>"

section \<open>Histories\<close>

datatype 'c link_op =
    DoInit bool 'c
  | DoShutdown
  | DoWork link_env
  | DoSend link_env "bytes option"
  | DoReceiver "nat option"

text \<open>
  A transport with the network client it drives: \<open>lw_up\<close> says whether its last \<open>connect\<close> succeeded
  and no \<open>stop\<close> followed. A client answers \<open>connected\<close> only then, reads give one to 512 bytes, and
  the monotonic clock does not go back. The worker runs while the transport is initialised.
\<close>

record ('d, 'c) link_world =
  lw_client :: "('d, 'c) stream_client"
  lw_up :: bool
  lw_now :: u64
  lw_log :: "link_event list"

fun link_after :: "bool \<Rightarrow> link_event list \<Rightarrow> bool" where
  "link_after up [] = up"
| "link_after up (LkStop # es) = link_after False es"
| "link_after up (LkConnect h p t ok # es) = link_after ok es"
| "link_after up (e # es) = link_after up es"

definition admissible :: "link_env \<Rightarrow> ('d, 'c) link_world \<Rightarrow> bool" where
  "admissible env w \<longleftrightarrow> (le_connected env \<longrightarrow> lw_up w) \<and> lw_now w \<le> le_now env \<and>
     list_all (\<lambda>r. case r of None \<Rightarrow> True | Some c \<Rightarrow> c \<noteq> [] \<and> length c \<le> 512) (le_reads env)"

definition observe ::
    "u64 \<Rightarrow> ('d, 'c) stream_client \<times> link_event list \<Rightarrow> ('d, 'c) link_world \<Rightarrow> ('d, 'c) link_world" where
  "observe now r w = w\<lparr>lw_client := fst r, lw_up := link_after (lw_up w) (snd r), lw_now := now,
     lw_log := lw_log w @ snd r\<rparr>"

definition link_do ::
    "(bool \<Rightarrow> 'c \<Rightarrow> ('d, 'c) stream_client \<Rightarrow> bool \<times> ('d, 'c) stream_client) \<Rightarrow>
     (link_env \<Rightarrow> ('d, 'c) stream_client \<Rightarrow> ('d, 'c) stream_client \<times> link_event list) \<Rightarrow>
     (link_env \<Rightarrow> bytes option \<Rightarrow> ('d, 'c) stream_client \<Rightarrow> bool \<times> ('d, 'c) stream_client \<times> link_event list) \<Rightarrow>
     (('d, 'c) stream_client \<Rightarrow> ('d, 'c) stream_client \<times> link_event list) \<Rightarrow>
     (nat option \<Rightarrow> ('d, 'c) stream_client \<Rightarrow> ('d, 'c) stream_client) \<Rightarrow>
     'c link_op \<Rightarrow> ('d, 'c) link_world \<Rightarrow> ('d, 'c) link_world option" where
  "link_do init work send shut receiver op w = (let s = lw_client w in case op of
       DoInit started cfg \<Rightarrow> Some (observe (lw_now w) (snd (init started cfg s), []) w)
     | DoShutdown \<Rightarrow> Some (observe (lw_now w) (shut s) w)
     | DoWork env \<Rightarrow>
         if sc_initialized s \<and> admissible env w then Some (observe (le_now env) (work env s) w) else None
     | DoSend env packet \<Rightarrow>
         if admissible env w then Some (observe (le_now env) (snd (send env packet s)) w) else None
     | DoReceiver r \<Rightarrow> Some (observe (lw_now w) (receiver r s, []) w))"

fun link_run ::
    "('c link_op \<Rightarrow> ('d, 'c) link_world \<Rightarrow> ('d, 'c) link_world option) \<Rightarrow>
      'c link_op list \<Rightarrow> ('d, 'c) link_world \<Rightarrow> ('d, 'c) link_world option" where
  "link_run step [] w = Some w"
| "link_run step (op # ops) w = (case step op w of None \<Rightarrow> None | Some w1 \<Rightarrow> link_run step ops w1)"

definition tcp_do where
  "tcp_do sk = link_do transport_initialize (worker_iteration sk) (transport_send sk)
     (transport_shutdown sk) transport_set_receiver"

definition tls_do where
  "tls_do sk = link_do tls_initialize (tls_worker_iteration sk) (tls_send sk) (tls_shutdown sk) tls_set_receiver"

text \<open>Invariants of runs.\<close>

lemma link_run_invariant:
  assumes step: "\<And>op w w'. op \<in> set ops \<Longrightarrow> I w \<Longrightarrow> step op w = Some w' \<Longrightarrow> I w'"
    and "I w" "link_run step ops w = Some w'"
  shows "I w'"
  using assms
proof (induction ops arbitrary: w)
  case (Cons op ops)
  from Cons.prems(3) obtain w1 where w1: "step op w = Some w1" "link_run step ops w1 = Some w'"
    by (auto split: option.splits)
  have "I w1" using Cons.prems(1,2) w1(1) by auto
  then show ?case using Cons.IH Cons.prems(1) w1(2) by auto
qed simp

text \<open>What a step of a transport is: nothing new but an event list, by one of the operations.\<close>

lemma link_do_cases:
  assumes "link_do init work send shut receiver op w = Some w'"
  obtains (init) started cfg where "op = DoInit started cfg"
      "w' = observe (lw_now w) (snd (init started cfg (lw_client w)), []) w"
  | (shut) "op = DoShutdown" "w' = observe (lw_now w) (shut (lw_client w)) w"
  | (work) env where "op = DoWork env" "sc_initialized (lw_client w)" "admissible env w"
      "w' = observe (le_now env) (work env (lw_client w)) w"
  | (send) env packet where "op = DoSend env packet" "admissible env w"
      "w' = observe (le_now env) (snd (send env packet (lw_client w))) w"
  | (receiver) r where "op = DoReceiver r" "w' = observe (lw_now w) (receiver r (lw_client w), []) w"
  using assms by (cases op) (auto simp: link_do_def Let_def split: if_splits)

lemma observe_simps [simp]:
  "lw_client (observe t r w) = fst r" "lw_up (observe t r w) = link_after (lw_up w) (snd r)"
  "lw_now (observe t r w) = t" "lw_log (observe t r w) = lw_log w @ snd r"
  by (simp_all add: observe_def)

lemma link_after_append [simp]: "link_after up (xs @ ys) = link_after (link_after up xs) ys"
  by (induction up xs rule: link_after.induct) auto

lemma link_after_packets [simp]: "link_after up (map (LkPacket r) ps) = up"
  by (induction ps) auto

section \<open>Frames and connections\<close>

fun completed_packets :: "link_event list \<Rightarrow> bytes list" where
  "completed_packets [] = []"
| "completed_packets (LkPacket r p # es) = p # completed_packets es"
| "completed_packets (e # es) = completed_packets es"

fun segment :: "bytes list list \<Rightarrow> bytes list \<Rightarrow> link_event list \<Rightarrow> bytes list list \<times> bytes list" where
  "segment before cur [] = (before, cur)"
| "segment before cur (LkConnect h p t ok # es) = segment (before @ [cur]) [] es"
| "segment before cur (LkRead c # es) = segment before (cur @ [c]) es"
| "segment before cur (e # es) = segment before cur es"

text \<open>What was read on each connection, those of failed attempts and the time before any included.\<close>

definition connections :: "link_event list \<Rightarrow> bytes list list" where
  "connections es = (case segment [] [] es of (before, cur) \<Rightarrow> before @ [cur])"

fun decode_all :: "'d sockets_library \<Rightarrow> 'd \<Rightarrow> bytes list \<Rightarrow> bytes list" where
  "decode_all sk d [] = []"
| "decode_all sk d (c # cs) = (case sk_push sk c d of (valid, d1, ps) \<Rightarrow> ps @ decode_all sk d1 cs)"

fun feed_decoder :: "'d sockets_library \<Rightarrow> 'd \<Rightarrow> bytes list \<Rightarrow> 'd" where
  "feed_decoder sk d [] = d"
| "feed_decoder sk d (c # cs) = feed_decoder sk (fst (snd (sk_push sk c d))) cs"

lemma packets_append [simp]: "completed_packets (xs @ ys) = completed_packets xs @ completed_packets ys"
  by (induction xs rule: completed_packets.induct) auto

lemma packets_map [simp]: "completed_packets (map (LkPacket r) ps) = ps"
  by (induction ps) auto

lemma segment_append: "segment before cur (xs @ ys) = (case segment before cur xs of (b, c) \<Rightarrow> segment b c ys)"
  by (induction before cur xs rule: segment.induct) auto

lemma segment_packets [simp]: "segment b c (map (LkPacket r) ps) = (b, c)"
  by (induction ps) auto

lemma decode_all_append [simp]: "decode_all sk d (xs @ ys) = decode_all sk d xs @ decode_all sk (feed_decoder sk d xs) ys"
  by (induction sk d xs rule: decode_all.induct) (auto split: prod.splits)

lemma feed_decoder_append [simp]: "feed_decoder sk d (xs @ ys) = feed_decoder sk (feed_decoder sk d xs) ys"
  by (induction sk d xs rule: feed_decoder.induct) auto

lemma read_loop_spec:
  "read_loop sk rs d = (d2, es, ps) \<Longrightarrow>
     \<exists>cs. (\<forall>b c. segment b c es = (b, c @ cs)) \<and> completed_packets es = [] \<and> ps = decode_all sk d cs \<and>
       (\<forall>up. link_after up es \<longrightarrow> d2 = feed_decoder sk d cs \<and> up)"
proof (induction sk rs d arbitrary: d2 es ps rule: read_loop.induct)
  case (1 sk d)
  then show ?case by (intro exI [of _ "[]"]) auto
next
  case (2 sk rs d)
  then show ?case by (intro exI [of _ "[]"]) auto
next
  case (3 sk chunk rs d)
  obtain valid d1 qs where p: "sk_push sk chunk d = (valid, d1, qs)" by (metis prod_cases3)
  show ?case
  proof (cases valid)
    case False
    then show ?thesis using 3(2) p by (intro exI [of _ "[chunk]"]) auto
  next
    case True
    obtain d3 es3 ps3 where r: "read_loop sk rs d1 = (d3, es3, ps3)" by (metis prod_cases3)
    from 3(1) [OF p [symmetric] refl refl _ r] True obtain cs where
      "\<forall>b c. segment b c es3 = (b, c @ cs)" "completed_packets es3 = []" "ps3 = decode_all sk d1 cs"
      "\<forall>up. link_after up es3 \<longrightarrow> d3 = feed_decoder sk d1 cs \<and> up" by auto
    then show ?thesis using 3(2) p r True by (intro exI [of _ "chunk # cs"]) auto
  qed
qed

text \<open>The packets so far are those of the connections so far, and while the network client is up the
  decoder has seen exactly the current one.\<close>

definition decoded_so_far :: "'d sockets_library \<Rightarrow> ('d, 'c) link_world \<Rightarrow> bool" where
  "decoded_so_far sk w \<longleftrightarrow> (case segment [] [] (lw_log w) of (before, cur) \<Rightarrow>
     completed_packets (lw_log w) = concat (map (decode_all sk (sk_fresh sk)) (before @ [cur])) \<and>
     (lw_up w \<longrightarrow> sc_decoder (lw_client w) = feed_decoder sk (sk_fresh sk) cur))"

lemma decoded_observe_quiet:
  assumes "decoded_so_far sk w" "sc_decoder (fst r) = sc_decoder (lw_client w)"
    "\<And>b c. segment b c (snd r) = (b, c)" "completed_packets (snd r) = []"
    "link_after (lw_up w) (snd r) \<Longrightarrow> lw_up w"
  shows "decoded_so_far sk (observe t r w)"
  using assms by (auto simp: decoded_so_far_def segment_append split: prod.splits)

lemma decoded_observe_down:
  assumes "decoded_so_far sk w" "\<And>b c. segment b c (snd r) = (b, c)" "completed_packets (snd r) = []"
    "\<not> link_after (lw_up w) (snd r)"
  shows "decoded_so_far sk (observe t r w)"
  using assms by (auto simp: decoded_so_far_def segment_append split: prod.splits)

lemma decoded_observe_more:
  assumes "decoded_so_far sk (observe t (s1, es) w)" "link_after (lw_up w) es"
    and "read_loop sk rs (sc_decoder s1) = (d, es2, ps)"
  shows "decoded_so_far sk (observe t (s1\<lparr>sc_decoder := d\<rparr>, es @ es2 @ map (LkPacket q) ps) w)"
proof -
  obtain b c where seg: "segment [] [] (lw_log w @ es) = (b, c)" by fastforce
  from read_loop_spec [OF assms(3)] obtain cs where cs:
    "\<forall>b c. segment b c es2 = (b, c @ cs)" "completed_packets es2 = []" "ps = decode_all sk (sc_decoder s1) cs"
    "\<forall>up. link_after up es2 \<longrightarrow> d = feed_decoder sk (sc_decoder s1) cs \<and> up" by blast
  have "sc_decoder s1 = feed_decoder sk (sk_fresh sk) c"
    using assms(1,2) seg by (simp add: decoded_so_far_def)
  moreover have "segment [] [] (lw_log w @ es @ es2 @ map (LkPacket q) ps) = (b, c @ cs)"
    using seg cs(1) by (auto simp: segment_append split: prod.splits)
  ultimately show ?thesis
    using assms(1) seg cs by (auto simp: decoded_so_far_def)
qed

lemma decoded_ensure_connected:
  assumes "decoded_so_far sk w" "ensure_connected sk env (lw_client w) = (up, s1, es)" "admissible env w"
  shows "decoded_so_far sk (observe t (s1, es) w) \<and> (up \<longrightarrow> link_after (lw_up w) es)"
  using assms
  by (auto simp: decoded_so_far_def ensure_connected_def Let_def segment_append admissible_def
      split: prod.splits if_splits)

lemma decoded_observe_write:
  assumes "decoded_so_far sk (observe t (s1, es) w)"
  shows "decoded_so_far sk (observe t (s1, es @ [LkWrite f ok]) w)"
    and "decoded_so_far sk (observe t (s1, es @ [LkWrite f ok, LkStop]) w)"
  using assms by (auto simp: decoded_so_far_def segment_append split: prod.splits)

lemma decoded_worker:
  assumes "decoded_so_far sk w" "admissible env w"
  shows "decoded_so_far sk (observe t (worker_iteration sk env (lw_client w)) w)"
proof -
  obtain up s1 es where e: "ensure_connected sk env (lw_client w) = (up, s1, es)" by (metis prod_cases3)
  obtain d rs ps where r: "read_loop sk (le_reads env) (sc_decoder s1) = (d, rs, ps)" by (metis prod_cases3)
  show ?thesis
    using decoded_ensure_connected [OF assms(1) e assms(2), of t] decoded_observe_more [OF _ _ r]
    by (auto simp: worker_iteration_def e r)
qed

lemma decoded_send:
  assumes "decoded_so_far sk w" "admissible env w"
  shows "decoded_so_far sk (observe t (snd (transport_send sk env packet (lw_client w))) w)"
proof -
  obtain up s1 es where e: "ensure_connected sk env (lw_client w) = (up, s1, es)" by (metis prod_cases3)
  have quiet: "decoded_so_far sk (observe t (lw_client w, []) w)"
    using decoded_observe_quiet [OF assms(1), of "(lw_client w, [])"] by simp
  show ?thesis
    using decoded_ensure_connected [OF assms(1) e assms(2), of t] quiet decoded_observe_write [of sk t s1 es w]
    by (auto simp: transport_send_def e split: option.splits)
qed

lemma decoded_step:
  assumes "decoded_so_far sk w" "tcp_do sk op w = Some w'"
  shows "decoded_so_far sk w'"
  using assms(2) [unfolded tcp_do_def]
proof (cases rule: link_do_cases)
  case (init started cfg)
  then show ?thesis
    using decoded_observe_quiet [OF assms(1), of "(snd (transport_initialize started cfg (lw_client w)), [])"]
    by (auto simp: transport_initialize_def)
next
  case shut
  then show ?thesis
    using decoded_observe_quiet [OF assms(1), of "(lw_client w, [])"]
      decoded_observe_down [OF assms(1), of "transport_shutdown sk (lw_client w)"]
    by (auto simp: transport_shutdown_def split: if_splits)
next
  case (receiver r)
  then show ?thesis
    using decoded_observe_quiet [OF assms(1), of "(transport_set_receiver r (lw_client w), [])"]
    by (simp add: transport_set_receiver_def)
qed (use assms(1) decoded_worker decoded_send in auto)

text \<open>C30: Over any history of the TCP client transport (initialised and shut down any number of times,
  sends and worker iterations in any order, connections made, lost and refused at any moment), the
  packets completed are exactly those the frame decoder gives when each connection's bytes are
  decoded on their own from a fresh decoder: a frame cut off by a lost connection never reaches into
  the next one.\<close>

theorem tcp_frames_per_connection:
  assumes "link_run (tcp_do sk) ops \<lparr>lw_client = s, lw_up = False, lw_now = t, lw_log = []\<rparr> = Some w"
  shows "completed_packets (lw_log w) = concat (map (decode_all sk (sk_fresh sk)) (connections (lw_log w)))"
proof -
  have "decoded_so_far sk \<lparr>lw_client = s, lw_up = False, lw_now = t, lw_log = []\<rparr>"
    by (simp add: decoded_so_far_def)
  then have "decoded_so_far sk w"
    using link_run_invariant [where I = "decoded_so_far sk", OF _ _ assms] decoded_step by blast
  then show ?thesis by (auto simp: decoded_so_far_def connections_def split: prod.splits)
qed

text \<open>A concrete codec for the examples: a length byte, then that many bytes; an empty frame is invalid.\<close>

fun demo_push :: "bytes \<Rightarrow> bytes \<Rightarrow> bool \<times> bytes \<times> bytes list" where
  "demo_push [] d = (True, d, [])"
| "demo_push (b # bs) d = (let d1 = d @ [b] in
     if hd d1 = 0 then (False, [], [])
     else if length d1 = Suc (unat (hd d1))
     then (let (v, d2, ps) = demo_push bs [] in (v, d2, tl d1 # ps))
     else demo_push bs d1)"

definition demo_sockets :: "bytes sockets_library" where
  "demo_sockets = \<lparr>sk_max_packet = 255, sk_fresh = [], sk_push = demo_push,
     sk_frame = (\<lambda>p. word_of_nat (length p) # p)\<rparr>"

definition demo_tcp :: tcp_config where
  "demo_tcp = \<lparr>tc_host = ''host'', tc_port = 7000, tc_interval = 2000\<rparr>"

definition demo_stream :: "(bytes, tcp_config) stream_client" where
  "demo_stream = \<lparr>sc_config = demo_tcp, sc_decoder = [], sc_receiver = Some 1, sc_last = 0, sc_initialized = False\<rparr>"

definition demo_tcp_ops :: "tcp_config link_op list" where
  "demo_tcp_ops = [DoInit True demo_tcp,
     DoWork \<lparr>le_connected = False, le_now = 3000000000, le_connect = True, le_reads = [Some [2, 65, 66, 3, 67]], le_write = True\<rparr>,
     DoWork \<lparr>le_connected = False, le_now = 6000000000, le_connect = True, le_reads = [Some [1], Some [68]], le_write = True\<rparr>]"

lemma tcp_frames_per_connection_witness:
  "case link_run (tcp_do demo_sockets) demo_tcp_ops \<lparr>lw_client = demo_stream, lw_up = False, lw_now = 0, lw_log = []\<rparr>
   of None \<Rightarrow> False
    | Some w \<Rightarrow> connections (lw_log w) = [[], [[2, 65, 66, 3, 67]], [[1], [68]]] \<and>
        completed_packets (lw_log w) = [[65, 66], [68]] \<and>
        completed_packets (lw_log w) = concat (map (decode_all demo_sockets (sk_fresh demo_sockets)) (connections (lw_log w)))"
proof -
  obtain w where w: "link_run (tcp_do demo_sockets) demo_tcp_ops
      \<lparr>lw_client = demo_stream, lw_up = False, lw_now = 0, lw_log = []\<rparr> = Some w"
    and c: "connections (lw_log w) = [[], [[2, 65, 66, 3, 67]], [[1], [68]]]" "completed_packets (lw_log w) = [[65, 66], [68]]"
    by (simp add: demo_tcp_ops_def demo_tcp_def demo_stream_def demo_sockets_def tcp_do_def link_do_def
        Let_def observe_def transport_initialize_def admissible_def worker_iteration_def
        ensure_connected_def now_ms_def connections_def)
  show ?thesis using tcp_frames_per_connection [OF w] c w by simp
qed

section \<open>Pacing of reconnects\<close>

text \<open>
  The contract of an \<open>EnsureConnectedLocked\<close>: when it tries to connect, the interval has passed since
  the time noted, in the wrapping 32-bit milliseconds the code compares, and the time is noted;
  otherwise the time noted stays, unless the interval had passed too. The lemmas say what this
  means on the 64-bit clock.
\<close>

definition ms_of :: "u64 \<Rightarrow> nat" where
  "ms_of ns = unat ns div 1000000"

lemma now_ms_eq: "now_ms ns = of_nat (ms_of ns)"
  by (simp add: now_ms_def ms_of_def word_unat_eq_iff unsigned_ucast_eq unsigned_of_nat take_bit_eq_mod unat_div_distrib)

lemma ms_of_mono: "a \<le> b \<Longrightarrow> ms_of a \<le> ms_of b"
  by (simp add: ms_of_def div_le_mono word_le_nat_alt)

fun spaced :: "nat \<Rightarrow> nat \<Rightarrow> nat list \<Rightarrow> bool" where
  "spaced gap from [] = True"
| "spaced gap from (t # ts) = (from + gap \<le> t \<and> spaced gap t ts)"

lemma spaced_snoc [simp]:
  "spaced gap from (ts @ [t]) \<longleftrightarrow> spaced gap from ts \<and> last (from # ts) + gap \<le> t"
  by (induction ts arbitrary: "from") auto

text \<open>\<open>paced\<close>: the attempts are spaced, and the time noted is a real time not after \<open>t\<close> and not before
  the last attempt.\<close>

definition paced :: "nat \<Rightarrow> u32 \<Rightarrow> u64 list \<Rightarrow> u64 \<Rightarrow> bool" where
  "paced gap noted ts t \<longleftrightarrow> spaced gap 0 (map ms_of ts) \<and>
     (\<exists>r. r \<le> ms_of t \<and> noted = of_nat r \<and> last (0 # map ms_of ts) \<le> r)"

lemma elapsed_le:
  assumes "r \<le> n" shows "unat ((of_nat n :: u32) - of_nat r) \<le> n - r"
  using assms by (metis of_nat_diff unat_of_nat mod_less_eq_dividend)

locale reconnecting =
  fixes ensure :: "'e \<Rightarrow> 's \<Rightarrow> bool \<times> 's \<times> 'c list"
    and noted :: "'s \<Rightarrow> u32"
    and interval :: "'s \<Rightarrow> u32"
    and clock :: "'e \<Rightarrow> u64"
    and attempts :: "'c list \<Rightarrow> u64 list"
  assumes attempt: "ensure e s = (up, s', cs) \<Longrightarrow>
      attempts cs = [] \<and> noted s' = noted s \<or>
      interval s \<le> now_ms (clock e) - noted s \<and> noted s' = now_ms (clock e) \<and>
        (attempts cs = [] \<or> attempts cs = [clock e])"
begin

lemma ensure_paced:
  assumes "ensure e s = (up, s', cs)" "paced gap (noted s) ts t" "t \<le> clock e" "gap \<le> unat (interval s)"
  shows "paced gap (noted s') (ts @ attempts cs) (clock e)"
proof -
  from assms(2) obtain r where r: "spaced gap 0 (map ms_of ts)" "r \<le> ms_of t" "noted s = of_nat r"
    "last (0 # map ms_of ts) \<le> r" by (auto simp: paced_def)
  have n: "r \<le> ms_of (clock e)" using r(2) ms_of_mono [OF assms(3)] by simp
  have gap: "r + gap \<le> ms_of (clock e)" if "interval s \<le> now_ms (clock e) - noted s"
  proof -
    have "gap \<le> unat (now_ms (clock e) - noted s)" using that assms(4) by (simp add: word_le_nat_alt)
    also have "\<dots> \<le> ms_of (clock e) - r" using elapsed_le [OF n] by (simp add: now_ms_eq r(3))
    finally show ?thesis using n by simp
  qed
  from attempt [OF assms(1)] show ?thesis
  proof (elim disjE conjE)
    assume "attempts cs = []" "noted s' = noted s"
    then show ?thesis using r n by (auto simp: paced_def)
  next
    assume a: "interval s \<le> now_ms (clock e) - noted s" "noted s' = now_ms (clock e)" "attempts cs = []"
    then show ?thesis using r n
      by (auto simp: paced_def now_ms_eq intro!: exI [of _ "ms_of (clock e)"])
  next
    assume a: "interval s \<le> now_ms (clock e) - noted s" "noted s' = now_ms (clock e)" "attempts cs = [clock e]"
    then show ?thesis using r n gap [OF a(1)]
      by (auto simp: paced_def now_ms_eq intro!: exI [of _ "ms_of (clock e)"])
  qed
qed

end

lemma paced_later: "paced gap v ts t \<Longrightarrow> t \<le> u \<Longrightarrow> paced gap v ts u"
  using ms_of_mono order_trans by (fastforce simp: paced_def)

fun attempt_times :: "link_event list \<Rightarrow> u64 list" where
  "attempt_times [] = []"
| "attempt_times (LkConnect h p t ok # es) = t # attempt_times es"
| "attempt_times (e # es) = attempt_times es"

lemma attempt_times_append [simp]: "attempt_times (xs @ ys) = attempt_times xs @ attempt_times ys"
  by (induction xs rule: attempt_times.induct) auto

lemma attempt_times_packets [simp]: "attempt_times (map (LkPacket r) ps) = []"
  by (induction ps) auto

lemma attempt_times_security [simp]: "attempt_times (configure_security cfg) = []"
  by (auto simp: configure_security_def split: option.splits)

lemma attempt_times_read_loop: "read_loop sk rs d = (d2, es, ps) \<Longrightarrow> attempt_times es = []"
  by (induction sk rs d arbitrary: d2 es ps rule: read_loop.induct)
    (fastforce split: prod.splits if_splits)+

interpretation tcp_pace: reconnecting "ensure_connected sk" sc_last "\<lambda>s. tc_interval (sc_config s)" le_now attempt_times
  by unfold_locales (auto simp: ensure_connected_def Let_def not_less split: if_splits)

interpretation tls_pace: reconnecting "tls_ensure_connected sk" sc_last "\<lambda>s. tc_interval (sc_config s)" le_now attempt_times
  by unfold_locales (auto simp: tls_ensure_connected_def Let_def not_less split: if_splits)

definition paced_world :: "nat \<Rightarrow> ('d, 'a tcp_config_scheme) link_world \<Rightarrow> bool" where
  "paced_world gap w \<longleftrightarrow> paced gap (sc_last (lw_client w)) (attempt_times (lw_log w)) (lw_now w) \<and>
     (sc_initialized (lw_client w) \<longrightarrow> gap \<le> unat (tc_interval (sc_config (lw_client w))))"

lemma ensure_connected_config:
  "ensure_connected sk env s = (up, s1, es) \<Longrightarrow> sc_config s1 = sc_config s \<and> sc_initialized s1 = sc_initialized s"
  by (auto simp: ensure_connected_def Let_def split: if_splits)

lemma paced_worker:
  assumes "paced_world gap w" "sc_initialized (lw_client w)" "admissible env w"
  shows "paced_world gap (observe (le_now env) (worker_iteration sk env (lw_client w)) w)"
proof -
  obtain up s1 es where e: "ensure_connected sk env (lw_client w) = (up, s1, es)" by (metis prod_cases3)
  obtain d rs ps where r: "read_loop sk (le_reads env) (sc_decoder s1) = (d, rs, ps)" by (metis prod_cases3)
  show ?thesis
    using assms tcp_pace.ensure_paced [OF e] ensure_connected_config [OF e] attempt_times_read_loop [OF r]
    by (auto simp: worker_iteration_def e r paced_world_def admissible_def)
qed

lemma paced_send:
  assumes "paced_world gap w" "admissible env w"
  shows "paced_world gap (observe (le_now env) (snd (transport_send sk env packet (lw_client w))) w)"
proof -
  obtain up s1 es where e: "ensure_connected sk env (lw_client w) = (up, s1, es)" by (metis prod_cases3)
  have quiet: "paced_world gap (observe (le_now env) (lw_client w, []) w)"
    using assms paced_later by (fastforce simp: paced_world_def admissible_def)
  show ?thesis
    using assms tcp_pace.ensure_paced [OF e] ensure_connected_config [OF e] quiet
    by (auto simp: transport_send_def e paced_world_def admissible_def split: option.splits)
qed

lemma paced_step:
  assumes "paced_world gap w" "tcp_do sk op w = Some w'"
    "\<And>started cfg. op = DoInit started cfg \<Longrightarrow> gap \<le> unat (tc_interval cfg)"
  shows "paced_world gap w'"
  using assms(2) [unfolded tcp_do_def]
proof (cases rule: link_do_cases)
  case (init started cfg)
  then show ?thesis using assms(1,3) by (auto simp: transport_initialize_def paced_world_def)
next
  case shut
  then show ?thesis using assms(1) by (auto simp: transport_shutdown_def paced_world_def)
next
  case (receiver r)
  then show ?thesis using assms(1) by (simp add: transport_set_receiver_def paced_world_def)
qed (use assms(1) paced_worker paced_send in auto)

text \<open>C32: Whatever the application and the worker do, two attempts to connect of a TCP client transport
  are at least the reconnect interval apart in real milliseconds, the first one at least the interval
  after the start of the clock, although the code compares milliseconds that wrap after 49.7 days;
  \<open>gap\<close> is any lower bound of the intervals the transport is initialised with.\<close>

theorem tcp_attempts_spaced:
  assumes "link_run (tcp_do sk) ops \<lparr>lw_client = s, lw_up = False, lw_now = 0, lw_log = []\<rparr> = Some w"
    and "\<not> sc_initialized s" "sc_last s = 0"
    and "\<forall>started cfg. DoInit started cfg \<in> set ops \<longrightarrow> gap \<le> unat (tc_interval cfg)"
  shows "spaced gap 0 (map ms_of (attempt_times (lw_log w)))"
proof -
  have "paced_world gap \<lparr>lw_client = s, lw_up = False, lw_now = 0, lw_log = []\<rparr>"
    using assms(2,3) by (auto simp: paced_world_def paced_def intro!: exI [of _ 0])
  then have "paced_world gap w"
    by (rule link_run_invariant [where I = "paced_world gap", rotated, OF _ assms(1)])
      (use assms(4) paced_step in blast)
  then show ?thesis by (simp add: paced_world_def paced_def)
qed

lemma tcp_attempts_spaced_witness:
  "case link_run (tcp_do demo_sockets) demo_tcp_ops \<lparr>lw_client = demo_stream, lw_up = False, lw_now = 0, lw_log = []\<rparr>
   of None \<Rightarrow> False
    | Some w \<Rightarrow> map ms_of (attempt_times (lw_log w)) = [3000, 6000] \<and>
        spaced 2000 0 (map ms_of (attempt_times (lw_log w)))"
proof -
  obtain w where w: "link_run (tcp_do demo_sockets) demo_tcp_ops
      \<lparr>lw_client = demo_stream, lw_up = False, lw_now = 0, lw_log = []\<rparr> = Some w"
    and c: "map ms_of (attempt_times (lw_log w)) = [3000, 6000]"
    by (simp add: demo_tcp_ops_def demo_tcp_def demo_stream_def demo_sockets_def tcp_do_def link_do_def
        Let_def observe_def transport_initialize_def admissible_def worker_iteration_def
        ensure_connected_def now_ms_def ms_of_def)
  have "spaced 2000 0 (map ms_of (attempt_times (lw_log w)))"
    by (rule tcp_attempts_spaced [OF w]) (auto simp: demo_stream_def demo_tcp_ops_def demo_tcp_def)
  then show ?thesis using c w by simp
qed

section \<open>The TLS client is the TCP client with its security configured\<close>

fun security_event :: "link_event \<Rightarrow> bool" where
  "security_event LkInsecure = True"
| "security_event (LkCACert c) = True"
| "security_event (LkCertificate c) = True"
| "security_event (LkPrivateKey c) = True"
| "security_event e = False"

abbreviation plain :: "link_event list \<Rightarrow> link_event list" where
  "plain \<equiv> filter (\<lambda>e. \<not> security_event e)"

definition without_security :: "('d, 'c) link_world \<Rightarrow> ('d, 'c) link_world" where
  "without_security w = w\<lparr>lw_log := plain (lw_log w)\<rparr>"

lemma without_security_simps [simp]:
  "lw_client (without_security w) = lw_client w" "lw_up (without_security w) = lw_up w"
  "lw_now (without_security w) = lw_now w" "lw_log (without_security w) = plain (lw_log w)"
  "admissible env (without_security w) = admissible env w"
  by (simp_all add: without_security_def admissible_def)

lemma plain_security [simp]: "plain (configure_security cfg) = []"
  by (auto simp: configure_security_def split: option.splits)

lemma link_after_security [simp]: "link_after up (configure_security cfg) = up"
  by (auto simp: configure_security_def split: option.splits)

lemma link_after_plain [simp]: "link_after up (plain es) = link_after up es"
  by (induction up es rule: link_after.induct) auto

lemma plain_packets [simp]: "plain (map (LkPacket r) ps) = map (LkPacket r) ps"
  by (induction ps) auto

lemma plain_read_loop: "read_loop sk rs d = (d2, es, ps) \<Longrightarrow> plain es = es"
  by (induction sk rs d arbitrary: d2 es ps rule: read_loop.induct)
    (fastforce split: prod.splits if_splits)+

lemma tls_ensure_plain:
  "tls_ensure_connected sk env s = (up, s1, es) \<Longrightarrow> ensure_connected sk env s = (up, s1, plain es)"
  by (auto simp: tls_ensure_connected_def ensure_connected_def Let_def split: if_splits)

lemma observe_plain:
  "without_security (observe t (s, es) w) = observe t (s, plain es) (without_security w)"
  by (simp add: without_security_def observe_def)

lemma tls_worker_plain:
  "tls_worker_iteration sk env s = (s1, es) \<Longrightarrow> worker_iteration sk env s = (s1, plain es)"
  by (auto simp: tls_worker_iteration_def worker_iteration_def plain_read_loop
      dest: tls_ensure_plain split: prod.splits if_splits)

lemma tls_send_plain:
  "tls_send sk env p s = (r, s1, es) \<Longrightarrow> transport_send sk env p s = (r, s1, plain es)"
  by (auto simp: tls_send_def transport_send_def Let_def
      dest: tls_ensure_plain split: prod.splits if_splits option.splits)

lemma tls_step_plain: "map_option without_security (tls_do sk op w) = tcp_do sk op (without_security w)"
proof (cases op)
  case (DoInit started cfg)
  then show ?thesis
    by (simp add: tls_do_def tcp_do_def link_do_def Let_def observe_plain tls_initialize_def transport_initialize_def)
next
  case DoShutdown
  then show ?thesis
    by (simp add: tls_do_def tcp_do_def link_do_def Let_def observe_plain tls_shutdown_def transport_shutdown_def)
next
  case (DoWork env)
  obtain s es where e: "tls_worker_iteration sk env (lw_client w) = (s, es)" by fastforce
  show ?thesis using DoWork tls_worker_plain [OF e]
    by (simp add: tls_do_def tcp_do_def link_do_def Let_def observe_plain e)
next
  case (DoSend env p)
  obtain r s es where e: "tls_send sk env p (lw_client w) = (r, s, es)" by (metis prod_cases3)
  show ?thesis using DoSend tls_send_plain [OF e]
    by (simp add: tls_do_def tcp_do_def link_do_def Let_def observe_plain e)
next
  case (DoReceiver r)
  then show ?thesis
    by (simp add: tls_do_def tcp_do_def link_do_def Let_def observe_plain tls_set_receiver_def transport_set_receiver_def)
qed

lemma tls_run_plain:
  "map_option without_security (link_run (tls_do sk) ops w) = link_run (tcp_do sk) ops (without_security w)"
proof (induction ops arbitrary: w)
  case (Cons op ops)
  show ?case using tls_step_plain [of sk op w, symmetric] Cons.IH by (cases "tls_do sk op w") auto
qed simp

text \<open>Every connect of a log comes right after the stop and the security settings.\<close>

definition secured :: "'a tls_config_scheme \<Rightarrow> link_event list \<Rightarrow> bool" where
  "secured cfg es \<longleftrightarrow> (\<forall>xs h p t ok ys. es = xs @ LkConnect h p t ok # ys \<longrightarrow>
     h = c_string (tc_host cfg) \<and> p = tc_port cfg \<and> (\<exists>zs. xs = zs @ LkStop # configure_security cfg))"

lemma securedI_no_connect: "(\<And>h p t ok. LkConnect h p t ok \<notin> set es) \<Longrightarrow> secured cfg es"
  unfolding secured_def by (metis in_set_conv_decomp)

lemma secured_append:
  assumes "secured cfg es" "secured cfg fs" shows "secured cfg (es @ fs)"
  unfolding secured_def
proof (intro allI impI)
  fix xs h p t ok ys
  note e = assms(1) [unfolded secured_def, rule_format]
  note f = assms(2) [unfolded secured_def, rule_format]
  assume eq: "es @ fs = xs @ LkConnect h p t ok # ys"
  from eq consider us where "es = xs @ us" "us @ fs = LkConnect h p t ok # ys"
    | us where "es @ us = xs" "fs = us @ LkConnect h p t ok # ys"
    by (auto simp: append_eq_append_conv2)
  then show "h = c_string (tc_host cfg) \<and> p = tc_port cfg \<and> (\<exists>zs. xs = zs @ LkStop # configure_security cfg)"
  proof cases
    case 1
    show ?thesis
    proof (cases us)
      case Nil
      then show ?thesis using f [of "[]" h p t ok ys] 1(2) by simp
    next
      case (Cons u vs)
      then show ?thesis using e [of xs h p t ok vs] 1 by simp
    qed
  next
    case 2
    then show ?thesis using f [of us h p t ok ys] by auto
  qed
qed

lemma secured_attempt:
  "secured cfg (LkStop # configure_security cfg @ [LkConnect (c_string (tc_host cfg)) (tc_port cfg) t ok])"
  by (auto simp: secured_def configure_security_def Cons_eq_append_conv append_eq_append_conv2
      split: option.splits if_splits)

lemma secured_ensure:
  "tls_ensure_connected sk env s = (up, s1, es) \<Longrightarrow>
     secured (sc_config s) es \<and> sc_config s1 = sc_config s \<and> sc_initialized s1 = sc_initialized s"
  by (auto simp: tls_ensure_connected_def Let_def secured_attempt intro: securedI_no_connect split: if_splits)

lemma read_loop_no_connect: "read_loop sk rs d = (d2, es, ps) \<Longrightarrow> LkConnect h p t ok \<notin> set es"
  by (induction sk rs d arbitrary: d2 es ps rule: read_loop.induct)
    (fastforce split: prod.splits if_splits)+

definition secured_world :: "'a tls_config_scheme \<Rightarrow> ('d, 'a tls_config_scheme) link_world \<Rightarrow> bool" where
  "secured_world cfg w \<longleftrightarrow> secured cfg (lw_log w) \<and>
     (sc_initialized (lw_client w) \<longrightarrow> sc_config (lw_client w) = cfg)"

lemma secured_worker:
  assumes "secured_world cfg w" "sc_initialized (lw_client w)"
  shows "secured_world cfg (observe t (tls_worker_iteration sk env (lw_client w)) w)"
proof -
  obtain up s1 es where e: "tls_ensure_connected sk env (lw_client w) = (up, s1, es)" by (metis prod_cases3)
  obtain d rs ps where r: "read_loop sk (le_reads env) (sc_decoder s1) = (d, rs, ps)" by (metis prod_cases3)
  have "secured cfg (rs @ map (LkPacket (sc_receiver s1)) ps)"
    using read_loop_no_connect [OF r] by (auto intro!: securedI_no_connect)
  then show ?thesis
    using assms secured_ensure [OF e]
    by (auto simp: tls_worker_iteration_def e r secured_world_def intro!: secured_append)
qed

lemma secured_send:
  assumes "secured_world cfg w"
  shows "secured_world cfg (observe t (snd (tls_send sk env packet (lw_client w))) w)"
proof -
  obtain up s1 es where e: "tls_ensure_connected sk env (lw_client w) = (up, s1, es)" by (metis prod_cases3)
  have "secured cfg [LkWrite f ok]" "secured cfg [LkWrite f ok, LkStop]" for f ok
    by (auto intro: securedI_no_connect)
  then show ?thesis
    using assms secured_ensure [OF e]
    by (auto simp: tls_send_def e secured_world_def intro!: secured_append split: option.splits)
qed

lemma secured_step:
  assumes "secured_world cfg w" "tls_do sk op w = Some w'"
    "\<And>started c. op = DoInit started c \<Longrightarrow> c = cfg"
  shows "secured_world cfg w'"
  using assms(2) [unfolded tls_do_def]
proof (cases rule: link_do_cases)
  case (init started c)
  then show ?thesis using assms(1,3) by (auto simp: tls_initialize_def secured_world_def)
next
  case shut
  have "secured cfg [LkStop]" by (auto intro: securedI_no_connect)
  then show ?thesis using shut assms(1) by (auto simp: tls_shutdown_def secured_world_def intro: secured_append)
next
  case (receiver r)
  then show ?thesis using assms(1) by (simp add: tls_set_receiver_def secured_world_def)
qed (use assms(1) secured_worker secured_send in auto)

text \<open>C31: The TLS client transport does in every history exactly what the TCP client transport does,
  with the same results, states, reads, writes and packets, except that each connect comes directly
  after a stop and the security settings of its configuration: either verification switched off
  alone, or the authority and, when both are given, certificate and key. (The last part is stated for
  a history that initialises with one configuration only, any number of times.)\<close>

theorem tls_is_secured_tcp:
  "map_option without_security (link_run (tls_do sk) ops w0) =
      link_run (tcp_do sk) ops (without_security w0) \<and>
   (link_run (tls_do sk) ops \<lparr>lw_client = s, lw_up = False, lw_now = t, lw_log = []\<rparr> = Some w \<longrightarrow>
      \<not> sc_initialized s \<longrightarrow> (\<forall>started c. DoInit started c \<in> set ops \<longrightarrow> c = cfg) \<longrightarrow>
      secured cfg (lw_log w))"
proof (intro conjI impI)
  show "map_option without_security (link_run (tls_do sk) ops w0) =
      link_run (tcp_do sk) ops (without_security w0)" by (rule tls_run_plain)
next
  assume r: "link_run (tls_do sk) ops \<lparr>lw_client = s, lw_up = False, lw_now = t, lw_log = []\<rparr> = Some w"
    and s: "\<not> sc_initialized s" and c: "\<forall>started c. DoInit started c \<in> set ops \<longrightarrow> c = cfg"
  have "secured_world cfg \<lparr>lw_client = s, lw_up = False, lw_now = t, lw_log = []\<rparr>"
    using s by (simp add: secured_world_def secured_def)
  then have "secured_world cfg w"
    by (rule link_run_invariant [where I = "secured_world cfg", rotated, OF _ r]) (use c secured_step in blast)
  then show "secured cfg (lw_log w)" by (simp add: secured_world_def)
qed

definition demo_tls :: tls_config where
  "demo_tls = \<lparr>tc_host = ''host'', tc_port = 8883, tc_interval = 2000, tl_ca = Some ''ca'',
     tl_certificate = Some ''crt'', tl_key = None, tl_insecure = False\<rparr>"

definition demo_tls_stream :: "(bytes, tls_config) stream_client" where
  "demo_tls_stream = \<lparr>sc_config = demo_tls, sc_decoder = [], sc_receiver = Some 1, sc_last = 0, sc_initialized = False\<rparr>"

definition demo_tls_ops :: "tls_config link_op list" where
  "demo_tls_ops = [DoInit True demo_tls,
     DoSend \<lparr>le_connected = False, le_now = 3000000000, le_connect = True, le_reads = [], le_write = True\<rparr> (Some [7])]"

lemma tls_is_secured_tcp_witness:
  "case link_run (tls_do demo_sockets) demo_tls_ops \<lparr>lw_client = demo_tls_stream, lw_up = False, lw_now = 0, lw_log = []\<rparr> of
     None \<Rightarrow> False
   | Some w \<Rightarrow> lw_log w = [LkStop, LkCACert ''ca'', LkConnect ''host'' 8883 3000000000 True, LkWrite [1, 7] True] \<and>
       secured demo_tls (lw_log w)"
proof -
  obtain w where w: "link_run (tls_do demo_sockets) demo_tls_ops
      \<lparr>lw_client = demo_tls_stream, lw_up = False, lw_now = 0, lw_log = []\<rparr> = Some w"
    and c: "lw_log w = [LkStop, LkCACert ''ca'', LkConnect ''host'' 8883 3000000000 True, LkWrite [1, 7] True]"
    by (simp add: demo_tls_ops_def demo_tls_def demo_tls_stream_def demo_sockets_def tls_do_def link_do_def
        Let_def observe_def tls_initialize_def admissible_def tls_send_def tls_ensure_connected_def
        now_ms_def configure_security_def c_string_def)
  have "secured demo_tls (lw_log w)"
    using tls_is_secured_tcp [of demo_sockets demo_tls_ops _ demo_tls_stream 0 w demo_tls] w
    by (simp add: demo_tls_stream_def demo_tls_ops_def)
  then show ?thesis using c w by simp
qed

end
