(* ===== verification/Tcp_Server_Transport.thy ===== *)
theory Tcp_Server_Transport
  imports Event_Transport
begin

text \<open>
  src/ESPressio_TCPServerEventTransport.hpp: the event transport of a TCP server, with its array of
  client slots.

  A network client is its identity, a number, and each one the server hands out is new; a slot that
  never had one holds \<open>None\<close>. Whether a
  client is connected and what reading it gives are answers of the environment of a call, one for
  the search of a slot and one for the rest of the call; every call made on a client is an event.
\<close>

record 'd server_slot =
  ss_client :: "nat option"
  ss_decoder :: 'd
  ss_active :: bool

record 'd tcp_server =
  sv_server :: bool
  sv_slots :: "'d server_slot list"
  sv_port :: u16
  sv_max_clients :: nat
  sv_receiver :: "nat option"
  sv_initialized :: bool

record server_env =
  ve_incoming :: "nat option"
  ve_free_connected :: "nat \<Rightarrow> bool"
  ve_connected :: "nat \<Rightarrow> bool"
  ve_reads :: "nat \<Rightarrow> bytes option list"
  ve_write :: "nat \<Rightarrow> bool"

datatype server_event =
    SvBegin u16
  | SvEnd
  | SvStop "nat option"
  | SvAccept nat
  | SvRead nat bytes
  | SvReadNone nat
  | SvWrite nat bytes bool
  | SvPacket "nat option" bytes

definition slot_connected :: "(nat \<Rightarrow> bool) \<Rightarrow> 'd server_slot \<Rightarrow> bool" where
  "slot_connected connected x = (case ss_client x of None \<Rightarrow> False | Some c \<Rightarrow> connected c)"

definition slot_limit :: "'d tcp_server \<Rightarrow> nat" where
  "slot_limit s = min (sv_max_clients s) (length (sv_slots s))"

section \<open>Accepting\<close>

text \<open>The search from the head of the list, among the first \<open>n\<close> slots.\<close>

fun place_client ::
    "'d \<Rightarrow> (nat \<Rightarrow> bool) \<Rightarrow> nat \<Rightarrow> nat \<Rightarrow> 'd server_slot list \<Rightarrow> ('d server_slot list \<times> server_event list) option" where
  "place_client fresh connected c 0 xs = None"
| "place_client fresh connected c (Suc n) [] = None"
| "place_client fresh connected c (Suc n) (x # xs) =
     (if \<not> ss_active x \<or> \<not> slot_connected connected x
      then Some (\<lparr>ss_client = Some c, ss_decoder = fresh, ss_active = True\<rparr> # xs, [SvStop (ss_client x), SvAccept c])
      else map_option (\<lambda>(ys, es). (x # ys, es)) (place_client fresh connected c n xs))"

definition accept_clients ::
    "'d sockets_library \<Rightarrow> server_env \<Rightarrow> 'd tcp_server \<Rightarrow> 'd tcp_server \<times> server_event list" where
  "accept_clients sk env s =
     (if \<not> sv_server s then (s, [])
      else (case ve_incoming env of
          None \<Rightarrow> (s, [])
        | Some c \<Rightarrow>
            (case place_client (sk_fresh sk) (ve_free_connected env) c (slot_limit s) (sv_slots s) of
               None \<Rightarrow> (s, [SvStop (Some c)])
             | Some (xs, es) \<Rightarrow> (s\<lparr>sv_slots := xs\<rparr>, es))))"

section \<open>Reading\<close>

text \<open>The loop over what is available of client \<open>c\<close>; the slot is inactive after invalid data.\<close>

fun read_client ::
    "'d sockets_library \<Rightarrow> nat \<Rightarrow> bytes option list \<Rightarrow> 'd server_slot \<Rightarrow> 'd server_slot \<times> server_event list \<times> bytes list" where
  "read_client sk c [] x = (x, [], [])"
| "read_client sk c (None # rs) x = (x, [SvReadNone c], [])"
| "read_client sk c (Some chunk # rs) x =
     (let (valid, d, completed) = sk_push sk chunk (ss_decoder x); x1 = x\<lparr>ss_decoder := d\<rparr>
      in if \<not> valid then (x1\<lparr>ss_active := False\<rparr>, [SvRead c chunk, SvStop (Some c)], completed)
         else (let (x2, es, more) = read_client sk c rs x1 in (x2, SvRead c chunk # es, completed @ more)))"

definition serve_slot ::
    "'d sockets_library \<Rightarrow> server_env \<Rightarrow> 'd server_slot \<Rightarrow> 'd server_slot \<times> server_event list \<times> bytes list" where
  "serve_slot sk env x =
     (if \<not> ss_active x then (x, [], [])
      else (case ss_client x of
          None \<Rightarrow> (x\<lparr>ss_decoder := sk_fresh sk, ss_active := False\<rparr>, [SvStop None], [])
        | Some c \<Rightarrow>
            if \<not> ve_connected env c
            then (x\<lparr>ss_decoder := sk_fresh sk, ss_active := False\<rparr>, [SvStop (Some c)], [])
            else read_client sk c (ve_reads env c) x))"

fun serve_slots ::
    "'d sockets_library \<Rightarrow> server_env \<Rightarrow> nat \<Rightarrow> 'd server_slot list \<Rightarrow> 'd server_slot list \<times> server_event list \<times> bytes list" where
  "serve_slots sk env 0 xs = (xs, [], [])"
| "serve_slots sk env (Suc n) [] = ([], [], [])"
| "serve_slots sk env (Suc n) (x # xs) =
     (let (y, es, ps) = serve_slot sk env x; (ys, fs, qs) = serve_slots sk env n xs
      in (y # ys, es @ fs, ps @ qs))"

definition server_worker_iteration ::
    "'d sockets_library \<Rightarrow> server_env \<Rightarrow> 'd tcp_server \<Rightarrow> 'd tcp_server \<times> server_event list" where
  "server_worker_iteration sk env s =
     (let (s1, es) = accept_clients sk env s;
          (xs, fs, completed) = serve_slots sk env (slot_limit s1) (sv_slots s1)
      in (s1\<lparr>sv_slots := xs\<rparr>, es @ fs @ map (SvPacket (sv_receiver s1)) completed))"

section \<open>Lifecycle and sending\<close>

definition tcp_server_initialize ::
    "bool \<Rightarrow> u16 \<Rightarrow> nat \<Rightarrow> 'd tcp_server \<Rightarrow> bool \<times> 'd tcp_server \<times> server_event list" where
  "tcp_server_initialize started port max_clients s =
     (if sv_initialized s then (True, s, [])
      else if port = 0 \<or> max_clients = 0 then (False, s, [])
      else
        let s1 = s\<lparr>sv_port := port, sv_max_clients := max_clients, sv_server := True\<rparr>
        in if \<not> started then (False, s1\<lparr>sv_server := False\<rparr>, [SvBegin port, SvEnd])
           else (True, s1\<lparr>sv_initialized := True\<rparr>, [SvBegin port]))"

definition tcp_server_shutdown ::
    "'d sockets_library \<Rightarrow> 'd tcp_server \<Rightarrow> 'd tcp_server \<times> server_event list" where
  "tcp_server_shutdown sk s =
     (if \<not> sv_initialized s then (s, [])
      else (s\<lparr>sv_slots := map (\<lambda>x. x\<lparr>ss_decoder := sk_fresh sk, ss_active := False\<rparr>) (sv_slots s),
              sv_server := False, sv_receiver := None, sv_initialized := False\<rparr>,
        map (\<lambda>x. SvStop (ss_client x)) (sv_slots s) @ (if sv_server s then [SvEnd] else [])))"

definition connected_client_count :: "(nat \<Rightarrow> bool) \<Rightarrow> 'd tcp_server \<Rightarrow> nat" where
  "connected_client_count connected s =
     length (filter (\<lambda>x. ss_active x \<and> slot_connected connected x) (sv_slots s))"

text \<open>The loop of Send: whether there was a client, whether all writes succeeded.\<close>

fun send_slots ::
    "server_env \<Rightarrow> bytes \<Rightarrow> 'd server_slot list \<Rightarrow> bool \<times> bool \<times> 'd server_slot list \<times> server_event list" where
  "send_slots env frame [] = (False, True, [], [])"
| "send_slots env frame (x # xs) =
     (let (had, ok, ys, es) = send_slots env frame xs
      in if \<not> ss_active x then (had, ok, x # ys, es)
         else (case ss_client x of
             None \<Rightarrow> (had, ok, x # ys, es)
           | Some c \<Rightarrow>
               if \<not> ve_connected env c then (had, ok, x # ys, es)
               else if \<not> ve_write env c
               then (True, False, x\<lparr>ss_active := False\<rparr> # ys, SvWrite c frame False # SvStop (Some c) # es)
               else (True, ok, x # ys, SvWrite c frame True # es)))"

definition server_send ::
    "'d sockets_library \<Rightarrow> server_env \<Rightarrow> bytes option \<Rightarrow> 'd tcp_server \<Rightarrow> bool \<times> 'd tcp_server \<times> server_event list" where
  "server_send sk env packet s = (case packet of
       None \<Rightarrow> (False, s, [])
     | Some p \<Rightarrow>
         if \<not> sv_initialized s \<or> p = [] \<or> length p > sk_max_packet sk then (False, s, [])
         else if sk_frame sk p = [] then (False, s, [])
         else
           let (had, ok, xs, es) = send_slots env (sk_frame sk p) (sv_slots s)
           in (had \<and> ok, s\<lparr>sv_slots := xs\<rparr>, es))"

definition server_set_receiver :: "nat option \<Rightarrow> 'd tcp_server \<Rightarrow> 'd tcp_server" where
  "server_set_receiver r s = s\<lparr>sv_receiver := r\<rparr>"

section \<open>Histories\<close>

datatype server_op =
    SvInit bool u16 nat
  | SvShutdown
  | SvWork server_env
  | SvSend server_env "bytes option"
  | SvReceiver "nat option"

text \<open>
  Every client the native server hands out is a new one, so an operation with an incoming client seen
  before has no result; the worker runs while the transport is initialised.
\<close>

fun server_do ::
    "'d sockets_library \<Rightarrow> server_op \<Rightarrow> nat set \<times> 'd tcp_server \<Rightarrow> ((nat set \<times> 'd tcp_server) \<times> server_event list) option" where
  "server_do sk (SvInit started port n) (seen, s) = (case tcp_server_initialize started port n s of (r, s1, es) \<Rightarrow> Some ((seen, s1), es))"
| "server_do sk SvShutdown (seen, s) = (case tcp_server_shutdown sk s of (s1, es) \<Rightarrow> Some ((seen, s1), es))"
| "server_do sk (SvWork env) (seen, s) =
     (case ve_incoming env of
        None \<Rightarrow> if sv_initialized s then (case server_worker_iteration sk env s of (s1, es) \<Rightarrow> Some ((seen, s1), es)) else None
      | Some c \<Rightarrow> if sv_initialized s \<and> c \<notin> seen
          then (case server_worker_iteration sk env s of (s1, es) \<Rightarrow> Some ((insert c seen, s1), es)) else None)"
| "server_do sk (SvSend env p) (seen, s) = (case server_send sk env p s of (r, s1, es) \<Rightarrow> Some ((seen, s1), es))"
| "server_do sk (SvReceiver r) (seen, s) = Some ((seen, server_set_receiver r s), [])"

fun server_run ::
    "'d sockets_library \<Rightarrow> server_op list \<Rightarrow> nat set \<times> 'd tcp_server \<Rightarrow> ((nat set \<times> 'd tcp_server) \<times> server_event list) option" where
  "server_run sk [] a = Some (a, [])"
| "server_run sk (op # ops) a = (case server_do sk op a of None \<Rightarrow> None
    | Some (b, es) \<Rightarrow> (case server_run sk ops b of None \<Rightarrow> None | Some (z, fs) \<Rightarrow> Some (z, es @ fs)))"

section \<open>Every client is decoded on its own\<close>

fun server_packets :: "server_event list \<Rightarrow> bytes list" where
  "server_packets [] = []"
| "server_packets (SvPacket r p # es) = p # server_packets es"
| "server_packets (e # es) = server_packets es"

text \<open>The packets of the reads of a log, in their order, with a decoder for each client, and the decoders after it.\<close>

definition with_decoder :: "nat \<Rightarrow> 'd \<Rightarrow> (nat \<Rightarrow> 'd) \<Rightarrow> nat \<Rightarrow> 'd" where
  "with_decoder c d dec = dec(c := d)"

fun server_decode :: "'d sockets_library \<Rightarrow> (nat \<Rightarrow> 'd) \<Rightarrow> server_event list \<Rightarrow> bytes list" where
  "server_decode sk dec [] = []"
| "server_decode sk dec (SvRead c chunk # es) =
     (case sk_push sk chunk (dec c) of (valid, d, ps) \<Rightarrow> ps @ server_decode sk (with_decoder c d dec) es)"
| "server_decode sk dec (e # es) = server_decode sk dec es"

fun decoders_after :: "'d sockets_library \<Rightarrow> (nat \<Rightarrow> 'd) \<Rightarrow> server_event list \<Rightarrow> nat \<Rightarrow> 'd" where
  "decoders_after sk dec [] = dec"
| "decoders_after sk dec (SvRead c chunk # es) =
     decoders_after sk (with_decoder c (fst (snd (sk_push sk chunk (dec c)))) dec) es"
| "decoders_after sk dec (e # es) = decoders_after sk dec es"

lemma with_decoder_simps [simp]:
  "with_decoder c d dec c = d" "b \<noteq> c \<Longrightarrow> with_decoder c d dec b = dec b"
  "with_decoder c d (with_decoder c e dec) = with_decoder c d dec"
  "dec c = d \<Longrightarrow> with_decoder c d dec = dec"
  by (auto simp: with_decoder_def)

lemma server_packets_append [simp]: "server_packets (xs @ ys) = server_packets xs @ server_packets ys"
  by (induction xs rule: server_packets.induct) auto

lemma server_decode_append [simp]:
  "server_decode sk dec (xs @ ys) = server_decode sk dec xs @ server_decode sk (decoders_after sk dec xs) ys"
proof (induction xs arbitrary: dec)
  case (Cons e xs)
  then show ?case by (cases e) (auto split: prod.splits)
qed simp

lemma decoders_after_append [simp]:
  "decoders_after sk dec (xs @ ys) = decoders_after sk (decoders_after sk dec xs) ys"
proof (induction xs arbitrary: dec)
  case (Cons e xs)
  then show ?case by (cases e) auto
qed simp

definition quiet_event :: "server_event \<Rightarrow> bool" where
  "quiet_event e = (case e of SvRead c p \<Rightarrow> False | SvPacket r p \<Rightarrow> False | _ \<Rightarrow> True)"

lemma quiet_events:
  "list_all quiet_event es \<Longrightarrow> server_packets es = [] \<and> server_decode sk dec es = [] \<and> decoders_after sk dec es = dec"
  by (induction sk dec es rule: server_decode.induct) (auto simp: quiet_event_def)

lemma server_packets_map [simp]: "server_packets (map (SvPacket r) ps) = ps"
  by (induction ps) auto

lemma server_decode_packets [simp]: "server_decode sk dec (map (SvPacket r) ps) = []"
  by (induction ps) auto

lemma decoders_after_packets [simp]: "decoders_after sk dec (map (SvPacket r) ps) = dec"
  by (induction ps) auto

text \<open>The clients of the active slots, and their slots' decoders against the clients' own.\<close>

definition active_clients :: "'d server_slot list \<Rightarrow> nat option list" where
  "active_clients xs = map ss_client (filter ss_active xs)"

definition slots_ok :: "(nat \<Rightarrow> 'd) \<Rightarrow> 'd server_slot list \<Rightarrow> bool" where
  "slots_ok dec xs \<longleftrightarrow> distinct (active_clients xs) \<and>
     (\<forall>x \<in> set xs. ss_active x \<longrightarrow> (\<exists>c. ss_client x = Some c \<and> ss_decoder x = dec c))"

lemma slots_ok_Cons:
  "slots_ok dec (x # xs) \<longleftrightarrow> slots_ok dec xs \<and>
     (ss_active x \<longrightarrow> (\<exists>c. ss_client x = Some c \<and> ss_decoder x = dec c) \<and> ss_client x \<notin> set (active_clients xs))"
  by (auto simp: slots_ok_def active_clients_def)

lemma slots_ok_Nil [simp]: "slots_ok dec []"
  by (simp add: slots_ok_def active_clients_def)

lemma slots_ok_cong:
  "slots_ok dec xs \<Longrightarrow> (\<And>c. Some c \<in> set (active_clients xs) \<Longrightarrow> dec' c = dec c) \<Longrightarrow> slots_ok dec' xs"
  by (fastforce simp: slots_ok_def active_clients_def image_iff)

lemma active_clients_Cons:
  "active_clients (x # xs) = (if ss_active x then ss_client x # active_clients xs else active_clients xs)"
  by (simp add: active_clients_def)

lemma active_clients_Nil [simp]: "active_clients [] = []"
  by (simp add: active_clients_def)

lemma read_client_spec:
  "read_client sk c rs x = (y, es, ps) \<Longrightarrow> dec c = ss_decoder x \<Longrightarrow>
     server_packets es = [] \<and> server_decode sk dec es = ps \<and> decoders_after sk dec es = with_decoder c (ss_decoder y) dec \<and>
     ss_client y = ss_client x \<and> (ss_active y \<longrightarrow> ss_active x)"
proof (induction sk c rs x arbitrary: y es ps dec rule: read_client.induct)
  case (3 sk c chunk rs x)
  obtain v d qs where p: "sk_push sk chunk (ss_decoder x) = (v, d, qs)" by (metis prod_cases3)
  show ?case
  proof (cases v)
    case False
    then show ?thesis using 3(2,3) p by auto
  next
    case True
    obtain y1 fs rs1 where r: "read_client sk c rs (x\<lparr>ss_decoder := d\<rparr>) = (y1, fs, rs1)" by (metis prod_cases3)
    show ?thesis
      using 3(1) [OF p [symmetric] refl refl refl _ r, of "with_decoder c d dec"] 3(2,3) True p r
      by auto
  qed
qed auto

lemma serve_slot_spec:
  assumes "serve_slot sk env x = (y, es, ps)" "slots_ok dec [x]"
  shows "server_packets es = [] \<and> server_decode sk dec es = ps \<and> slots_ok (decoders_after sk dec es) [y] \<and>
    (\<forall>c. \<not> (ss_active x \<and> ss_client x = Some c) \<longrightarrow> decoders_after sk dec es c = dec c) \<and>
    (ss_active y \<longrightarrow> ss_active x \<and> ss_client y = ss_client x)"
proof (cases "ss_active x")
  case False
  then show ?thesis using assms by (auto simp: serve_slot_def)
next
  case True
  then obtain c where c: "ss_client x = Some c" "dec c = ss_decoder x"
    using assms(2) by (auto simp: slots_ok_def)
  show ?thesis
  proof (cases "ve_connected env c")
    case False
    then show ?thesis using assms(1) c True by (auto simp: serve_slot_def slots_ok_Cons)
  next
    case conn: True
    have r: "read_client sk c (ve_reads env c) x = (y, es, ps)"
      using assms(1) c True conn by (simp add: serve_slot_def)
    show ?thesis using read_client_spec [where dec = dec, OF r c(2)] True c
      by (auto simp: slots_ok_def active_clients_def)
  qed
qed

lemma serve_slots_spec:
  "serve_slots sk env n xs = (ys, es, ps) \<Longrightarrow> slots_ok dec xs \<Longrightarrow>
     server_packets es = [] \<and> server_decode sk dec es = ps \<and> slots_ok (decoders_after sk dec es) ys \<and>
     (\<forall>c. Some c \<notin> set (active_clients xs) \<longrightarrow> decoders_after sk dec es c = dec c) \<and>
     set (active_clients ys) \<subseteq> set (active_clients xs) \<and> length ys = length xs"
proof (induction sk env n xs arbitrary: ys es ps dec rule: serve_slots.induct)
  case (3 sk env n x xs)
  obtain y fs qs where y: "serve_slot sk env x = (y, fs, qs)" by (metis prod_cases3)
  obtain zs gs rs where z: "serve_slots sk env n xs = (zs, gs, rs)" by (metis prod_cases3)
  have out: "ys = y # zs" "es = fs @ gs" "ps = qs @ rs" using 3(2) y z by auto
  have x: "slots_ok dec [x]" "slots_ok dec xs"
    "ss_active x \<longrightarrow> (\<exists>c. ss_client x = Some c) \<and> ss_client x \<notin> set (active_clients xs)"
    using 3(3) by (auto simp: slots_ok_Cons)
  note one = serve_slot_spec [OF y x(1)]
  have rest_ok: "slots_ok (decoders_after sk dec fs) xs"
    using slots_ok_cong [OF x(2)] one x(3) by metis
  note rest = 3(1) [OF y [symmetric] refl refl z rest_ok]
  have "slots_ok (decoders_after sk dec es) [y]"
  proof (cases "ss_active y")
    case True
    then have "ss_client y \<notin> set (active_clients xs)" using one x(3) by metis
    then show ?thesis
      using slots_ok_cong [of "decoders_after sk dec fs" "[y]"] one rest out True
      by (auto simp: active_clients_def)
  qed (simp add: slots_ok_def active_clients_def)
  moreover have "ss_active y \<longrightarrow> ss_client y \<notin> set (active_clients zs)"
    using one rest x(3) by (metis subsetD)
  ultimately have slots: "slots_ok (decoders_after sk dec es) ys"
    using rest out by (simp add: slots_ok_Cons)
  have "decoders_after sk dec es c = dec c" if "Some c \<notin> set (active_clients (x # xs))" for c
  proof -
    have "Some c \<notin> set (active_clients xs)" "\<not> (ss_active x \<and> ss_client x = Some c)"
      using that by (auto simp: active_clients_Cons split: if_splits)
    then have "decoders_after sk (decoders_after sk dec fs) gs c = decoders_after sk dec fs c"
      "decoders_after sk dec fs c = dec c" using one rest by blast+
    then show ?thesis by (simp add: out(2))
  qed
  moreover have "set (active_clients ys) \<subseteq> set (active_clients (x # xs))"
    using one rest out(1) by (auto simp: active_clients_Cons)
  ultimately show ?case using one rest out slots by simp
qed auto

lemma place_client_spec:
  "place_client fresh connected c n xs = Some (ys, es) \<Longrightarrow> slots_ok dec xs \<Longrightarrow>
     Some c \<notin> set (active_clients xs) \<Longrightarrow> dec c = fresh \<Longrightarrow>
     slots_ok dec ys \<and> set (active_clients ys) \<subseteq> insert (Some c) (set (active_clients xs)) \<and>
     list_all quiet_event es \<and> length ys = length xs"
proof (induction fresh connected c n xs arbitrary: ys es rule: place_client.induct)
  case (3 fresh connected c n x xs)
  show ?case
  proof (cases "\<not> ss_active x \<or> \<not> slot_connected connected x")
    case True
    then show ?thesis using 3(2-5)
      by (auto simp: slots_ok_Cons active_clients_Cons quiet_event_def)
  next
    case False
    then obtain zs where z: "place_client fresh connected c n xs = Some (zs, es)" "ys = x # zs"
      using 3(2) by auto
    show ?thesis
      using 3(1) [OF False z(1)] 3(3-5) z(2) False
      by (auto simp: slots_ok_Cons active_clients_Cons)
  qed
qed auto

definition server_ok :: "'d sockets_library \<Rightarrow> nat set \<times> 'd tcp_server \<Rightarrow> server_event list \<Rightarrow> bool" where
  "server_ok sk a log \<longleftrightarrow> (let dec = decoders_after sk (\<lambda>_. sk_fresh sk) log in
     server_packets log = server_decode sk (\<lambda>_. sk_fresh sk) log \<and> slots_ok dec (sv_slots (snd a)) \<and>
     set (active_clients (sv_slots (snd a))) \<subseteq> Some ` fst a \<and> (\<forall>c. c \<notin> fst a \<longrightarrow> dec c = sk_fresh sk))"

lemma server_worker_ok:
  assumes "server_ok sk (seen, s) log" "server_worker_iteration sk env s = (s1, es)"
    and fresh: "\<And>c. ve_incoming env = Some c \<Longrightarrow> c \<notin> seen"
  shows "server_ok sk (set_option (ve_incoming env) \<union> seen, s1) (log @ es)"
proof -
  define dec where "dec = decoders_after sk (\<lambda>_. sk_fresh sk) log"
  have ok: "server_packets log = server_decode sk (\<lambda>_. sk_fresh sk) log" "slots_ok dec (sv_slots s)"
    "set (active_clients (sv_slots s)) \<subseteq> Some ` seen" "\<And>c. c \<notin> seen \<Longrightarrow> dec c = sk_fresh sk"
    using assms(1) by (auto simp: server_ok_def dec_def Let_def)
  obtain s2 fs where a: "accept_clients sk env s = (s2, fs)" by fastforce
  have acc: "slots_ok dec (sv_slots s2)" "list_all quiet_event fs"
    "set (active_clients (sv_slots s2)) \<subseteq> Some ` (set_option (ve_incoming env) \<union> seen)"
  proof -
    have "slots_ok dec (sv_slots s2) \<and> list_all quiet_event fs \<and>
      set (active_clients (sv_slots s2)) \<subseteq> Some ` (set_option (ve_incoming env) \<union> seen)"
    proof (cases "ve_incoming env")
      case None
      then show ?thesis using a ok by (auto simp: accept_clients_def split: if_splits)
    next
      case (Some c)
      have "c \<notin> seen" using fresh Some by simp
      then have c: "Some c \<notin> set (active_clients (sv_slots s))" "dec c = sk_fresh sk"
        using ok(3,4) by auto
      show ?thesis
      proof (cases "place_client (sk_fresh sk) (ve_free_connected env) c (slot_limit s) (sv_slots s)")
        case None
        then show ?thesis using a Some ok(2,3)
          by (auto simp: accept_clients_def quiet_event_def split: if_splits)
      next
        case (Some r)
        obtain xs gs where r: "r = (xs, gs)" by fastforce
        show ?thesis
          using a \<open>ve_incoming env = _\<close> Some r ok(2,3) place_client_spec [OF Some [unfolded r] ok(2) c]
          by (auto simp: accept_clients_def split: if_splits)
      qed
    qed
    then show "slots_ok dec (sv_slots s2)" "list_all quiet_event fs"
      "set (active_clients (sv_slots s2)) \<subseteq> Some ` (set_option (ve_incoming env) \<union> seen)" by auto
  qed
  obtain xs gs ps where v: "serve_slots sk env (slot_limit s2) (sv_slots s2) = (xs, gs, ps)" by (metis prod_cases3)
  note served = serve_slots_spec [OF v acc(1)]
  have "decoders_after sk dec gs c = sk_fresh sk" if "c \<notin> set_option (ve_incoming env) \<union> seen" for c
  proof -
    have "Some c \<notin> set (active_clients (sv_slots s2))" "c \<notin> seen" using that acc(3) by auto
    then show ?thesis using served ok(4) by simp
  qed
  moreover have "es = fs @ gs @ map (SvPacket (sv_receiver s2)) ps" "s1 = s2\<lparr>sv_slots := xs\<rparr>"
    using assms(2) by (simp_all add: server_worker_iteration_def a v)
  moreover have "set (active_clients xs) \<subseteq> Some ` (set_option (ve_incoming env) \<union> seen)"
    using served acc(3) by blast
  ultimately show ?thesis
    using ok(1) served quiet_events [OF acc(2), of sk dec]
    by (auto simp: server_ok_def Let_def dec_def [symmetric])
qed

lemma send_slots_spec:
  "send_slots env frame xs = (had, ok, ys, es) \<Longrightarrow> slots_ok dec xs \<Longrightarrow>
     slots_ok dec ys \<and> set (active_clients ys) \<subseteq> set (active_clients xs) \<and> list_all quiet_event es"
proof (induction env frame xs arbitrary: had ok ys es rule: send_slots.induct)
  case (2 env frame x xs)
  obtain had1 ok1 zs fs where z: "send_slots env frame xs = (had1, ok1, zs, fs)" by (metis prod_cases4)
  have "slots_ok dec xs" using 2(3) by (simp add: slots_ok_Cons)
  note rest = 2(1) [OF z this]
  show ?case using 2(2,3) rest z
    by (auto simp: slots_ok_Cons active_clients_Cons quiet_event_def split: option.splits if_splits)
qed simp

lemma server_ok_step:
  assumes "server_ok sk a log" "server_do sk op a = Some (b, es)"
  shows "server_ok sk b (log @ es)"
proof -
  obtain seen s where a: "a = (seen, s)" by fastforce
  define dec where "dec = decoders_after sk (\<lambda>_. sk_fresh sk) log"
  have ok: "server_packets log = server_decode sk (\<lambda>_. sk_fresh sk) log" "slots_ok dec (sv_slots s)"
    "set (active_clients (sv_slots s)) \<subseteq> Some ` seen" "\<And>c. c \<notin> seen \<Longrightarrow> dec c = sk_fresh sk"
    using assms(1) by (auto simp: server_ok_def dec_def Let_def a)
  have quiet: "server_ok sk (seen, t) (log @ fs)"
    if "list_all quiet_event fs" "slots_ok dec (sv_slots t)"
      "set (active_clients (sv_slots t)) \<subseteq> set (active_clients (sv_slots s))" for t fs
    using that ok quiet_events [OF that(1), of sk dec] by (auto simp: server_ok_def Let_def dec_def [symmetric])
  show ?thesis
  proof (cases op)
    case (SvInit started port n)
    then show ?thesis using assms(2) quiet [of es "snd b"] ok(2)
      by (auto simp: a tcp_server_initialize_def Let_def quiet_event_def split: if_splits)
  next
    case SvShutdown
    have "active_clients (map (\<lambda>x. x\<lparr>ss_decoder := d, ss_active := False\<rparr>) xs) = []" for d :: 'a and xs
      by (induction xs) (auto simp: active_clients_def)
    moreover have "slots_ok dec (map (\<lambda>x. x\<lparr>ss_decoder := d, ss_active := False\<rparr>) xs)" for d xs
      using calculation [of d xs] by (auto simp: slots_ok_def)
    ultimately show ?thesis using assms(2) quiet [of es "snd b"] ok(2) SvShutdown
      by (auto simp: a tcp_server_shutdown_def list_all_iff quiet_event_def split: if_splits)
  next
    case (SvWork env)
    then obtain s1 where s1: "server_worker_iteration sk env s = (s1, es)"
      "b = (set_option (ve_incoming env) \<union> seen, s1)" "\<And>c. ve_incoming env = Some c \<Longrightarrow> c \<notin> seen"
      using assms(2) by (auto simp: a split: option.splits if_splits prod.splits)
    show ?thesis using server_worker_ok [OF assms(1) [unfolded a] s1(1,3)] s1(2) by simp
  next
    case (SvSend env p)
    obtain r t fs where r: "server_send sk env p s = (r, t, fs)" by (metis prod_cases3)
    have "b = (seen, t)" "es = fs" using assms(2) SvSend r by (auto simp: a)
    moreover have "list_all quiet_event fs \<and> slots_ok dec (sv_slots t) \<and>
      set (active_clients (sv_slots t)) \<subseteq> set (active_clients (sv_slots s))"
      using r ok(2) send_slots_spec [OF _ ok(2)]
      by (auto simp: server_send_def del: subsetI split: option.splits if_splits prod.splits)
    ultimately show ?thesis using quiet [of fs t] by simp
  next
    case (SvReceiver r)
    then show ?thesis using assms(2) quiet [of "[]" "snd b"] ok(2) by (auto simp: a server_set_receiver_def)
  qed
qed

lemma server_ok_run: "server_ok sk a log \<Longrightarrow> server_run sk ops a = Some (b, es) \<Longrightarrow> server_ok sk b (log @ es)"
proof (induction ops arbitrary: a log es)
  case (Cons op ops)
  from Cons.prems(2) obtain a1 fs gs where s: "server_do sk op a = Some (a1, fs)"
    "server_run sk ops a1 = Some (b, gs)" "es = fs @ gs" by (auto split: option.splits)
  show ?case using Cons.IH [OF server_ok_step [OF Cons.prems(1) s(1)] s(2)] s(3) by simp
qed simp

text \<open>C33: Over any history of the TCP server transport, with clients coming, going and being refused, sends
  that fail and slots used again, the packets handed on are, in the order of the reads, those of a
  decoder of its own for each client, fresh when the client comes: neither another client of the
  same moment nor an earlier one in the same slot leaves a byte in it. No two active slots have the
  same client.\<close>

theorem server_frames_per_client:
  assumes "list_all (\<lambda>x. \<not> ss_active x) (sv_slots s)"
    and "server_run sk ops ({}, s) = Some ((seen, s1), log)"
  shows "server_packets log = server_decode sk (\<lambda>_. sk_fresh sk) log \<and> distinct (active_clients (sv_slots s1))"
proof -
  have "filter ss_active (sv_slots s) = []" using assms(1) by (auto simp: list_all_iff)
  then have "server_ok sk ({}, s) []"
    using assms(1) by (auto simp: server_ok_def slots_ok_def active_clients_def list_all_iff)
  from server_ok_run [OF this assms(2)] show ?thesis by (simp add: server_ok_def slots_ok_def Let_def)
qed

definition demo_server :: "bytes tcp_server" where
  "demo_server = \<lparr>sv_server = False,
     sv_slots = [\<lparr>ss_client = None, ss_decoder = [], ss_active = False\<rparr>, \<lparr>ss_client = None, ss_decoder = [], ss_active = False\<rparr>],
     sv_port = 0, sv_max_clients = 0, sv_receiver = Some 1, sv_initialized = False\<rparr>"

definition demo_server_ops :: "server_op list" where
  "demo_server_ops = [SvInit True 7000 (Suc (Suc 0)),
     SvWork \<lparr>ve_incoming = Some 10, ve_free_connected = (\<lambda>_. True), ve_connected = (\<lambda>_. True),
       ve_reads = (\<lambda>c. [Some [2, 65]]), ve_write = (\<lambda>_. True)\<rparr>,
     SvWork \<lparr>ve_incoming = Some 11, ve_free_connected = (\<lambda>_. False), ve_connected = (\<lambda>_. True),
       ve_reads = (\<lambda>c. [Some [1, 66]]), ve_write = (\<lambda>_. True)\<rparr>]"

lemma server_frames_per_client_witness:
  "case server_run demo_sockets demo_server_ops ({}, demo_server) of None \<Rightarrow> False
   | Some ((seen, s), log) \<Rightarrow> server_packets log = [[66]] \<and>
       server_packets log = server_decode demo_sockets (\<lambda>_. sk_fresh demo_sockets) log \<and>
       distinct (active_clients (sv_slots s))"
proof -
  obtain seen s log where r: "server_run demo_sockets demo_server_ops ({}, demo_server) = Some ((seen, s), log)"
    and c: "server_packets log = [[66]]"
    by (simp add: demo_server_ops_def demo_server_def demo_sockets_def tcp_server_initialize_def
        server_worker_iteration_def accept_clients_def slot_limit_def slot_connected_def serve_slot_def
        Let_def)
  show ?thesis
    using server_frames_per_client [OF _ r] r c by (simp add: demo_server_def)
qed

end
