(* ===== verification/Mqtt_Transport.thy ===== *)
theory Mqtt_Transport
  imports Event_Transport
begin

text \<open>
  src/ESPressio_MQTTEventTransport.hpp: the event transport over PubSubClient.

  PubSubClient answers through the environment of a call: whether it is connected, the outcomes of
  \<open>connect\<close>, \<open>subscribe\<close> and \<open>publish\<close>, and the messages its \<open>loop\<close> hands to the callback. Every call
  made on it is an event. A message has a topic, a C string, and a payload; either may be null.
\<close>

record mqtt_config =
  mq_host :: string
  mq_port :: u16
  mq_client_id :: string
  mq_username :: string
  mq_password :: string
  mq_outbound :: string
  mq_inbound :: string
  mq_qos :: u8
  mq_retain :: bool
  mq_secure :: bool
  mq_insecure :: bool
  mq_ca :: "string option"
  mq_certificate :: "string option"
  mq_key :: "string option"
  mq_buffer :: u16
  mq_keep_alive :: u16
  mq_socket_timeout :: u16
  mq_interval :: u32

record mqtt_transport =
  mt_config :: mqtt_config
  mt_client :: bool
  mt_receiver :: "nat option"
  mt_last :: u32
  mt_initialized :: bool

record mqtt_env =
  me_connected :: bool
  me_now :: u64
  me_connect :: bool
  me_subscribe :: bool
  me_messages :: "(string option \<times> bytes option) list"
  me_publish :: bool

datatype mqtt_event =
    MqInsecure
  | MqCACert string
  | MqCertificate string
  | MqPrivateKey string
  | MqCreate bool
  | MqServer string u16
  | MqBuffer u16
  | MqKeepAlive u16
  | MqSocketTimeout u16
  | MqCallback
  | MqConnect string "(string \<times> string) option" u64 bool
  | MqSubscribe string u8 bool
  | MqLoop
  | MqPacket nat bytes
  | MqPublish string bytes bool bool
  | MqDisconnect
  | MqStopPlain
  | MqStopSecure

definition mqtt_configure_tls :: "mqtt_config \<Rightarrow> mqtt_event list" where
  "mqtt_configure_tls cfg =
     (if \<not> mq_secure cfg then []
      else if mq_insecure cfg then [MqInsecure]
      else (case mq_ca cfg of None \<Rightarrow> [] | Some ca \<Rightarrow> [MqCACert ca]) @
        (case (mq_certificate cfg, mq_key cfg) of
           (Some c, Some k) \<Rightarrow> [MqCertificate c, MqPrivateKey k]
         | _ \<Rightarrow> []))"

text \<open>The callback, for one message: \<open>max_packet\<close> is the bound of ESPressio-Sockets.\<close>

definition receive_mqtt ::
    "nat \<Rightarrow> mqtt_transport \<Rightarrow> string option \<times> bytes option \<Rightarrow> mqtt_event list" where
  "receive_mqtt max_packet s m = (case m of
       (Some topic, Some payload) \<Rightarrow>
         if payload = [] \<or> mq_inbound (mt_config s) \<noteq> c_string topic \<or> length payload > max_packet then []
         else (case mt_receiver s of None \<Rightarrow> [] | Some r \<Rightarrow> [MqPacket r payload])
     | _ \<Rightarrow> [])"

definition mqtt_ensure_connected ::
    "mqtt_env \<Rightarrow> mqtt_transport \<Rightarrow> bool \<times> mqtt_transport \<times> mqtt_event list" where
  "mqtt_ensure_connected env s = (let cfg = mt_config s in
     if mt_client s \<and> me_connected env then (True, s, [])
     else
       let now = now_ms (me_now env)
       in if now - mt_last s < mq_interval cfg then (False, s, [])
          else
            let s1 = s\<lparr>mt_last := now\<rparr>
            in if \<not> mt_client s then (False, s1, [])
               else
                 let connect = MqConnect (c_string (mq_client_id cfg))
                       (if mq_username cfg \<noteq> [] then Some (c_string (mq_username cfg), c_string (mq_password cfg)) else None)
                       (me_now env) (me_connect env)
                 in if me_connect env \<and> mq_inbound cfg \<noteq> []
                    then (me_subscribe env, s1,
                      [connect, MqSubscribe (c_string (mq_inbound cfg)) (mq_qos cfg) (me_subscribe env)])
                    else (me_connect env, s1, [connect]))"

definition mqtt_worker_iteration ::
    "nat \<Rightarrow> mqtt_env \<Rightarrow> mqtt_transport \<Rightarrow> mqtt_transport \<times> mqtt_event list" where
  "mqtt_worker_iteration max_packet env s =
     (let (up, s1, es) = mqtt_ensure_connected env s
      in if up \<and> mt_client s1
         then (s1, es @ MqLoop # concat (map (receive_mqtt max_packet s1) (me_messages env)))
         else (s1, es))"

definition mqtt_initialize ::
    "bool \<Rightarrow> mqtt_config \<Rightarrow> mqtt_transport \<Rightarrow> bool \<times> mqtt_transport \<times> mqtt_event list" where
  "mqtt_initialize started cfg s =
     (if mt_initialized s then (True, s, [])
      else if mq_host cfg = [] \<or> mq_port cfg = 0 \<or> mq_client_id cfg = [] \<or> mq_outbound cfg = [] \<or> mq_inbound cfg = []
      then (False, s, [])
      else
        let s1 = s\<lparr>mt_config := cfg, mt_client := True\<rparr>;
            es = mqtt_configure_tls cfg @ [MqCreate (mq_secure cfg), MqServer (c_string (mq_host cfg)) (mq_port cfg),
              MqBuffer (mq_buffer cfg), MqKeepAlive (mq_keep_alive cfg), MqSocketTimeout (mq_socket_timeout cfg), MqCallback]
        in if \<not> started then (False, s1\<lparr>mt_client := False\<rparr>, es)
           else (True, s1\<lparr>mt_initialized := True\<rparr>, es))"

definition mqtt_shutdown :: "mqtt_transport \<Rightarrow> mqtt_transport \<times> mqtt_event list" where
  "mqtt_shutdown s =
     (if \<not> mt_initialized s then (s, [])
      else (s\<lparr>mt_client := False, mt_receiver := None, mt_initialized := False\<rparr>,
        (if mt_client s then [MqDisconnect] else []) @ [MqStopPlain, MqStopSecure]))"

definition mqtt_send ::
    "nat \<Rightarrow> mqtt_env \<Rightarrow> bytes option \<Rightarrow> mqtt_transport \<Rightarrow> bool \<times> mqtt_transport \<times> mqtt_event list" where
  "mqtt_send max_packet env packet s = (case packet of
       None \<Rightarrow> (False, s, [])
     | Some p \<Rightarrow>
         if \<not> mt_initialized s \<or> p = [] \<or> length p > max_packet \<or> length p > unat (mq_buffer (mt_config s))
         then (False, s, [])
         else
           let (up, s1, es) = mqtt_ensure_connected env s
           in if \<not> up \<or> \<not> mt_client s1 then (False, s1, es)
              else (me_publish env, s1, es @ [MqPublish (c_string (mq_outbound (mt_config s1))) p
                (mq_retain (mt_config s1)) (me_publish env)]))"

definition mqtt_set_receiver :: "nat option \<Rightarrow> mqtt_transport \<Rightarrow> mqtt_transport" where
  "mqtt_set_receiver r s = s\<lparr>mt_receiver := r\<rparr>"

definition mqtt_is_connected :: "mqtt_env \<Rightarrow> mqtt_transport \<Rightarrow> bool" where
  "mqtt_is_connected env s \<longleftrightarrow> mt_client s \<and> me_connected env"

section \<open>Pacing\<close>

fun mqtt_attempts :: "mqtt_event list \<Rightarrow> u64 list" where
  "mqtt_attempts [] = []"
| "mqtt_attempts (MqConnect i u t ok # es) = t # mqtt_attempts es"
| "mqtt_attempts (e # es) = mqtt_attempts es"

interpretation mqtt_pace: reconnecting mqtt_ensure_connected mt_last "\<lambda>s. mq_interval (mt_config s)" me_now mqtt_attempts
  by unfold_locales (auto simp: mqtt_ensure_connected_def Let_def not_less split: if_splits)

section \<open>Histories\<close>

datatype mqtt_op = MqInit bool mqtt_config | MqShutdown | MqWork mqtt_env | MqSend mqtt_env "bytes option" | MqReceiver "nat option"

text \<open>One call of the application or one iteration of the worker, which runs while the transport is initialised.\<close>

fun mqtt_do :: "nat \<Rightarrow> mqtt_op \<Rightarrow> mqtt_transport \<Rightarrow> mqtt_transport \<times> mqtt_event list" where
  "mqtt_do n (MqInit started cfg) s = snd (mqtt_initialize started cfg s)"
| "mqtt_do n MqShutdown s = mqtt_shutdown s"
| "mqtt_do n (MqWork env) s = (if mt_initialized s then mqtt_worker_iteration n env s else (s, []))"
| "mqtt_do n (MqSend env p) s = snd (mqtt_send n env p s)"
| "mqtt_do n (MqReceiver r) s = (mqtt_set_receiver r s, [])"

fun mqtt_run :: "nat \<Rightarrow> mqtt_op list \<Rightarrow> mqtt_transport \<Rightarrow> mqtt_transport \<times> mqtt_event list" where
  "mqtt_run n [] s = (s, [])"
| "mqtt_run n (op # ops) s = (let (s1, es) = mqtt_do n op s; (s2, fs) = mqtt_run n ops s1 in (s2, es @ fs))"

text \<open>The environments an operation asks, and whether PubSubClient answers in them that it is connected.\<close>

fun stays_connected :: "mqtt_op \<Rightarrow> bool" where
  "stays_connected (MqWork env) = me_connected env"
| "stays_connected (MqSend env p) = me_connected env"
| "stays_connected MqShutdown = False"
| "stays_connected _ = True"

fun connects_or_subscribes :: "mqtt_event \<Rightarrow> bool" where
  "connects_or_subscribes (MqConnect i u t ok) = True"
| "connects_or_subscribes (MqSubscribe t q ok) = True"
| "connects_or_subscribes e = False"

lemma receive_mqtt_only_packets:
  "e \<in> set (receive_mqtt n s m) \<Longrightarrow> \<not> connects_or_subscribes e"
  by (auto simp: receive_mqtt_def split: prod.splits option.splits if_splits)

text \<open>
  Whether the session of the log has a subscription. PubSubClient's \<open>connect\<close> asks for a clean
  session, so a connection begins without one; \<open>subscribe\<close> answers false when it could not make one.
\<close>

fun subscribed :: "bool \<Rightarrow> mqtt_event list \<Rightarrow> bool" where
  "subscribed b [] = b"
| "subscribed b (MqConnect i u t ok # es) = subscribed False es"
| "subscribed b (MqSubscribe t q ok # es) = subscribed (b \<or> ok) es"
| "subscribed b (e # es) = subscribed b es"

lemma subscribed_quiet: "list_all (\<lambda>e. \<not> connects_or_subscribes e) es \<Longrightarrow> subscribed b es = b"
  by (induction b es rule: subscribed.induct) auto

text \<open>What MQTT promises of a broker: it sends a client no messages in a session without subscriptions.
  A message reaches \<open>loop\<close> after the connection of its iteration.\<close>

fun only_subscribed :: "nat \<Rightarrow> bool \<Rightarrow> mqtt_op list \<Rightarrow> mqtt_transport \<Rightarrow> bool" where
  "only_subscribed n b [] s = True"
| "only_subscribed n b (op # ops) s =
     (let (s1, es) = mqtt_do n op s; b1 = subscribed b es
      in (case op of MqWork env \<Rightarrow> b1 \<or> me_messages env = [] | _ \<Rightarrow> True) \<and> only_subscribed n b1 ops s1)"

fun is_packet :: "mqtt_event \<Rightarrow> bool" where
  "is_packet (MqPacket r p) = True"
| "is_packet e = False"

lemma connected_step_quiet:
  assumes "mt_client s" "mt_initialized s" "stays_connected op" "mqtt_do n op s = (s1, es)"
  shows "mt_client s1 \<and> mt_initialized s1 \<and> mt_config s1 = mt_config s \<and>
    list_all (\<lambda>e. \<not> connects_or_subscribes e) es \<and>
    (\<forall>env. op = MqWork env \<longrightarrow> me_messages env = [] \<longrightarrow> \<not> list_ex is_packet es) \<and>
    ((\<forall>env. op \<noteq> MqWork env) \<longrightarrow> \<not> list_ex is_packet es)"
proof (cases op)
  case (MqWork env)
  then show ?thesis using assms
    by (auto simp: mqtt_worker_iteration_def mqtt_ensure_connected_def list_all_iff
        dest: receive_mqtt_only_packets)
qed (use assms in \<open>auto simp: mqtt_initialize_def mqtt_set_receiver_def mqtt_send_def
  mqtt_ensure_connected_def split: option.splits if_splits\<close>)

lemma connected_run_quiet:
  "mt_client s \<Longrightarrow> mt_initialized s \<Longrightarrow> list_all stays_connected ops \<Longrightarrow> only_subscribed n False ops s \<Longrightarrow>
   mqtt_run n ops s = (s1, es) \<Longrightarrow>
     mt_client s1 \<and> mt_initialized s1 \<and> mt_config s1 = mt_config s \<and>
     list_all (\<lambda>e. \<not> connects_or_subscribes e) es \<and> \<not> list_ex is_packet es"
proof (induction ops arbitrary: s es)
  case (Cons op ops)
  obtain s2 fs where f: "mqtt_do n op s = (s2, fs)" by fastforce
  obtain gs where g: "mqtt_run n ops s2 = (s1, gs)" "es = fs @ gs"
    using Cons.prems(5) f by (auto split: prod.splits)
  have c: "stays_connected op" "list_all stays_connected ops" using Cons.prems(3) by auto
  note one = connected_step_quiet [OF Cons.prems(1,2) c(1) f]
  then have "\<not> subscribed False fs" using subscribed_quiet [of fs False] by simp
  then have law: "only_subscribed n False ops s2" "\<And>env. op = MqWork env \<Longrightarrow> me_messages env = []"
    using Cons.prems(4) f by auto
  have "\<not> list_ex is_packet fs" using one law(2) by (cases op) auto
  then show ?case using one Cons.IH [OF _ _ c(2) law(1) g(1)] g(2) by auto
qed simp

text \<open>C35: A subscription that \<open>subscribe\<close> could not make is lost for good. When the connection
  succeeds and the subscription fails, the iteration ends without closing the connection. As long
  as PubSubClient stays connected after that, whatever the application and the worker do, nothing
  connects or subscribes again; with a broker that sends messages only for subscriptions no
  packet is handed to a receiver; and all the while the transport reports itself connected as
  PubSubClient does, and Send of any valid packet publishes it and returns what publishing gives.\<close>

theorem mqtt_lost_subscription:
  assumes "mt_initialized s" "mt_client s" "mq_inbound (mt_config s) \<noteq> []"
    and "\<not> me_connected env" "me_connect env" "\<not> me_subscribe env"
    and "mq_interval (mt_config s) \<le> now_ms (me_now env) - mt_last s"
    and "mqtt_do n (MqWork env) s = (s1, es)"
    and "list_all stays_connected ops" "mqtt_run n ops s1 = (s2, fs)"
    and broker: "only_subscribed n b (MqWork env # ops) s"
  shows "last es = MqSubscribe (c_string (mq_inbound (mt_config s))) (mq_qos (mt_config s)) False \<and>
    MqDisconnect \<notin> set es \<and> MqStopPlain \<notin> set es \<and> MqStopSecure \<notin> set es \<and>
    list_all (\<lambda>e. \<not> connects_or_subscribes e) fs \<and> \<not> list_ex is_packet (es @ fs) \<and>
    (\<forall>env'. mqtt_is_connected env' s2 \<longleftrightarrow> me_connected env') \<and>
    (\<forall>env' p. me_connected env' \<longrightarrow> p \<noteq> [] \<longrightarrow> length p \<le> n \<longrightarrow> length p \<le> unat (mq_buffer (mt_config s)) \<longrightarrow>
      mqtt_send n env' (Some p) s2 = (me_publish env', s2,
        [MqPublish (c_string (mq_outbound (mt_config s))) p (mq_retain (mt_config s)) (me_publish env')]))"
proof -
  have late: "\<not> now_ms (me_now env) - mt_last s < mq_interval (mt_config s)"
    using assms(7) by (simp add: leD)
  have s1: "mt_initialized s1" "mt_client s1" "mt_config s1 = mt_config s"
    and es: "last es = MqSubscribe (c_string (mq_inbound (mt_config s))) (mq_qos (mt_config s)) False"
    "MqDisconnect \<notin> set es" "MqStopPlain \<notin> set es" "MqStopSecure \<notin> set es" "\<not> list_ex is_packet es"
    "subscribed b es = False"
    using assms(8)
    by (auto simp: mqtt_worker_iteration_def mqtt_ensure_connected_def Let_def late assms(1-6) split: if_splits)
  have "only_subscribed n False ops s1" using broker assms(8) es(6) by simp
  then show ?thesis
    using connected_run_quiet [OF s1(2,1) assms(9) _ assms(10)] s1(3) es
    by (auto simp: mqtt_is_connected_def mqtt_send_def mqtt_ensure_connected_def)
qed

definition demo_mqtt :: mqtt_config where
  "demo_mqtt = \<lparr>mq_host = ''broker'', mq_port = 1883, mq_client_id = ''id'', mq_username = [], mq_password = [],
     mq_outbound = ''out'', mq_inbound = ''in'', mq_qos = 0, mq_retain = False, mq_secure = False,
     mq_insecure = False, mq_ca = None, mq_certificate = None, mq_key = None, mq_buffer = 4096,
     mq_keep_alive = 15, mq_socket_timeout = 15, mq_interval = 2000\<rparr>"

definition demo_mqtt_transport :: mqtt_transport where
  "demo_mqtt_transport = \<lparr>mt_config = demo_mqtt, mt_client = True, mt_receiver = Some 1, mt_last = 0, mt_initialized = True\<rparr>"

definition demo_mqtt_env :: mqtt_env where
  "demo_mqtt_env = \<lparr>me_connected = False, me_now = 2000000000, me_connect = True, me_subscribe = False,
     me_messages = [], me_publish = True\<rparr>"

lemma mqtt_lost_subscription_witness:
  "mqtt_do 512 (MqWork demo_mqtt_env) demo_mqtt_transport =
     (demo_mqtt_transport\<lparr>mt_last := 2000\<rparr>,
      [MqConnect ''id'' None 2000000000 True, MqSubscribe ''in'' 0 False]) \<and>
   (case mqtt_run 512 [MqWork (demo_mqtt_env\<lparr>me_connected := True\<rparr>), MqSend (demo_mqtt_env\<lparr>me_connected := True\<rparr>) (Some [1])]
       (demo_mqtt_transport\<lparr>mt_last := 2000\<rparr>) of
     (s, es) \<Rightarrow> es = [MqLoop, MqPublish ''out'' [1] False True] \<and> \<not> list_ex is_packet es)"
proof -
  define ops where "ops = [MqWork (demo_mqtt_env\<lparr>me_connected := True\<rparr>), MqSend (demo_mqtt_env\<lparr>me_connected := True\<rparr>) (Some [1])]"
  define s1 where "s1 = demo_mqtt_transport\<lparr>mt_last := 2000\<rparr>"
  have one: "mqtt_do 512 (MqWork demo_mqtt_env) demo_mqtt_transport =
      (s1, [MqConnect ''id'' None 2000000000 True, MqSubscribe ''in'' 0 False])"
    by (simp add: s1_def demo_mqtt_env_def demo_mqtt_transport_def demo_mqtt_def mqtt_worker_iteration_def
        mqtt_ensure_connected_def now_ms_def c_string_def Let_def)
  obtain s2 fs where run: "mqtt_run 512 ops s1 = (s2, fs)" by fastforce
  have fs: "fs = [MqLoop, MqPublish ''out'' [1] False True]"
    using run by (simp add: ops_def s1_def demo_mqtt_env_def demo_mqtt_transport_def demo_mqtt_def
        mqtt_worker_iteration_def mqtt_ensure_connected_def mqtt_send_def c_string_def Let_def)
  have "only_subscribed 512 False (MqWork demo_mqtt_env # ops) demo_mqtt_transport"
    by (simp add: one, simp add: ops_def s1_def demo_mqtt_env_def split: prod.split)
  then have "\<not> list_ex is_packet fs"
    using mqtt_lost_subscription [OF _ _ _ _ _ _ _ one _ run]
    by (simp add: demo_mqtt_transport_def demo_mqtt_def demo_mqtt_env_def now_ms_def ops_def)
  then show ?thesis using one run fs by (simp add: s1_def [symmetric] ops_def [symmetric])
qed

end
