(* ===== verification/Udp_Transport.thy ===== *)
theory Udp_Transport
  imports Platform_Types
begin

text \<open>
  src/ESPressio_UDPEventTransport.hpp: the event transport over datagrams.

  Destinations are an array of a fixed number of slots with a counter, as in the code. An endpoint
  is its address and port, compared by value; whether it is valid is ESPressio-Sockets' answer, a
  parameter. The native socket answers through the environment of a call, and every call made on it
  is an event. \<open>dest_list\<close> reads the array as the list of destinations it stands for.
\<close>

record udp_endpoint =
  en_octets :: "u8 \<times> u8 \<times> u8 \<times> u8"
  en_port :: u16

record udp_transport =
  ud_local_port :: u16
  ud_allow_broadcast :: bool
  ud_destinations :: "udp_endpoint list"
  ud_count :: nat
  ud_receiver :: "nat option"
  ud_initialized :: bool

datatype udp_event =
    UdBegin u16 bool
  | UdBeginMulticast "u8 \<times> u8 \<times> u8 \<times> u8" u16 bool
  | UdStop
  | UdParsed int
  | UdSkipByte
  | UdRead nat int
  | UdPacket nat bytes
  | UdBeginPacket "u8 \<times> u8 \<times> u8 \<times> u8" u16 bool
  | UdWrite bytes nat
  | UdEndPacket bool

definition dest_list :: "udp_transport \<Rightarrow> udp_endpoint list" where
  "dest_list s = take (ud_count s) (ud_destinations s)"

section \<open>Destinations\<close>

text \<open>The loops run over the slots from \<open>i\<close> up to the counter.\<close>

function find_destination :: "udp_endpoint \<Rightarrow> udp_endpoint list \<Rightarrow> nat \<Rightarrow> nat \<Rightarrow> nat option" where
  "find_destination e ds n i =
     (if i < n then (if ds ! i = e then Some i else find_destination e ds n (Suc i)) else None)"
  by pat_completeness auto
termination by (relation "measure (\<lambda>(e, ds, n, i). n - i)") auto

function shift_down :: "udp_endpoint list \<Rightarrow> nat \<Rightarrow> nat \<Rightarrow> udp_endpoint list" where
  "shift_down ds n j = (if j < n then shift_down (ds[j - 1 := ds ! j]) n (Suc j) else ds)"
  by pat_completeness auto
termination by (relation "measure (\<lambda>(ds, n, j). n - j)") auto

declare find_destination.simps [simp del] shift_down.simps [simp del]

definition add_destination :: "(udp_endpoint \<Rightarrow> bool) \<Rightarrow> udp_endpoint \<Rightarrow> udp_transport \<Rightarrow> bool \<times> udp_transport" where
  "add_destination valid e s =
     (if \<not> valid e then (False, s)
      else if find_destination e (ud_destinations s) (ud_count s) 0 \<noteq> None then (True, s)
      else if ud_count s \<ge> length (ud_destinations s) then (False, s)
      else (True, s\<lparr>ud_destinations := (ud_destinations s)[ud_count s := e], ud_count := Suc (ud_count s)\<rparr>))"

definition add_broadcast_destination ::
    "(udp_endpoint \<Rightarrow> bool) \<Rightarrow> u16 \<Rightarrow> (u8 \<times> u8 \<times> u8 \<times> u8) option \<Rightarrow> udp_transport \<Rightarrow> bool \<times> udp_transport" where
  "add_broadcast_destination valid port broadcast s =
     add_destination valid \<lparr>en_octets = (case broadcast of None \<Rightarrow> (255, 255, 255, 255) | Some a \<Rightarrow> a), en_port = port\<rparr> s"

definition add_multicast_destination ::
    "(udp_endpoint \<Rightarrow> bool) \<Rightarrow> u8 \<times> u8 \<times> u8 \<times> u8 \<Rightarrow> u16 \<Rightarrow> udp_transport \<Rightarrow> bool \<times> udp_transport" where
  "add_multicast_destination valid address port s = add_destination valid \<lparr>en_octets = address, en_port = port\<rparr> s"

definition remove_destination :: "udp_endpoint \<Rightarrow> udp_transport \<Rightarrow> bool \<times> udp_transport" where
  "remove_destination e s = (case find_destination e (ud_destinations s) (ud_count s) 0 of
       None \<Rightarrow> (False, s)
     | Some i \<Rightarrow> (True, s\<lparr>ud_destinations := shift_down (ud_destinations s) (ud_count s) (i + 1), ud_count := ud_count s - 1\<rparr>))"

definition clear_destinations :: "udp_transport \<Rightarrow> udp_transport" where
  "clear_destinations s = s\<lparr>ud_count := 0\<rparr>"

section \<open>Lifecycle, reception, sending\<close>

definition udp_initialize ::
    "bool \<Rightarrow> bool \<Rightarrow> u16 \<Rightarrow> bool \<Rightarrow> udp_transport \<Rightarrow> bool \<times> udp_transport \<times> udp_event list" where
  "udp_initialize bound started port broadcast s =
     (if ud_initialized s then (True, s, [])
      else if port = 0 then (False, s, [])
      else if \<not> bound then (False, s, [UdBegin port False])
      else
        let s1 = s\<lparr>ud_local_port := port, ud_allow_broadcast := broadcast\<rparr>
        in if \<not> started then (False, s1, [UdBegin port True, UdStop])
           else (True, s1\<lparr>ud_initialized := True\<rparr>, [UdBegin port True]))"

definition udp_initialize_multicast ::
    "bool \<Rightarrow> bool \<Rightarrow> u8 \<times> u8 \<times> u8 \<times> u8 \<Rightarrow> u16 \<Rightarrow> udp_transport \<Rightarrow> bool \<times> udp_transport \<times> udp_event list" where
  "udp_initialize_multicast bound started address port s =
     (if ud_initialized s then (True, s, [])
      else if port = 0 then (False, s, [])
      else if \<not> bound then (False, s, [UdBeginMulticast address port False])
      else
        let s1 = s\<lparr>ud_local_port := port\<rparr>
        in if \<not> started then (False, s1, [UdBeginMulticast address port True, UdStop])
           else (True, s1\<lparr>ud_initialized := True\<rparr>, [UdBeginMulticast address port True]))"

definition udp_shutdown :: "udp_transport \<Rightarrow> udp_transport \<times> udp_event list" where
  "udp_shutdown s =
     (if \<not> ud_initialized s then (s, [])
      else (s\<lparr>ud_receiver := None, ud_count := 0, ud_initialized := False\<rparr>, [UdStop]))"

text \<open>\<open>n\<close> is what \<open>parsePacket\<close> returns, \<open>rest\<close> for how many bytes \<open>available\<close> stays true,
  \<open>received\<close> what \<open>read\<close> returns and \<open>content\<close> what it puts into the packet.\<close>

definition udp_worker_iteration ::
    "nat \<Rightarrow> int \<Rightarrow> nat \<Rightarrow> int \<Rightarrow> bytes \<Rightarrow> udp_transport \<Rightarrow> udp_event list" where
  "udp_worker_iteration max_packet n rest received content s = UdParsed n #
     (if n \<le> 0 then []
      else if nat n > max_packet then replicate rest UdSkipByte
      else UdRead (nat n) received #
        (if received \<le> 0 \<or> nat received \<noteq> nat n then []
         else (case ud_receiver s of None \<Rightarrow> [] | Some r \<Rightarrow> [UdPacket r content])))"

text \<open>For each destination: whether \<open>beginPacket\<close> succeeds, what \<open>write\<close> returns, whether \<open>endPacket\<close> succeeds.\<close>

fun send_each :: "bytes \<Rightarrow> udp_endpoint list \<Rightarrow> (bool \<times> nat \<times> bool) list \<Rightarrow> bool \<times> udp_event list" where
  "send_each p (e # ds) ((begun, written, ended) # answers) =
     (let (ok, es) = (if \<not> begun then (False, [UdBeginPacket (en_octets e) (en_port e) False])
            else if written \<noteq> length p then (False, [UdBeginPacket (en_octets e) (en_port e) True, UdWrite p written])
            else (ended, [UdBeginPacket (en_octets e) (en_port e) True, UdWrite p written, UdEndPacket ended]));
          (rest_ok, fs) = send_each p ds answers
      in (ok \<and> rest_ok, es @ fs))"
| "send_each p ds answers = (True, [])"

definition udp_send ::
    "nat \<Rightarrow> (bool \<times> nat \<times> bool) list \<Rightarrow> bytes option \<Rightarrow> udp_transport \<Rightarrow> bool \<times> udp_event list" where
  "udp_send max_packet answers packet s = (case packet of
       None \<Rightarrow> (False, [])
     | Some p \<Rightarrow>
         if \<not> ud_initialized s \<or> p = [] \<or> length p > max_packet then (False, [])
         else if ud_count s = 0 then (False, [])
         else send_each p (dest_list s) answers)"

definition udp_set_receiver :: "nat option \<Rightarrow> udp_transport \<Rightarrow> udp_transport" where
  "udp_set_receiver r s = s\<lparr>ud_receiver := r\<rparr>"

section \<open>The array is a list without repetitions\<close>

definition udp_ok :: "nat \<Rightarrow> (udp_endpoint \<Rightarrow> bool) \<Rightarrow> udp_transport \<Rightarrow> bool" where
  "udp_ok slots valid s \<longleftrightarrow> length (ud_destinations s) = slots \<and> ud_count s \<le> slots \<and>
     distinct (dest_list s) \<and> list_all valid (dest_list s)"

lemma find_destination_None:
  "n \<le> length ds \<Longrightarrow> find_destination e ds n i = None \<longleftrightarrow> e \<notin> set (drop i (take n ds))"
proof (induction e ds n i rule: find_destination.induct)
  case (1 e ds n i)
  show ?case
  proof (cases "i < n")
    case True
    then have "drop i (take n ds) = ds ! i # drop (Suc i) (take n ds)"
      using 1(2) by (simp add: Cons_nth_drop_Suc [symmetric])
    then show ?thesis using 1 True by (subst find_destination.simps) auto
  next
    case False
    then show ?thesis by (subst find_destination.simps) simp
  qed
qed

lemma find_destination_Some:
  "find_destination e ds n i = Some k \<Longrightarrow> i \<le> k \<and> k < n \<and> ds ! k = e"
proof (induction e ds n i rule: find_destination.induct)
  case (1 e ds n i)
  show ?case
  proof (cases "i < n \<and> ds ! i \<noteq> e")
    case True
    then show ?thesis using 1 by (subst (asm) (2) find_destination.simps) fastforce
  next
    case False
    then show ?thesis using 1(2) by (subst (asm) find_destination.simps) (auto split: if_splits)
  qed
qed

lemma length_shift_down [simp]: "length (shift_down ds n j) = length ds"
  by (induction ds n j rule: shift_down.induct) (subst shift_down.simps, auto)

lemma shift_down_take:
  "0 < j \<Longrightarrow> j \<le> n \<Longrightarrow> n \<le> length ds \<Longrightarrow>
     take (n - 1) (shift_down ds n j) = take (j - 1) ds @ drop j (take n ds)"
proof (induction ds n j rule: shift_down.induct)
  case (1 ds n j)
  show ?case
  proof (cases "j < n")
    case True
    have "take (n - 1) (shift_down (ds[j - 1 := ds ! j]) n (Suc j)) =
        take (Suc j - 1) (ds[j - 1 := ds ! j]) @ drop (Suc j) (take n (ds[j - 1 := ds ! j]))"
      using 1 True by auto
    also have "take (Suc j - 1) (ds[j - 1 := ds ! j]) = take (j - 1) ds @ [ds ! j]"
      using 1(2,4) True take_Suc_conv_app_nth [of "j - 1" "ds[j - 1 := ds ! j]"] by simp
    also have "drop (Suc j) (take n (ds[j - 1 := ds ! j])) = drop (Suc j) (take n ds)"
      using 1(2) by (simp add: take_update_swap drop_update_cancel)
    also have "(take (j - 1) ds @ [ds ! j]) @ drop (Suc j) (take n ds) = take (j - 1) ds @ drop j (take n ds)"
      using 1(4) True Cons_nth_drop_Suc [of j "take n ds"] by simp
    finally show ?thesis using True by (subst shift_down.simps) simp
  next
    case False
    then have "j = n" using 1(3) by simp
    then show ?thesis using 1(4) by (subst shift_down.simps) simp
  qed
qed

lemma remove1_nth:
  "distinct xs \<Longrightarrow> k < length xs \<Longrightarrow> remove1 (xs ! k) xs = take k xs @ drop (Suc k) xs"
proof (induction xs arbitrary: k)
  case (Cons x xs)
  then show ?case by (cases k) auto
qed simp

datatype udp_request =
    CallAdd udp_endpoint
  | CallAddBroadcast u16 "(u8 \<times> u8 \<times> u8 \<times> u8) option"
  | CallAddMulticast "u8 \<times> u8 \<times> u8 \<times> u8" u16
  | CallRemove udp_endpoint
  | CallClear
  | CallShutdown
  | CallInit bool bool u16 bool
  | CallInitMulticast bool bool "u8 \<times> u8 \<times> u8 \<times> u8" u16

fun udp_call_on :: "(udp_endpoint \<Rightarrow> bool) \<Rightarrow> udp_request \<Rightarrow> udp_transport \<Rightarrow> bool option \<times> udp_transport" where
  "udp_call_on valid (CallAdd e) s = map_prod Some id (add_destination valid e s)"
| "udp_call_on valid (CallAddBroadcast p b) s = map_prod Some id (add_broadcast_destination valid p b s)"
| "udp_call_on valid (CallAddMulticast g p) s = map_prod Some id (add_multicast_destination valid g p s)"
| "udp_call_on valid (CallRemove e) s = map_prod Some id (remove_destination e s)"
| "udp_call_on valid CallClear s = (None, clear_destinations s)"
| "udp_call_on valid CallShutdown s = (None, fst (udp_shutdown s))"
| "udp_call_on valid (CallInit bound started p b) s =
     (case udp_initialize bound started p b s of (r, s1, es) \<Rightarrow> (Some r, s1))"
| "udp_call_on valid (CallInitMulticast bound started g p) s =
     (case udp_initialize_multicast bound started g p s of (r, s1, es) \<Rightarrow> (Some r, s1))"

text \<open>What the same calls do to a plain list of destinations, with the transport initialised or not.\<close>

definition spec_add :: "nat \<Rightarrow> (udp_endpoint \<Rightarrow> bool) \<Rightarrow> udp_endpoint \<Rightarrow> udp_endpoint list \<Rightarrow> bool \<times> udp_endpoint list" where
  "spec_add slots valid e ds =
     (if \<not> valid e then (False, ds) else if e \<in> set ds then (True, ds)
      else if length ds = slots then (False, ds) else (True, ds @ [e]))"

fun spec_call ::
    "nat \<Rightarrow> (udp_endpoint \<Rightarrow> bool) \<Rightarrow> udp_request \<Rightarrow> bool \<times> udp_endpoint list \<Rightarrow> bool option \<times> bool \<times> udp_endpoint list" where
  "spec_call slots valid (CallAdd e) (up, ds) = (case spec_add slots valid e ds of (r, es) \<Rightarrow> (Some r, up, es))"
| "spec_call slots valid (CallAddBroadcast p b) (up, ds) =
     (case spec_add slots valid \<lparr>en_octets = (case b of None \<Rightarrow> (255, 255, 255, 255) | Some a \<Rightarrow> a), en_port = p\<rparr> ds of
       (r, es) \<Rightarrow> (Some r, up, es))"
| "spec_call slots valid (CallAddMulticast g p) (up, ds) =
     (case spec_add slots valid \<lparr>en_octets = g, en_port = p\<rparr> ds of (r, es) \<Rightarrow> (Some r, up, es))"
| "spec_call slots valid (CallRemove e) (up, ds) = (Some (e \<in> set ds), up, remove1 e ds)"
| "spec_call slots valid CallClear (up, ds) = (None, up, [])"
| "spec_call slots valid CallShutdown (up, ds) = (None, False, if up then [] else ds)"
| "spec_call slots valid (CallInit bound started p b) (up, ds) =
     (let r = up \<or> (p \<noteq> 0 \<and> bound \<and> started) in (Some r, r, ds))"
| "spec_call slots valid (CallInitMulticast bound started g p) (up, ds) =
     (let r = up \<or> (p \<noteq> 0 \<and> bound \<and> started) in (Some r, r, ds))"

lemma add_destination_refines:
  assumes "udp_ok slots valid s"
  shows "udp_ok slots valid (snd (add_destination valid e s))"
    and "spec_add slots valid e (dest_list s) =
      (fst (add_destination valid e s), dest_list (snd (add_destination valid e s)))"
    and "ud_initialized (snd (add_destination valid e s)) = ud_initialized s"
  using assms find_destination_None [of "ud_count s" "ud_destinations s" e 0]
  by (auto simp: add_destination_def spec_add_def udp_ok_def dest_list_def take_Suc_conv_app_nth)

lemma remove_destination_refines:
  assumes "udp_ok slots valid s"
  shows "udp_ok slots valid (snd (remove_destination e s)) \<and>
    fst (remove_destination e s) = (e \<in> set (dest_list s)) \<and>
    dest_list (snd (remove_destination e s)) = remove1 e (dest_list s) \<and>
    ud_initialized (snd (remove_destination e s)) = ud_initialized s"
proof (cases "find_destination e (ud_destinations s) (ud_count s) 0")
  case None
  then show ?thesis
    using assms find_destination_None [of "ud_count s" "ud_destinations s" e 0]
    by (simp add: remove_destination_def udp_ok_def dest_list_def remove1_idem)
next
  case (Some k)
  note k = find_destination_Some [OF Some]
  have len: "ud_count s \<le> length (ud_destinations s)" using assms by (simp add: udp_ok_def)
  have "dest_list s ! k = e" "k < length (dest_list s)" using k len by (simp_all add: dest_list_def)
  then have mem: "e \<in> set (dest_list s)" and rm: "remove1 e (dest_list s) = take k (dest_list s) @ drop (Suc k) (dest_list s)"
    using assms remove1_nth [of "dest_list s" k] by (auto simp: udp_ok_def)
  have "dest_list (snd (remove_destination e s)) = remove1 e (dest_list s)"
    using shift_down_take [of "Suc k" "ud_count s" "ud_destinations s"] k len rm
    by (simp add: remove_destination_def Some dest_list_def min_def)
  moreover have "set (remove1 e (dest_list s)) \<subseteq> set (dest_list s)" by (rule set_remove1_subset)
  ultimately show ?thesis
    using assms mem by (auto simp: remove_destination_def Some udp_ok_def list_all_iff)
qed

lemma udp_call_refines:
  assumes "udp_ok slots valid s"
  shows "udp_ok slots valid (snd (udp_call_on valid c s)) \<and>
    spec_call slots valid c (ud_initialized s, dest_list s) =
      (fst (udp_call_on valid c s), ud_initialized (snd (udp_call_on valid c s)), dest_list (snd (udp_call_on valid c s)))"
proof (cases c)
  case (CallRemove e)
  then show ?thesis using remove_destination_refines [OF assms, of e] by simp
qed (use assms add_destination_refines [OF assms] in
  \<open>auto simp: add_broadcast_destination_def add_multicast_destination_def clear_destinations_def
    udp_shutdown_def udp_initialize_def udp_initialize_multicast_def udp_ok_def dest_list_def Let_def
    split: prod.splits option.splits\<close>)

fun udp_calls :: "(udp_endpoint \<Rightarrow> bool) \<Rightarrow> udp_request list \<Rightarrow> udp_transport \<Rightarrow> bool option list \<times> udp_transport" where
  "udp_calls valid [] s = ([], s)"
| "udp_calls valid (c # cs) s = (let (r, s1) = udp_call_on valid c s; (rs, s2) = udp_calls valid cs s1 in (r # rs, s2))"

fun spec_calls ::
    "nat \<Rightarrow> (udp_endpoint \<Rightarrow> bool) \<Rightarrow> udp_request list \<Rightarrow> bool \<times> udp_endpoint list \<Rightarrow> bool option list \<times> bool \<times> udp_endpoint list" where
  "spec_calls slots valid [] a = ([], a)"
| "spec_calls slots valid (c # cs) a =
     (let (r, a1) = spec_call slots valid c a; (rs, a2) = spec_calls slots valid cs a1 in (r # rs, a2))"

lemma udp_calls_refine:
  "udp_ok slots valid s \<Longrightarrow> udp_calls valid cs s = (rs, s1) \<Longrightarrow>
     udp_ok slots valid s1 \<and>
     spec_calls slots valid cs (ud_initialized s, dest_list s) = (rs, ud_initialized s1, dest_list s1)"
proof (induction cs arbitrary: s rs)
  case (Cons c cs)
  obtain r s2 where c: "udp_call_on valid c s = (r, s2)" by fastforce
  obtain qs where q: "udp_calls valid cs s2 = (qs, s1)" "rs = r # qs"
    using Cons.prems(2) c by (auto split: prod.splits)
  show ?case using udp_call_refines [OF Cons.prems(1), of c] Cons.IH [OF _ q(1)] c q(2) by simp
qed simp

section \<open>Sending to every destination\<close>

fun begun_to :: "udp_event list \<Rightarrow> udp_endpoint list" where
  "begun_to [] = []"
| "begun_to (UdBeginPacket a p ok # es) = \<lparr>en_octets = a, en_port = p\<rparr> # begun_to es"
| "begun_to (e # es) = begun_to es"

text \<open>An answer with which a datagram went out whole.\<close>

definition sent_whole :: "bytes \<Rightarrow> bool \<times> nat \<times> bool \<Rightarrow> bool" where
  "sent_whole p a \<longleftrightarrow> fst a \<and> fst (snd a) = length p \<and> snd (snd a)"

lemma send_each_all:
  "length answers = length ds \<Longrightarrow>
     begun_to (snd (send_each p ds answers)) = ds \<and>
     fst (send_each p ds answers) = list_all (sent_whole p) answers"
  by (induction p ds answers rule: send_each.induct) (auto simp: sent_whole_def split: prod.splits)

text \<open>C34: The destination array with its counter is a list without repetitions of at most as many valid
  destinations as there are slots: through any sequence of additions, removals, clearings,
  initialisations and shutdowns every call returns what it returns on that list and leaves what it
  leaves there (removal keeps the order). Send then tries every destination of the list, in order
  and once, whatever fails on the way, and succeeds exactly when each datagram went out whole.\<close>

theorem udp_destinations_refine:
  assumes "length (ud_destinations s) = slots" "ud_count s = 0"
    and "udp_calls valid cs s = (rs, s1)"
  shows "udp_ok slots valid s1 \<and>
    spec_calls slots valid cs (ud_initialized s, []) = (rs, ud_initialized s1, dest_list s1) \<and>
    (\<forall>p answers. ud_initialized s1 \<and> p \<noteq> [] \<and> length p \<le> max_packet \<and> dest_list s1 \<noteq> [] \<and>
       length answers = length (dest_list s1) \<longrightarrow>
       begun_to (snd (udp_send max_packet answers (Some p) s1)) = dest_list s1 \<and>
       fst (udp_send max_packet answers (Some p) s1) = list_all (sent_whole p) answers)"
proof -
  have "udp_ok slots valid s" "dest_list s = []" using assms(1,2) by (simp_all add: udp_ok_def dest_list_def)
  then show ?thesis
    using udp_calls_refine [OF _ assms(3)] send_each_all
    by (auto simp: udp_send_def dest_list_def)
qed

definition demo_udp :: udp_transport where
  "demo_udp = \<lparr>ud_local_port = 0, ud_allow_broadcast = True, ud_destinations = [\<lparr>en_octets = (0, 0, 0, 0), en_port = 0\<rparr>, \<lparr>en_octets = (0, 0, 0, 0), en_port = 0\<rparr>],
     ud_count = 0, ud_receiver = None, ud_initialized = False\<rparr>"

lemma udp_destinations_refine_witness:
  "(let e1 = \<lparr>en_octets = (10, 0, 0, 1), en_port = 5\<rparr>; e2 = \<lparr>en_octets = (10, 0, 0, 2), en_port = 5\<rparr>;
        e3 = \<lparr>en_octets = (10, 0, 0, 3), en_port = 5\<rparr>
    in case udp_calls (\<lambda>e. en_port e \<noteq> 0) [CallInit True True 9 True, CallAdd e1, CallAdd e1, CallAdd e2, CallAdd e3,
        CallRemove e1, CallAdd e3] demo_udp of
      (rs, s) \<Rightarrow> rs = [Some True, Some True, Some True, Some True, Some False, Some True, Some True] \<and>
        dest_list s = [e2, e3] \<and> udp_ok 2 (\<lambda>e. en_port e \<noteq> 0) s \<and>
        begun_to (snd (udp_send 512 [(False, 0, False), (True, 1, True)] (Some [7]) s)) = [e2, e3] \<and>
        \<not> fst (udp_send 512 [(False, 0, False), (True, 1, True)] (Some [7]) s))"
proof -
  let ?e1 = "\<lparr>en_octets = (10, 0, 0, 1), en_port = 5\<rparr>" let ?e2 = "\<lparr>en_octets = (10, 0, 0, 2), en_port = 5\<rparr>"
  let ?e3 = "\<lparr>en_octets = (10, 0, 0, 3), en_port = 5\<rparr>"
  let ?cs = "[CallInit True True 9 True, CallAdd ?e1, CallAdd ?e1, CallAdd ?e2, CallAdd ?e3, CallRemove ?e1, CallAdd ?e3]"
  obtain rs s where r: "udp_calls (\<lambda>e. en_port e \<noteq> 0) ?cs demo_udp = (rs, s)" by fastforce
  have c: "rs = [Some True, Some True, Some True, Some True, Some False, Some True, Some True]"
    "dest_list s = [?e2, ?e3]" "ud_initialized s"
    using r by (auto simp: demo_udp_def udp_initialize_def add_destination_def remove_destination_def
        find_destination.simps shift_down.simps dest_list_def Let_def)
  show ?thesis
    using udp_destinations_refine [OF _ _ r, of 2 512] c r
    by (simp add: demo_udp_def sent_whole_def)
qed

end
