(* ===== verification/Memory_Provider.thy ===== *)
theory Memory_Provider
  imports Platform_Types
begin

text \<open>
  src/ESPressio_MemoryProvider.hpp: policy-aware allocation on the ESP-IDF heap, with its
  statistics.

  The heap answers through the environment of a call, a function of alignment, bytes and
  capabilities; each call made to it is an event, tagged with the policy it serves, with its
  outcome. An address is a number, the null pointer and a thrown \<open>std::bad_alloc\<close> are \<open>None\<close>. Sizes
  are natural numbers, the counters 32-bit words that wrap.
\<close>

datatype memory_policy = PolicyAutomatic | PolicyInternal | PolicyExternalPreferred | PolicyExternalRequired | PolicyOther int

datatype heap_cap = CapInternal | CapSpiram | Cap8Bit

record memory_env =
  mv_alloc :: "nat \<Rightarrow> nat \<Rightarrow> heap_cap set \<Rightarrow> nat option"
  mv_malloc :: "nat \<Rightarrow> heap_cap set \<Rightarrow> nat option"
  mv_spiram_size :: nat

text \<open>The build: the version of ESP-IDF, and whether \<open>malloc\<close> may use external memory.\<close>

record memory_build =
  mb_idf4 :: bool
  mb_spiram_malloc :: bool

record memory_provider =
  mp_auto_requests :: u32
  mp_auto_bytes :: u32
  mp_auto_successes :: u32
  mp_auto_success_bytes :: u32
  mp_auto_fallbacks :: u32
  mp_auto_fallback_bytes :: u32
  mp_internal_requests :: u32
  mp_internal_bytes :: u32
  mp_required_requests :: u32
  mp_required_bytes :: u32
  mp_preferred_requests :: u32
  mp_preferred_bytes :: u32
  mp_preferred_successes :: u32
  mp_preferred_success_bytes :: u32
  mp_preferred_fallbacks :: u32
  mp_preferred_fallback_bytes :: u32
  mp_threshold :: u32
  mp_enabled :: bool

definition fresh_provider :: memory_provider where
  "fresh_provider = \<lparr>mp_auto_requests = 0, mp_auto_bytes = 0, mp_auto_successes = 0, mp_auto_success_bytes = 0,
     mp_auto_fallbacks = 0, mp_auto_fallback_bytes = 0, mp_internal_requests = 0, mp_internal_bytes = 0,
     mp_required_requests = 0, mp_required_bytes = 0, mp_preferred_requests = 0, mp_preferred_bytes = 0,
     mp_preferred_successes = 0, mp_preferred_success_bytes = 0, mp_preferred_fallbacks = 0,
     mp_preferred_fallback_bytes = 0, mp_threshold = 0, mp_enabled = False\<rparr>"

datatype memory_event =
    HeapCall memory_policy nat nat "heap_cap set" "nat option"
  | HeapFree nat
  | ExtmemEnable nat
  | Requested memory_policy nat

definition clamp_to_uint32 :: "nat \<Rightarrow> u32" where
  "clamp_to_uint32 n = (if n > 4294967295 then 4294967295 else word_of_nat n)"

definition try_allocate_with_caps ::
    "memory_build \<Rightarrow> memory_env \<Rightarrow> memory_policy \<Rightarrow> nat \<Rightarrow> nat \<Rightarrow> heap_cap set \<Rightarrow> nat option \<times> memory_event list" where
  "try_allocate_with_caps b env p bytes alignment caps =
     (if mb_idf4 b
      then (let a = (if alignment < 4 then 4 else alignment); r = mv_alloc env a bytes caps
            in (r, [HeapCall p a bytes caps r]))
      else (let r = mv_malloc env bytes caps in (r, [HeapCall p 0 bytes caps r])))"

text \<open>\<open>AllocateWithCaps\<close> throws where this gives \<open>None\<close>; it makes the same call.\<close>

definition allocate ::
    "memory_build \<Rightarrow> memory_env \<Rightarrow> nat \<Rightarrow> nat \<Rightarrow> memory_policy \<Rightarrow> memory_provider
      \<Rightarrow> nat option \<times> memory_provider \<times> memory_event list" where
  "allocate b env bytes0 alignment p s =
     (let bytes = (if bytes0 = 0 then 1 else bytes0); recorded = clamp_to_uint32 bytes;
          try = try_allocate_with_caps b env p bytes alignment
      in case p of
        PolicyInternal \<Rightarrow>
          let s1 = s\<lparr>mp_internal_requests := mp_internal_requests s + 1, mp_internal_bytes := mp_internal_bytes s + recorded\<rparr>;
              (r, es) = try {CapInternal, Cap8Bit}
          in (r, s1, Requested p bytes # es)
      | PolicyExternalRequired \<Rightarrow>
          let s1 = s\<lparr>mp_required_requests := mp_required_requests s + 1, mp_required_bytes := mp_required_bytes s + recorded\<rparr>;
              (r, es) = try {CapSpiram, Cap8Bit}
          in (r, s1, Requested p bytes # es)
      | PolicyExternalPreferred \<Rightarrow>
          let s1 = s\<lparr>mp_preferred_requests := mp_preferred_requests s + 1, mp_preferred_bytes := mp_preferred_bytes s + recorded\<rparr>;
              (r, es) = try {CapSpiram, Cap8Bit}
          in if r \<noteq> None
             then (r, s1\<lparr>mp_preferred_successes := mp_preferred_successes s1 + 1,
                         mp_preferred_success_bytes := mp_preferred_success_bytes s1 + recorded\<rparr>, Requested p bytes # es)
             else
               let s2 = s1\<lparr>mp_preferred_fallbacks := mp_preferred_fallbacks s1 + 1,
                           mp_preferred_fallback_bytes := mp_preferred_fallback_bytes s1 + recorded\<rparr>;
                   (r2, fs) = try {CapInternal, Cap8Bit}
               in (r2, s2, Requested p bytes # es @ fs)
      | _ \<Rightarrow>
          let s1 = s\<lparr>mp_auto_requests := mp_auto_requests s + 1, mp_auto_bytes := mp_auto_bytes s + recorded\<rparr>
          in if mp_enabled s1 \<and> bytes \<ge> unat (mp_threshold s1)
             then
               let (r, es) = try {CapSpiram, Cap8Bit}
               in if r \<noteq> None
                  then (r, s1\<lparr>mp_auto_successes := mp_auto_successes s1 + 1,
                              mp_auto_success_bytes := mp_auto_success_bytes s1 + recorded\<rparr>, Requested p bytes # es)
                  else
                    let s2 = s1\<lparr>mp_auto_fallbacks := mp_auto_fallbacks s1 + 1,
                                mp_auto_fallback_bytes := mp_auto_fallback_bytes s1 + recorded\<rparr>;
                        (r2, fs) = try {Cap8Bit}
                    in (r2, s2, Requested p bytes # es @ fs)
             else (let (r, es) = try {Cap8Bit} in (r, s1, Requested p bytes # es)))"

definition deallocate :: "nat option \<Rightarrow> memory_event list" where
  "deallocate pointer = (case pointer of None \<Rightarrow> [] | Some a \<Rightarrow> [HeapFree a])"

definition memory_supports :: "memory_env \<Rightarrow> memory_policy \<Rightarrow> bool" where
  "memory_supports env p =
     (if p = PolicyExternalRequired \<or> p = PolicyExternalPreferred then mv_spiram_size env \<noteq> 0 else True)"

definition configure_automatic_external_preference ::
    "memory_build \<Rightarrow> memory_env \<Rightarrow> nat \<Rightarrow> memory_provider \<Rightarrow> bool \<times> memory_provider \<times> memory_event list" where
  "configure_automatic_external_preference b env minimum s =
     (if \<not> mb_spiram_malloc b then (False, s, [])
      else if mv_spiram_size env = 0 then (False, s, [])
      else (True, s\<lparr>mp_threshold := clamp_to_uint32 minimum, mp_enabled := True\<rparr>, [ExtmemEnable minimum]))"

text \<open>\<open>InstallMemoryProvider\<close>, with the two settings of the build it reads; \<open>SetProvider\<close> is ESPressio-System's.\<close>

definition install_memory_provider ::
    "memory_build \<Rightarrow> memory_env \<Rightarrow> bool \<Rightarrow> nat \<Rightarrow> memory_provider \<Rightarrow> memory_provider \<times> memory_event list" where
  "install_memory_provider b env on_install threshold s =
     (if on_install then snd (configure_automatic_external_preference b env threshold s) else (s, []))"

section \<open>Statistics\<close>

record memory_statistics =
  AutomaticRequests :: u32
  AutomaticBytes :: u32
  AutomaticExternalSuccesses :: u32
  AutomaticExternalBytes :: u32
  AutomaticExternalFallbacks :: u32
  AutomaticExternalFallbackBytes :: u32
  InternalRequests :: u32
  InternalBytes :: u32
  ExternalRequiredRequests :: u32
  ExternalRequiredBytes :: u32
  ExternalPreferredRequests :: u32
  ExternalPreferredBytes :: u32
  ExternalPreferredExternalSuccesses :: u32
  ExternalPreferredExternalBytes :: u32
  ExternalPreferredInternalFallbacks :: u32
  ExternalPreferredInternalFallbackBytes :: u32
  AutomaticExternalPreferenceThresholdBytes :: u32
  AutomaticExternalPreferenceEnabled :: bool

definition provider_statistics :: "memory_provider \<Rightarrow> memory_statistics" where
  "provider_statistics s = \<lparr>AutomaticRequests = mp_auto_requests s, AutomaticBytes = mp_auto_bytes s,
     AutomaticExternalSuccesses = mp_auto_successes s, AutomaticExternalBytes = mp_auto_success_bytes s,
     AutomaticExternalFallbacks = mp_auto_fallbacks s, AutomaticExternalFallbackBytes = mp_auto_fallback_bytes s,
     InternalRequests = mp_internal_requests s, InternalBytes = mp_internal_bytes s,
     ExternalRequiredRequests = mp_required_requests s, ExternalRequiredBytes = mp_required_bytes s,
     ExternalPreferredRequests = mp_preferred_requests s, ExternalPreferredBytes = mp_preferred_bytes s,
     ExternalPreferredExternalSuccesses = mp_preferred_successes s,
     ExternalPreferredExternalBytes = mp_preferred_success_bytes s,
     ExternalPreferredInternalFallbacks = mp_preferred_fallbacks s,
     ExternalPreferredInternalFallbackBytes = mp_preferred_fallback_bytes s,
     AutomaticExternalPreferenceThresholdBytes = mp_threshold s,
     AutomaticExternalPreferenceEnabled = mp_enabled s\<rparr>"

section \<open>Histories\<close>

datatype memory_op =
    MemAllocate memory_env nat nat memory_policy
  | MemDeallocate "nat option"
  | MemConfigure memory_env nat

fun memory_do :: "memory_build \<Rightarrow> memory_op \<Rightarrow> memory_provider \<Rightarrow> memory_provider \<times> memory_event list" where
  "memory_do b (MemAllocate env n a p) s = snd (allocate b env n a p s)"
| "memory_do b (MemDeallocate q) s = (s, deallocate q)"
| "memory_do b (MemConfigure env n) s = snd (configure_automatic_external_preference b env n s)"

fun memory_run :: "memory_build \<Rightarrow> memory_op list \<Rightarrow> memory_provider \<Rightarrow> memory_provider \<times> memory_event list" where
  "memory_run b [] s = (s, [])"
| "memory_run b (op # ops) s = (let (s1, es) = memory_do b op s; (s2, fs) = memory_run b ops s1 in (s2, es @ fs))"

text \<open>What a log says: how many of its events satisfy a predicate, and the bytes of those.\<close>

fun event_bytes :: "memory_event \<Rightarrow> nat" where
  "event_bytes (HeapCall p a n caps r) = n"
| "event_bytes (Requested p n) = n"
| "event_bytes e = 0"

definition how_many :: "(memory_event \<Rightarrow> bool) \<Rightarrow> memory_event list \<Rightarrow> u32" where
  "how_many P es = of_nat (length (filter P es))"

definition bytes_of :: "(memory_event \<Rightarrow> bool) \<Rightarrow> memory_event list \<Rightarrow> u32" where
  "bytes_of P es = sum_list (map (\<lambda>e. clamp_to_uint32 (event_bytes e)) (filter P es))"

definition automatic :: "memory_policy \<Rightarrow> bool" where
  "automatic p \<longleftrightarrow> (case p of PolicyAutomatic \<Rightarrow> True | PolicyOther n \<Rightarrow> True | _ \<Rightarrow> False)"

fun request_by :: "(memory_policy \<Rightarrow> bool) \<Rightarrow> memory_event \<Rightarrow> bool" where
  "request_by P (Requested p n) = P p"
| "request_by P e = False"

fun external_by :: "(memory_policy \<Rightarrow> bool) \<Rightarrow> bool \<Rightarrow> memory_event \<Rightarrow> bool" where
  "external_by P ok (HeapCall p a n caps r) = (P p \<and> CapSpiram \<in> caps \<and> (r \<noteq> None) = ok)"
| "external_by P ok e = False"

text \<open>The statistics a log gives, with the threshold and the preference last configured.\<close>

definition statistics_of :: "memory_event list \<Rightarrow> memory_statistics" where
  "statistics_of es = \<lparr>
     AutomaticRequests = how_many (request_by automatic) es,
     AutomaticBytes = bytes_of (request_by automatic) es,
     AutomaticExternalSuccesses = how_many (external_by automatic True) es,
     AutomaticExternalBytes = bytes_of (external_by automatic True) es,
     AutomaticExternalFallbacks = how_many (external_by automatic False) es,
     AutomaticExternalFallbackBytes = bytes_of (external_by automatic False) es,
     InternalRequests = how_many (request_by ((=) PolicyInternal)) es,
     InternalBytes = bytes_of (request_by ((=) PolicyInternal)) es,
     ExternalRequiredRequests = how_many (request_by ((=) PolicyExternalRequired)) es,
     ExternalRequiredBytes = bytes_of (request_by ((=) PolicyExternalRequired)) es,
     ExternalPreferredRequests = how_many (request_by ((=) PolicyExternalPreferred)) es,
     ExternalPreferredBytes = bytes_of (request_by ((=) PolicyExternalPreferred)) es,
     ExternalPreferredExternalSuccesses = how_many (external_by ((=) PolicyExternalPreferred) True) es,
     ExternalPreferredExternalBytes = bytes_of (external_by ((=) PolicyExternalPreferred) True) es,
     ExternalPreferredInternalFallbacks = how_many (external_by ((=) PolicyExternalPreferred) False) es,
     ExternalPreferredInternalFallbackBytes = bytes_of (external_by ((=) PolicyExternalPreferred) False) es,
     AutomaticExternalPreferenceThresholdBytes =
       fold (\<lambda>e t. case e of ExtmemEnable n \<Rightarrow> clamp_to_uint32 n | _ \<Rightarrow> t) es 0,
     AutomaticExternalPreferenceEnabled = (\<exists>e \<in> set es. case e of ExtmemEnable n \<Rightarrow> True | _ \<Rightarrow> False)\<rparr>"

lemma how_many_append: "how_many P (xs @ ys) = how_many P xs + how_many P ys"
  by (simp add: how_many_def)

lemma bytes_of_append: "bytes_of P (xs @ ys) = bytes_of P xs + bytes_of P ys"
  by (simp add: bytes_of_def)

lemma how_many_simps: "how_many P [] = 0" "how_many P (e # es) = (if P e then 1 else 0) + how_many P es"
  by (simp_all add: how_many_def)

lemma bytes_of_simps:
  "bytes_of P [] = 0" "bytes_of P (e # es) = (if P e then clamp_to_uint32 (event_bytes e) else 0) + bytes_of P es"
  by (simp_all add: bytes_of_def)

text \<open>What an event adds to the statistics.\<close>

definition account :: "memory_event \<Rightarrow> memory_provider \<Rightarrow> memory_provider" where
  "account e s = (case e of
       Requested p n \<Rightarrow> (let b = clamp_to_uint32 n in
         if automatic p then s\<lparr>mp_auto_requests := mp_auto_requests s + 1, mp_auto_bytes := mp_auto_bytes s + b\<rparr>
         else if p = PolicyInternal
         then s\<lparr>mp_internal_requests := mp_internal_requests s + 1, mp_internal_bytes := mp_internal_bytes s + b\<rparr>
         else if p = PolicyExternalRequired
         then s\<lparr>mp_required_requests := mp_required_requests s + 1, mp_required_bytes := mp_required_bytes s + b\<rparr>
         else s\<lparr>mp_preferred_requests := mp_preferred_requests s + 1, mp_preferred_bytes := mp_preferred_bytes s + b\<rparr>)
     | HeapCall p a n caps r \<Rightarrow> (let b = clamp_to_uint32 n in
         if CapSpiram \<notin> caps then s
         else if automatic p then
           (if r \<noteq> None
            then s\<lparr>mp_auto_successes := mp_auto_successes s + 1, mp_auto_success_bytes := mp_auto_success_bytes s + b\<rparr>
            else s\<lparr>mp_auto_fallbacks := mp_auto_fallbacks s + 1, mp_auto_fallback_bytes := mp_auto_fallback_bytes s + b\<rparr>)
         else if p = PolicyExternalPreferred then
           (if r \<noteq> None
            then s\<lparr>mp_preferred_successes := mp_preferred_successes s + 1, mp_preferred_success_bytes := mp_preferred_success_bytes s + b\<rparr>
            else s\<lparr>mp_preferred_fallbacks := mp_preferred_fallbacks s + 1, mp_preferred_fallback_bytes := mp_preferred_fallback_bytes s + b\<rparr>)
         else s)
     | HeapFree a \<Rightarrow> s
     | ExtmemEnable n \<Rightarrow> s\<lparr>mp_threshold := clamp_to_uint32 n, mp_enabled := True\<rparr>)"

lemma account_event:
  assumes "provider_statistics s = statistics_of log"
  shows "provider_statistics (account e s) = statistics_of (log @ [e])"
proof (cases e)
  case (Requested p n)
  then show ?thesis using assms
    by (cases p) (simp_all add: account_def provider_statistics_def statistics_of_def how_many_append
      bytes_of_append how_many_simps bytes_of_simps automatic_def Let_def)
next
  case (HeapCall p a n caps r)
  then show ?thesis using assms
    by (cases p; cases "CapSpiram \<in> caps"; cases r) (simp_all add: account_def provider_statistics_def statistics_of_def
      how_many_append bytes_of_append how_many_simps bytes_of_simps automatic_def Let_def)
qed (use assms in \<open>simp_all add: account_def provider_statistics_def statistics_of_def how_many_append
      bytes_of_append how_many_simps bytes_of_simps\<close>)

lemma account_events:
  "provider_statistics s = statistics_of log \<Longrightarrow> provider_statistics (fold account es s) = statistics_of (log @ es)"
proof (induction es arbitrary: s log)
  case (Cons e es)
  then show ?case using Cons.IH [OF account_event [OF Cons.prems, of e]] by simp
qed simp

lemma try_result: "try_allocate_with_caps b env p n a caps = (r, es) \<Longrightarrow> \<exists>a. es = [HeapCall p a n caps r]"
  by (auto simp: try_allocate_with_caps_def Let_def split: if_splits)

lemma allocate_accounts: "allocate b env n a p s = (r, s1, es) \<Longrightarrow> s1 = fold account es s"
  by (cases p) (auto simp: allocate_def Let_def account_def automatic_def split: prod.splits if_splits dest!: try_result)

lemma memory_step_accounts: "memory_do b op s = (s1, es) \<Longrightarrow> s1 = fold account es s"
proof (cases op)
  case (MemAllocate env n a p)
  then show "memory_do b op s = (s1, es) \<Longrightarrow> ?thesis"
    using allocate_accounts [of b env n a p s "fst (allocate b env n a p s)"] by (simp add: prod_eq_iff)
qed (auto simp: deallocate_def configure_automatic_external_preference_def account_def split: option.splits if_splits)

lemma memory_run_accounts: "memory_run b ops s = (s1, es) \<Longrightarrow> s1 = fold account es s"
proof (induction ops arbitrary: s es)
  case (Cons op ops)
  obtain s2 fs where f: "memory_do b op s = (s2, fs)" by fastforce
  obtain gs where g: "memory_run b ops s2 = (s1, gs)" "es = fs @ gs"
    using Cons.prems f by (auto split: prod.splits)
  show ?case using Cons.IH [OF g(1)] memory_step_accounts [OF f] g(2) by simp
qed simp

text \<open>What each policy may ask the heap for: its capabilities, and the ordinary heap only after external
  memory was refused, or, for automatic requests, is not preferred for the size.\<close>

definition placed :: "memory_policy \<Rightarrow> bool \<Rightarrow> nat \<Rightarrow> nat option \<Rightarrow> memory_event list \<Rightarrow> bool" where
  "placed p preferred n r es \<longleftrightarrow> (\<exists>a. case p of
       PolicyInternal \<Rightarrow> es = [Requested p n, HeapCall p a n {CapInternal, Cap8Bit} r]
     | PolicyExternalRequired \<Rightarrow> es = [Requested p n, HeapCall p a n {CapSpiram, Cap8Bit} r]
     | PolicyExternalPreferred \<Rightarrow>
         (r \<noteq> None \<and> es = [Requested p n, HeapCall p a n {CapSpiram, Cap8Bit} r]) \<or>
         es = [Requested p n, HeapCall p a n {CapSpiram, Cap8Bit} None, HeapCall p a n {CapInternal, Cap8Bit} r]
     | _ \<Rightarrow> if preferred
         then (r \<noteq> None \<and> es = [Requested p n, HeapCall p a n {CapSpiram, Cap8Bit} r]) \<or>
           es = [Requested p n, HeapCall p a n {CapSpiram, Cap8Bit} None, HeapCall p a n {Cap8Bit} r]
         else es = [Requested p n, HeapCall p a n {Cap8Bit} r])"

lemma allocate_placed:
  assumes "allocate b env n a p s = (r, s1, es)"
  shows "placed p (mp_enabled s \<and> max 1 n \<ge> unat (mp_threshold s)) (max 1 n) r es"
proof -
  have n: "(if n = 0 then 1 else n) = max 1 n" by auto
  show ?thesis using assms
    by (cases p) (auto simp: allocate_def n Let_def try_allocate_with_caps_def placed_def dest: sym split: if_splits)
qed

text \<open>Once an external preference is configured, Automatic asks for external memory first, from the
  threshold on.\<close>

lemma automatic_prefers_external:
  assumes "configure_automatic_external_preference b env0 minimum s = (True, s1, es)"
    and "unat (clamp_to_uint32 minimum) \<le> n" "0 < n" "allocate b env n a PolicyAutomatic s1 = (r, s2, fs)"
  shows "\<exists>a' r' rest. fs = Requested PolicyAutomatic n # HeapCall PolicyAutomatic a' n {CapSpiram, Cap8Bit} r' # rest"
proof -
  have "mp_enabled s1" "mp_threshold s1 = clamp_to_uint32 minimum"
    using assms(1) by (auto simp: configure_automatic_external_preference_def split: if_splits)
  then show ?thesis
    using allocate_placed [OF assms(4)] assms(2,3) by (auto simp: placed_def max_def split: if_splits)
qed

text \<open>C36: After any sequence of allocations, deallocations and configurations the statistics are those of the
  log of heap calls: each counter is, modulo 2^32, the number of the requests or calls it names and
  their bytes, a fallback is exactly a refusal of external memory, and threshold and preference are
  the last configured. And every allocation asks the heap only for what its policy allows: internal
  memory for Internal, external for ExternalRequired, internal after external was refused for
  ExternalPreferred, the ordinary heap for Automatic, after external exactly where that is preferred;
  it fails exactly when the last of these calls does. (The remark at \<open>ConfigureAutomaticExternalPreference\<close>
  says so too; the README's memory table gives Automatic the general heap only.)\<close>

theorem memory_accounting:
  assumes "memory_run b ops fresh_provider = (s, log)" and "allocate b env n a p s = (r, s1, es)"
  shows "provider_statistics s = statistics_of log \<and> provider_statistics s1 = statistics_of (log @ es) \<and>
    placed p (mp_enabled s \<and> max 1 n \<ge> unat (mp_threshold s)) (max 1 n) r es"
proof -
  have start: "provider_statistics fresh_provider = statistics_of []"
    by (simp add: fresh_provider_def provider_statistics_def statistics_of_def how_many_simps bytes_of_simps)
  have "provider_statistics s = statistics_of log"
    using account_events [OF start, of log] memory_run_accounts [OF assms(1)] by simp
  then show ?thesis
    using account_events allocate_accounts [OF assms(2)] allocate_placed [OF assms(2)] by blast
qed

definition demo_heap :: memory_env where
  "demo_heap = \<lparr>mv_alloc = (\<lambda>a n caps. if CapSpiram \<in> caps \<and> n > 100 then None else Some (1000 + n)),
     mv_malloc = (\<lambda>n caps. None), mv_spiram_size = 4096\<rparr>"

lemma memory_accounting_witness:
  "(case memory_run \<lparr>mb_idf4 = True, mb_spiram_malloc = True\<rparr>
       [MemConfigure demo_heap 64, MemAllocate demo_heap 70 8 PolicyAutomatic, MemAllocate demo_heap 10 8 PolicyAutomatic]
       fresh_provider of
     (s, log) \<Rightarrow> (case allocate \<lparr>mb_idf4 = True, mb_spiram_malloc = True\<rparr> demo_heap 200 1 PolicyExternalPreferred s of
       (r, s1, es) \<Rightarrow> r = Some 1200 \<and> AutomaticRequests (provider_statistics s1) = 2 \<and>
         AutomaticExternalBytes (provider_statistics s1) = 70 \<and>
         ExternalPreferredInternalFallbacks (provider_statistics s1) = 1 \<and>
         provider_statistics s1 = statistics_of (log @ es)))"
proof -
  define ops where "ops = [MemConfigure demo_heap 64, MemAllocate demo_heap 70 8 PolicyAutomatic, MemAllocate demo_heap 10 8 PolicyAutomatic]"
  obtain s log where r: "memory_run \<lparr>mb_idf4 = True, mb_spiram_malloc = True\<rparr> ops fresh_provider = (s, log)" by fastforce
  obtain q s1 es where q: "allocate \<lparr>mb_idf4 = True, mb_spiram_malloc = True\<rparr> demo_heap 200 1 PolicyExternalPreferred s = (q, s1, es)"
    by (metis prod_cases3)
  have "q = Some 1200 \<and> AutomaticRequests (provider_statistics s1) = 2 \<and>
    AutomaticExternalBytes (provider_statistics s1) = 70 \<and> ExternalPreferredInternalFallbacks (provider_statistics s1) = 1"
    using r q by (auto simp: ops_def demo_heap_def fresh_provider_def configure_automatic_external_preference_def
        allocate_def try_allocate_with_caps_def clamp_to_uint32_def provider_statistics_def Let_def)
  then show ?thesis using memory_accounting [OF r q] r q by (simp add: ops_def)
qed

end
