(* ===== verification/System_Providers.thy ===== *)
theory System_Providers
  imports Memory_Provider
begin

text \<open>
  The small providers of ESPressio-System: clocks (src/ESPressio_ClockProvider.hpp), queues
  (src/ESPressio_QueueProvider.hpp), synchronisation (src/ESPressio_SynchronizationProvider.hpp),
  tasks (src/ESPressio_ExecutionProvider.hpp), entropy (src/ESPressio_EntropyProvider.hpp) and byte
  streams (src/ESPressio_ArduinoByteStream.hpp).

  FreeRTOS, the timer driver and the Arduino streams answer through the arguments of a call; the
  calls made on them are events. What the macro \<open>pdMS_TO_TICKS\<close> makes of a number of milliseconds
  is the field \<open>wt_native\<close> of a wait.
\<close>

section \<open>Clocks\<close>

text \<open>\<open>t\<close> is \<open>esp_timer_get_time\<close>, a signed 64-bit number of microseconds.\<close>

definition monotonic_now_nanoseconds :: "int \<Rightarrow> u64" where
  "monotonic_now_nanoseconds t = of_int t * 1000"

record counter =
  hc_timer :: bool
  hc_resolution :: u64
  hc_result :: platform_result
  hc_enabled :: bool
  hc_running :: bool

datatype timer_event =
    TmNew u32 esp_err
  | TmEnable esp_err
  | TmDisable
  | TmDelete
  | TmStart esp_err
  | TmStop esp_err
  | TmSetRaw u64 esp_err
  | TmGetRaw esp_err

definition counter_create :: "esp_err \<Rightarrow> esp_err \<Rightarrow> u64 \<Rightarrow> counter \<times> timer_event list" where
  "counter_create created enabled hz =
     (let c = \<lparr>hc_timer = False, hc_resolution = 0, hc_result = Failed PS_Unavailable None,
            hc_enabled = False, hc_running = False\<rparr>
      in if hz = 0 \<or> hz > 4294967295 then (c\<lparr>hc_result := Failed PS_InvalidArgument None\<rparr>, [])
         else if created \<noteq> ESP_OK
         then (c\<lparr>hc_result := platform_result_from_esp_error created\<rparr>, [TmNew (ucast hz) created])
         else if enabled \<noteq> ESP_OK
         then (c\<lparr>hc_result := platform_result_from_esp_error enabled\<rparr>, [TmNew (ucast hz) created, TmEnable enabled, TmDelete])
         else (c\<lparr>hc_timer := True, hc_enabled := True, hc_resolution := hz, hc_result := Succeeded\<rparr>,
           [TmNew (ucast hz) created, TmEnable enabled]))"

definition counter_destroy :: "esp_err \<Rightarrow> counter \<Rightarrow> timer_event list" where
  "counter_destroy stopped c =
     (if \<not> hc_timer c then []
      else (if hc_running c then [TmStop stopped] else []) @ (if hc_enabled c then [TmDisable] else []) @ [TmDelete])"

definition counter_start :: "esp_err \<Rightarrow> counter \<Rightarrow> platform_result \<times> counter \<times> timer_event list" where
  "counter_start answer c =
     (if \<not> hc_timer c then (hc_result c, c, [])
      else if hc_running c then (Succeeded, c, [])
      else (platform_result_from_esp_error answer, if answer = ESP_OK then c\<lparr>hc_running := True\<rparr> else c, [TmStart answer]))"

definition counter_stop :: "esp_err \<Rightarrow> counter \<Rightarrow> platform_result \<times> counter \<times> timer_event list" where
  "counter_stop answer c =
     (if \<not> hc_timer c then (hc_result c, c, [])
      else if \<not> hc_running c then (Succeeded, c, [])
      else (platform_result_from_esp_error answer, if answer = ESP_OK then c\<lparr>hc_running := False\<rparr> else c, [TmStop answer]))"

definition counter_reset :: "esp_err \<Rightarrow> counter \<Rightarrow> platform_result \<times> timer_event list" where
  "counter_reset answer c =
     (if \<not> hc_timer c then (hc_result c, []) else (platform_result_from_esp_error answer, [TmSetRaw 0 answer]))"

text \<open>\<open>n\<close> is what the caller's variable holds after the native call.\<close>

definition counter_read :: "esp_err \<Rightarrow> u64 \<Rightarrow> counter \<Rightarrow> platform_result \<times> u64 \<times> timer_event list" where
  "counter_read answer n c =
     (if \<not> hc_timer c then (hc_result c, 0, []) else (platform_result_from_esp_error answer, n, [TmGetRaw answer]))"

definition counter_is_available :: "counter \<Rightarrow> bool" where
  "counter_is_available c \<longleftrightarrow> hc_timer c \<and> platform_ok (hc_result c)"

datatype counter_op = CounterStart esp_err | CounterStop esp_err | CounterReset esp_err | CounterRead esp_err u64

fun counter_do :: "counter_op \<Rightarrow> counter \<Rightarrow> platform_result \<times> counter \<times> timer_event list" where
  "counter_do (CounterStart e) c = counter_start e c"
| "counter_do (CounterStop e) c = counter_stop e c"
| "counter_do (CounterReset e) c = (case counter_reset e c of (r, es) \<Rightarrow> (r, c, es))"
| "counter_do (CounterRead e n) c = (case counter_read e n c of (r, m, es) \<Rightarrow> (r, c, es))"

fun counter_run :: "counter_op list \<Rightarrow> counter \<Rightarrow> platform_result list \<times> counter \<times> timer_event list" where
  "counter_run [] c = ([], c, [])"
| "counter_run (op # ops) c = (let (r, c1, es) = counter_do op c; (rs, c2, fs) = counter_run ops c1 in (r # rs, c2, es @ fs))"

text \<open>The life of a timer of the driver, and the calls it accepts in each state.\<close>

datatype timer_state = NoTimer | TimerInit | TimerEnabled | TimerRunning

fun timer_step :: "timer_event \<Rightarrow> timer_state \<Rightarrow> timer_state option" where
  "timer_step (TmNew hz e) NoTimer = Some (if e = ESP_OK then TimerInit else NoTimer)"
| "timer_step (TmEnable e) TimerInit = Some (if e = ESP_OK then TimerEnabled else TimerInit)"
| "timer_step TmDisable TimerEnabled = Some TimerInit"
| "timer_step TmDelete TimerInit = Some NoTimer"
| "timer_step (TmStart e) TimerEnabled = Some (if e = ESP_OK then TimerRunning else TimerEnabled)"
| "timer_step (TmStop e) TimerRunning = Some (if e = ESP_OK then TimerEnabled else TimerRunning)"
| "timer_step (TmSetRaw n e) s = (if s = NoTimer then None else Some s)"
| "timer_step (TmGetRaw e) s = (if s = NoTimer then None else Some s)"
| "timer_step e s = None"

fun timer_life :: "timer_event list \<Rightarrow> timer_state \<Rightarrow> timer_state option" where
  "timer_life [] s = Some s"
| "timer_life (e # es) s = (case timer_step e s of None \<Rightarrow> None | Some t \<Rightarrow> timer_life es t)"

lemma timer_life_append: "timer_life (xs @ ys) s = (case timer_life xs s of None \<Rightarrow> None | Some t \<Rightarrow> timer_life ys t)"
  by (induction xs s rule: timer_life.induct) (auto split: option.splits)

text \<open>A well-formed counter, and the state its timer is in.\<close>

definition counter_ok :: "counter \<Rightarrow> bool" where
  "counter_ok c \<longleftrightarrow> (hc_timer c \<longleftrightarrow> hc_enabled c) \<and> (hc_running c \<longrightarrow> hc_timer c) \<and>
     (platform_ok (hc_result c) \<longleftrightarrow> hc_timer c) \<and> (hc_resolution c \<noteq> 0 \<longleftrightarrow> hc_timer c) \<and> hc_resolution c \<le> 4294967295"

definition timer_of :: "counter \<Rightarrow> timer_state" where
  "timer_of c = (if \<not> hc_timer c then NoTimer else if hc_running c then TimerRunning else TimerEnabled)"

lemma counter_create_ok:
  "counter_create created enabled hz = (c, es) \<Longrightarrow> counter_ok c \<and> timer_life es NoTimer = Some (timer_of c)"
  by (auto simp: counter_create_def counter_ok_def timer_of_def Let_def not_less split: if_splits)

lemma counter_do_ok:
  "counter_do op c = (r, c1, es) \<Longrightarrow> counter_ok c \<Longrightarrow>
     counter_ok c1 \<and> timer_life es (timer_of c) = Some (timer_of c1) \<and> (\<not> hc_timer c \<longrightarrow> r = hc_result c \<and> c1 = c \<and> es = []) \<and>
     hc_timer c1 = hc_timer c"
  by (cases op) (auto simp: counter_start_def counter_stop_def counter_reset_def counter_read_def counter_ok_def
      timer_of_def split: if_splits)

lemma counter_run_ok:
  "counter_run ops c = (rs, c1, es) \<Longrightarrow> counter_ok c \<Longrightarrow>
     counter_ok c1 \<and> timer_life es (timer_of c) = Some (timer_of c1) \<and> hc_timer c1 = hc_timer c \<and>
     (\<not> hc_timer c \<longrightarrow> c1 = c \<and> list_all (\<lambda>r. r = hc_result c) rs)"
proof (induction ops arbitrary: c rs es)
  case (Cons op ops)
  obtain r c2 fs where d: "counter_do op c = (r, c2, fs)" by (metis prod_cases3)
  obtain qs gs where q: "counter_run ops c2 = (qs, c1, gs)" "rs = r # qs" "es = fs @ gs"
    using Cons.prems(1) d by (auto split: prod.splits)
  show ?case
    using counter_do_ok [OF d Cons.prems(2)] Cons.IH [OF q(1)] q(2,3) by (auto simp: timer_life_append)
qed simp

text \<open>C39: A high-resolution counter is well formed from its construction through any sequence of Start,
  Stop, Reset and Read: it has a timer exactly when it is available, the timer is enabled, only a
  timer runs, and a failed construction answers every call with its own error. All calls on the timer
  driver are ones the driver accepts in the state its timer is in, the destructor leaves no timer
  behind (when stopping a running timer does not fail), and neither does a failed construction.\<close>

theorem counter_wellformed:
  assumes "counter_create created enabled hz = (c, es)" and "counter_run ops c = (rs, c1, fs)"
  shows "counter_ok c1 \<and> counter_is_available c1 = counter_is_available c \<and>
    timer_life (es @ fs) NoTimer = Some (timer_of c1) \<and>
    (stopped = ESP_OK \<or> \<not> hc_running c1 \<longrightarrow> timer_life (es @ fs @ counter_destroy stopped c1) NoTimer = Some NoTimer) \<and>
    (\<not> counter_is_available c \<longrightarrow> timer_of c1 = NoTimer \<and> list_all (\<lambda>r. r = hc_result c \<and> \<not> platform_ok r) rs)"
proof -
  note c = counter_create_ok [OF assms(1)]
  note r = counter_run_ok [OF assms(2) conjunct1 [OF c]]
  have life: "timer_life (es @ fs) NoTimer = Some (timer_of c1)" using c r by (simp add: timer_life_append)
  have "timer_life (counter_destroy stopped c1) (timer_of c1) = Some NoTimer"
    if "stopped = ESP_OK \<or> \<not> hc_running c1"
    using that r by (auto simp: counter_destroy_def timer_of_def counter_ok_def)
  then have "stopped = ESP_OK \<or> \<not> hc_running c1 \<longrightarrow>
      timer_life ((es @ fs) @ counter_destroy stopped c1) NoTimer = Some NoTimer"
    by (simp only: timer_life_append [of "es @ fs"] life option.case) simp
  then show ?thesis
    using c r life by (auto simp: append_assoc counter_is_available_def counter_ok_def timer_of_def list_all_iff)
qed

lemma counter_wellformed_witness:
  "(case counter_create ESP_OK ESP_OK 1000000 of (c, es) \<Rightarrow>
     (case counter_run [CounterStart ESP_OK, CounterStart ESP_FAIL, CounterRead ESP_OK 5] c of (rs, c1, fs) \<Rightarrow>
        rs = [Succeeded, Succeeded, Succeeded] \<and> hc_running c1 \<and> counter_ok c1 \<and>
        timer_life (es @ fs @ counter_destroy ESP_OK c1) NoTimer = Some NoTimer))"
proof -
  obtain c es where c: "counter_create ESP_OK ESP_OK 1000000 = (c, es)" by fastforce
  obtain rs c1 fs where r: "counter_run [CounterStart ESP_OK, CounterStart ESP_FAIL, CounterRead ESP_OK 5] c = (rs, c1, fs)"
    by (metis prod_cases3)
  have "rs = [Succeeded, Succeeded, Succeeded] \<and> hc_running c1"
    using c r by (auto simp: counter_create_def counter_start_def counter_read_def Let_def platform_result_from_esp_error_def)
  then show ?thesis using counter_wellformed [OF c r, of ESP_OK] c r by simp
qed

section \<open>Waiting\<close>

text \<open>\<open>WaitForever\<close> of ESPressio-System and \<open>portMAX_DELAY\<close> are constants of their libraries.\<close>

record wait_constants =
  wt_forever :: u32
  wt_max_delay :: u32
  wt_native :: "u32 \<Rightarrow> u32"

definition queue_ticks :: "wait_constants \<Rightarrow> u32 \<Rightarrow> u32" where
  "queue_ticks k ms =
     (if ms = wt_forever k then wt_max_delay k
      else let ticks = wt_native k ms in if ms \<noteq> 0 \<and> ticks = 0 then 1 else ticks)"

section \<open>Queues\<close>

record message_queue =
  mqu_queue :: bool
  mqu_element :: nat
  mqu_capacity :: nat
  mqu_with_caps :: bool

datatype queue_event =
    QuCreate u32 u32 bool
  | QuCreateWithCaps u32 u32 "heap_cap set" bool
  | QuDelete
  | QuDeleteWithCaps
  | QuSend bytes u32 bool
  | QuSendFromIsr bytes bool
  | QuYieldFromIsr
  | QuReceive u32 bool
  | QuReset bool

text \<open>\<open>normal\<close> and \<open>external\<close> are the answers of the two ways to create; \<open>static_allocation\<close> is a
  setting of the build. Sizes are converted to 32 bits on the way to FreeRTOS.\<close>

definition queue_create ::
    "bool \<Rightarrow> bool \<Rightarrow> bool \<Rightarrow> nat \<Rightarrow> nat \<Rightarrow> memory_policy \<Rightarrow> message_queue \<times> queue_event list" where
  "queue_create static_allocation normal external element capacity policy =
     (let q = \<lparr>mqu_queue = False, mqu_element = element, mqu_capacity = capacity, mqu_with_caps = False\<rparr>;
          n = of_nat capacity; e = of_nat element;
          plain = (q\<lparr>mqu_queue := normal\<rparr>, [QuCreate n e normal]);
          caps = QuCreateWithCaps n e {CapSpiram, Cap8Bit} external
      in if element = 0 \<or> capacity = 0 then (q, [])
         else (case policy of
             PolicyAutomatic \<Rightarrow> plain
           | PolicyInternal \<Rightarrow> plain
           | PolicyExternalPreferred \<Rightarrow>
               if \<not> static_allocation then plain
               else if external then (q\<lparr>mqu_queue := True, mqu_with_caps := True\<rparr>, [caps])
               else (fst plain, caps # snd plain)
           | PolicyExternalRequired \<Rightarrow>
               if \<not> static_allocation then (q, [])
               else (q\<lparr>mqu_queue := external, mqu_with_caps := external\<rparr>, [caps])
           | PolicyOther k \<Rightarrow> (q, [])))"

definition queue_destroy :: "message_queue \<Rightarrow> queue_event list" where
  "queue_destroy q = (if \<not> mqu_queue q then [] else if mqu_with_caps q then [QuDeleteWithCaps] else [QuDelete])"

definition queue_send ::
    "wait_constants \<Rightarrow> bool \<Rightarrow> bytes option \<Rightarrow> u32 \<Rightarrow> message_queue \<Rightarrow> platform_result \<times> queue_event list" where
  "queue_send k sent item ms q = (case item of
       None \<Rightarrow> (Failed PS_InvalidArgument None, [])
     | Some x \<Rightarrow>
         if \<not> mqu_queue q then (Failed PS_InvalidArgument None, [])
         else (if sent then Succeeded else Failed (if ms = 0 then PS_Busy else PS_Timeout) None,
           [QuSend x (queue_ticks k ms) sent]))"

definition queue_send_from_interrupt ::
    "bool \<Rightarrow> bool \<Rightarrow> bytes option \<Rightarrow> message_queue \<Rightarrow> platform_result \<times> queue_event list" where
  "queue_send_from_interrupt sent woken item q = (case item of
       None \<Rightarrow> (Failed PS_InvalidArgument None, [])
     | Some x \<Rightarrow>
         if \<not> mqu_queue q then (Failed PS_InvalidArgument None, [])
         else (if sent then Succeeded else Failed PS_Busy None,
           QuSendFromIsr x sent # (if woken then [QuYieldFromIsr] else [])))"

text \<open>\<open>buffer\<close> says whether there is one to receive into.\<close>

definition queue_receive ::
    "wait_constants \<Rightarrow> bool \<Rightarrow> bool \<Rightarrow> u32 \<Rightarrow> message_queue \<Rightarrow> platform_result \<times> queue_event list" where
  "queue_receive k received buffer ms q =
     (if \<not> mqu_queue q \<or> \<not> buffer then (Failed PS_InvalidArgument None, [])
      else (if received then Succeeded else Failed (if ms = 0 then PS_Busy else PS_Timeout) None,
        [QuReceive (queue_ticks k ms) received]))"

definition queue_reset :: "bool \<Rightarrow> message_queue \<Rightarrow> platform_result \<times> queue_event list" where
  "queue_reset done q =
     (if \<not> mqu_queue q then (Failed PS_Unavailable None, [])
      else (if done then Succeeded else Failed PS_HardwareFailure None, [QuReset done]))"

definition queue_size :: "nat \<Rightarrow> message_queue \<Rightarrow> nat" where
  "queue_size waiting q = (if mqu_queue q then waiting else 0)"

definition queue_provider_create ::
    "bool \<Rightarrow> bool \<Rightarrow> bool \<Rightarrow> nat \<Rightarrow> nat \<Rightarrow> memory_policy \<Rightarrow> message_queue option \<times> queue_event list" where
  "queue_provider_create static_allocation normal external element capacity policy =
     (case queue_create static_allocation normal external element capacity policy of
        (q, es) \<Rightarrow> if mqu_queue q then (Some q, es) else (None, es @ queue_destroy q))"

text \<open>A queue is deleted by the family of calls it was created with, and only when it was created.\<close>

lemma queue_deleted_as_created:
  assumes "queue_create st normal external element capacity policy = (q, es)"
  shows "queue_destroy q =
    (if QuCreateWithCaps (of_nat capacity) (of_nat element) {CapSpiram, Cap8Bit} True \<in> set es then [QuDeleteWithCaps]
     else if QuCreate (of_nat capacity) (of_nat element) True \<in> set es then [QuDelete] else [])"
  using assms by (auto simp: queue_create_def queue_destroy_def Let_def split: memory_policy.splits if_splits)

section \<open>Synchronisation\<close>

datatype sync_event =
    SyCreate bool
  | SyGive bool
  | SyGiveFromIsr bool
  | SyYieldFromIsr
  | SyTake u32 bool
  | SyTakeRecursive u32 bool
  | SyGiveRecursive
  | SyDelete

text \<open>A signal, a mutex, a recursive mutex and a lock are each a semaphore that may be missing.\<close>

record semaphore_object =
  sy_semaphore :: bool

definition signal_create :: "bool \<Rightarrow> bool \<Rightarrow> bool \<Rightarrow> semaphore_object \<times> sync_event list" where
  "signal_create created given initially_set =
     (\<lparr>sy_semaphore = created\<rparr>, SyCreate created # (if created \<and> initially_set then [SyGive given] else []))"

definition signal_destroy :: "semaphore_object \<Rightarrow> sync_event list" where
  "signal_destroy x = (if sy_semaphore x then [SyDelete] else [])"

definition signal_give :: "bool \<Rightarrow> semaphore_object \<Rightarrow> platform_result \<times> sync_event list" where
  "signal_give given x =
     (if \<not> sy_semaphore x then (Failed PS_Unavailable None, [])
      else (if given then Succeeded else Failed PS_Busy None, [SyGive given]))"

definition signal_give_from_interrupt :: "bool \<Rightarrow> bool \<Rightarrow> semaphore_object \<Rightarrow> platform_result \<times> sync_event list" where
  "signal_give_from_interrupt given woken x =
     (if \<not> sy_semaphore x then (Failed PS_Unavailable None, [])
      else (if given then Succeeded else Failed PS_Busy None,
        SyGiveFromIsr given # (if woken then [SyYieldFromIsr] else [])))"

definition signal_wait :: "wait_constants \<Rightarrow> bool \<Rightarrow> u32 \<Rightarrow> semaphore_object \<Rightarrow> platform_result \<times> sync_event list" where
  "signal_wait k taken ms x =
     (if \<not> sy_semaphore x then (Failed PS_Unavailable None, [])
      else
        let ticks = (if ms \<noteq> wt_forever k
              then (let t = wt_native k ms in if ms \<noteq> 0 \<and> t = 0 then 1 else t) else wt_max_delay k)
        in (if taken then Succeeded else Failed PS_Timeout None, [SyTake ticks taken]))"

text \<open>The loop of \<open>Reset\<close> takes the semaphore \<open>n\<close> times, for as often as it can be taken, and once in vain.\<close>

definition signal_reset :: "nat \<Rightarrow> semaphore_object \<Rightarrow> platform_result \<times> sync_event list" where
  "signal_reset n x =
     (if \<not> sy_semaphore x then (Failed PS_Unavailable None, [])
      else (Succeeded, replicate n (SyTake 0 True) @ [SyTake 0 False]))"

definition mutex_create :: "bool \<Rightarrow> semaphore_object \<times> sync_event list" where
  "mutex_create created = (\<lparr>sy_semaphore = created\<rparr>, [SyCreate created])"

definition mutex_lock :: "wait_constants \<Rightarrow> bool \<Rightarrow> semaphore_object \<Rightarrow> sync_event list" where
  "mutex_lock k taken x = (if sy_semaphore x then [SyTake (wt_max_delay k) taken] else [])"

definition mutex_try_lock :: "bool \<Rightarrow> semaphore_object \<Rightarrow> bool \<times> sync_event list" where
  "mutex_try_lock taken x = (if sy_semaphore x then (taken, [SyTake 0 taken]) else (False, []))"

definition mutex_unlock :: "bool \<Rightarrow> semaphore_object \<Rightarrow> sync_event list" where
  "mutex_unlock given x = (if sy_semaphore x then [SyGive given] else [])"

definition recursive_mutex_lock :: "wait_constants \<Rightarrow> bool \<Rightarrow> semaphore_object \<Rightarrow> sync_event list" where
  "recursive_mutex_lock k taken x = (if sy_semaphore x then [SyTakeRecursive (wt_max_delay k) taken] else [])"

definition recursive_mutex_try_lock :: "bool \<Rightarrow> semaphore_object \<Rightarrow> bool \<times> sync_event list" where
  "recursive_mutex_try_lock taken x = (if sy_semaphore x then (taken, [SyTakeRecursive 0 taken]) else (False, []))"

definition recursive_mutex_unlock :: "semaphore_object \<Rightarrow> sync_event list" where
  "recursive_mutex_unlock x = (if sy_semaphore x then [SyGiveRecursive] else [])"

text \<open>The read/write lock is one mutex; shared and exclusive calls are the same.\<close>

definition rw_lock :: "wait_constants \<Rightarrow> bool \<Rightarrow> semaphore_object \<Rightarrow> sync_event list" where
  "rw_lock k taken x = (if sy_semaphore x then [SyTake (wt_max_delay k) taken] else [])"

definition rw_try_lock :: "bool \<Rightarrow> semaphore_object \<Rightarrow> bool \<times> sync_event list" where
  "rw_try_lock taken x = (if sy_semaphore x then (taken, [SyTake 0 taken]) else (False, []))"

definition rw_unlock :: "bool \<Rightarrow> semaphore_object \<Rightarrow> sync_event list" where
  "rw_unlock given x = (if sy_semaphore x then [SyGive given] else [])"

text \<open>The provider hands out an object only with its semaphore.\<close>

definition provide :: "semaphore_object \<times> sync_event list \<Rightarrow> semaphore_object option \<times> sync_event list" where
  "provide r = (if sy_semaphore (fst r) then (Some (fst r), snd r) else (None, snd r @ signal_destroy (fst r)))"

text \<open>A timeout other than zero never becomes a poll, in queues and in signals alike.\<close>

lemma waits_when_asked:
  assumes "wt_max_delay k \<noteq> 0" "ms \<noteq> 0"
  shows "queue_ticks k ms \<noteq> 0" "signal_wait k taken ms x = (r, [SyTake t ok]) \<Longrightarrow> t = queue_ticks k ms \<and> t \<noteq> 0"
  using assms by (auto simp: queue_ticks_def signal_wait_def Let_def split: if_splits)

section \<open>Tasks\<close>

record execution_configuration =
  ec_name :: "string option"
  ec_stack :: nat
  ec_priority :: u32
  ec_affinity :: "int option"

datatype execution_event =
    ExCreate nat string u32 nat u32 "int option" bool
  | ExDelete "nat option"
  | ExSuspend "nat option"
  | ExResume nat
  | ExDelay u32
  | ExYield

text \<open>\<open>configured\<close> is the number of processors of the build, \<open>None\<close> without one; entry, context and
  handle are numbers, 0 for null.\<close>

definition processor_count :: "int option \<Rightarrow> u32" where
  "processor_count configured = (case configured of None \<Rightarrow> 1 | Some n \<Rightarrow> if n > 0 then of_int n else 1)"

definition execution_create ::
    "int option \<Rightarrow> bool \<Rightarrow> nat \<Rightarrow> nat \<Rightarrow> nat \<Rightarrow> execution_configuration
      \<Rightarrow> platform_result \<times> nat \<times> execution_event list" where
  "execution_create configured created handle entry arg cfg =
     (if entry = 0 \<or> ec_stack cfg = 0 then (Failed PS_InvalidArgument None, 0, [])
      else if (case ec_affinity cfg of None \<Rightarrow> False | Some p \<Rightarrow> (of_int p :: u32) \<ge> processor_count configured)
      then (Failed PS_InvalidArgument None, 0, [])
      else
        let e = ExCreate entry (case ec_name cfg of None \<Rightarrow> ''ESPressio'' | Some n \<Rightarrow> n) (of_nat (ec_stack cfg)) arg
              (ec_priority cfg) (ec_affinity cfg) created
        in if \<not> created \<or> handle = 0 then (Failed PS_OutOfMemory None, 0, [e]) else (Succeeded, handle, [e]))"

definition native_handle :: "nat \<Rightarrow> nat option" where
  "native_handle h = (if h = 0 then None else Some h)"

definition execution_destroy :: "nat \<Rightarrow> platform_result \<times> execution_event list" where
  "execution_destroy h = (Succeeded, [ExDelete (native_handle h)])"

definition execution_suspend :: "nat \<Rightarrow> platform_result \<times> execution_event list" where
  "execution_suspend h = (Succeeded, [ExSuspend (native_handle h)])"

definition execution_resume :: "nat \<Rightarrow> platform_result \<times> execution_event list" where
  "execution_resume h = (if h = 0 then (Failed PS_InvalidArgument None, []) else (Succeeded, [ExResume h]))"

definition sleep_milliseconds :: "(u32 \<Rightarrow> u32) \<Rightarrow> u32 \<Rightarrow> execution_event list" where
  "sleep_milliseconds native ms = (let t = native ms in [ExDelay (if ms \<noteq> 0 \<and> t = 0 then 1 else t)])"

definition supports_affinity :: "int option \<Rightarrow> bool" where
  "supports_affinity configured \<longleftrightarrow> processor_count configured > 1"

text \<open>A task is created for a processor only when there is one with this number.\<close>

lemma execution_create_affinity:
  assumes "execution_create configured created handle entry arg cfg = (r, h, es)" "ec_affinity cfg = Some p"
    "es \<noteq> []" "configured = Some n" "0 < n" "n < 2 ^ 31" "- (2 ^ 31) \<le> p" "p < 2 ^ 31"
  shows "0 \<le> p \<and> p < n"
proof -
  have "(of_int p :: u32) < of_int n"
    using assms(1-5) by (auto simp: execution_create_def processor_count_def split: if_splits)
  then have "p mod 2 ^ 32 < n mod 2 ^ 32"
    by (simp add: word_less_def uint_word_of_int)
  moreover have "p mod 2 ^ 32 = p + 2 ^ 32" if "p < 0"
    using that assms(7) mod_pos_pos_trivial [of "p + 2 ^ 32" "2 ^ 32"] by simp
  ultimately show ?thesis using assms(5-8) by (cases "0 \<le> p") (auto simp: mod_pos_pos_trivial)
qed

section \<open>Entropy and byte streams\<close>

text \<open>\<open>random\<close> is what \<open>esp_fill_random\<close> puts into the output.\<close>

definition entropy_fill :: "bytes \<Rightarrow> bytes option \<Rightarrow> nat \<Rightarrow> platform_result \<times> bytes option" where
  "entropy_fill random output n =
     (if output = None \<and> n \<noteq> 0 then (Failed PS_InvalidArgument None, output)
      else if n \<noteq> 0 then (Succeeded, map_option (\<lambda>d. take n random @ drop n d) output)
      else (Succeeded, output))"

text \<open>A stream is present or null; \<open>answer\<close> is what its native call returns.\<close>

definition byte_stream_available :: "bool \<Rightarrow> int \<Rightarrow> u32" where
  "byte_stream_available present answer = (if present then of_int answer else 0)"

definition byte_stream_read :: "bool \<Rightarrow> int \<Rightarrow> platform_result \<times> u8 option" where
  "byte_stream_read present answer =
     (if \<not> present then (Failed PS_Unavailable None, None)
      else if answer < 0 then (Failed PS_Unavailable None, None)
      else (Succeeded, Some (of_int answer)))"

definition byte_stream_write :: "bool \<Rightarrow> nat \<Rightarrow> bytes option \<Rightarrow> nat \<Rightarrow> platform_result \<times> nat" where
  "byte_stream_write present answer data n =
     (if \<not> present then (Failed PS_Unavailable None, 0)
      else if data = None \<and> n \<noteq> 0 then (Failed PS_InvalidArgument None, 0)
      else (let written = (if n = 0 then 0 else answer)
            in (if written = n then Succeeded else Failed PS_HardwareFailure None, written)))"

end
