(* ===== verification/Gpio.thy ===== *)
theory Gpio
  imports Platform_Types
begin

text \<open>
  src/ESPressio_IDFGPIOProvider.hpp and src/ESPressio_ArduinoGPIOProvider.hpp: pins and interrupts.

  The native drivers answer through the environment of a call and every call made on them is an
  event. An interrupt object is its identity, a number, in a list of live objects; its callback and
  context are one number, 0 for a null callback. The GPIO service state is process-wide, as in the
  code. The drivers' validity of pins is a pair of predicates. That \<open>gpio_isr_handler_remove\<close> succeeds
  is taken from its documentation (it fails for an invalid pin or a missing service only); the code
  ignores its answer.
\<close>

section \<open>Pins\<close>

datatype direction = DirInput | DirOutput | DirOpenDrain
datatype pull = PullNone | PullUp | PullDown | PullUpDown
datatype trigger = RisingEdge | FallingEdge | AnyEdge | LowLevel | HighLevel

text \<open>A native interrupt type; an enumeration value outside the cases gives \<open>IntrDisable\<close>.\<close>

datatype native_trigger = IntrDisable | PosEdge | NegEdge | IntrAnyEdge | IntrLowLevel | IntrHighLevel
datatype native_mode = GpioInput | GpioOutput | GpioOutputOd

record pin_configuration =
  pc_direction :: direction
  pc_pull :: pull
  pc_initial_high :: bool

record native_pin_config =
  np_mask :: u64
  np_mode :: native_mode
  np_pull_up :: bool
  np_pull_down :: bool
  np_intr :: native_trigger

record gpio_driver =
  gd_valid :: "int \<Rightarrow> bool"
  gd_valid_output :: "int \<Rightarrow> bool"

datatype gpio_event =
    GpConfig native_pin_config
  | GpSetLevel int nat
  | GpInstall int esp_err
  | GpCreateSemaphore bool
  | GpDeleteSemaphore
  | GpCreateTask int bool
  | GpSetType int native_trigger
  | GpEnable int
  | GpDisable int
  | GpAdd int nat bool
  | GpRemove int

definition native_interrupt_type :: "trigger \<Rightarrow> native_trigger" where
  "native_interrupt_type t = (case t of RisingEdge \<Rightarrow> PosEdge | FallingEdge \<Rightarrow> NegEdge | AnyEdge \<Rightarrow> IntrAnyEdge
     | LowLevel \<Rightarrow> IntrLowLevel | HighLevel \<Rightarrow> IntrHighLevel)"

definition gpio_write :: "gpio_driver \<Rightarrow> esp_err \<Rightarrow> int \<Rightarrow> bool \<Rightarrow> platform_result \<times> gpio_event list" where
  "gpio_write d answer pin high =
     (if \<not> gd_valid_output d pin then (Failed PS_InvalidArgument None, [])
      else (platform_result_from_esp_error answer, [GpSetLevel pin (if high then 1 else 0)]))"

text \<open>\<open>level\<close> is what the driver reads.\<close>

definition gpio_read :: "gpio_driver \<Rightarrow> int \<Rightarrow> int \<Rightarrow> platform_result \<times> bool option" where
  "gpio_read d level pin =
     (if \<not> gd_valid d pin then (Failed PS_InvalidArgument None, None) else (Succeeded, Some (level \<noteq> 0)))"

definition gpio_configure ::
    "gpio_driver \<Rightarrow> esp_err \<Rightarrow> esp_err \<Rightarrow> int \<Rightarrow> pin_configuration \<Rightarrow> platform_result \<times> gpio_event list" where
  "gpio_configure d configured written pin cfg =
     (if \<not> gd_valid d pin then (Failed PS_InvalidArgument None, [])
      else if pc_direction cfg \<noteq> DirInput \<and> \<not> gd_valid_output d pin then (Failed PS_InvalidArgument None, [])
      else
        let native = \<lparr>np_mask = push_bit (nat pin) 1,
              np_mode = (case pc_direction cfg of DirInput \<Rightarrow> GpioInput | DirOutput \<Rightarrow> GpioOutput | DirOpenDrain \<Rightarrow> GpioOutputOd),
              np_pull_up = (pc_pull cfg = PullUp \<or> pc_pull cfg = PullUpDown),
              np_pull_down = (pc_pull cfg = PullDown \<or> pc_pull cfg = PullUpDown), np_intr = IntrDisable\<rparr>;
            result = platform_result_from_esp_error configured
        in if \<not> platform_ok result then (result, [GpConfig native])
           else if pc_direction cfg = DirInput then (result, [GpConfig native])
           else (let (r, es) = gpio_write d written pin (pc_initial_high cfg) in (r, GpConfig native # es)))"

section \<open>The interrupt service\<close>

text \<open>
  \<open>ge_core\<close> and \<open>ge_core_after\<close> are \<open>xPortGetCoreID\<close> before and after the direct installation, which
  runs on \<open>ge_core_during\<close> and answers \<open>ge_install\<close>: a task that is not pinned may move in between.
  \<open>ge_task_install\<close> is the answer in the task pinned to the wanted core.
\<close>

record service_env =
  ge_core :: int
  ge_core_during :: int
  ge_core_after :: int
  ge_install :: esp_err
  ge_semaphore :: bool
  ge_task :: bool
  ge_taken :: bool
  ge_task_install :: esp_err

record gpio_service =
  gs_installed :: bool
  gs_core :: int

definition finish_install :: "esp_err \<Rightarrow> int \<Rightarrow> gpio_service \<Rightarrow> platform_result \<times> gpio_service" where
  "finish_install result core s =
     (if result = ESP_OK \<or> result = ESP_ERR_INVALID_STATE
      then (Succeeded, s\<lparr>gs_installed := True, gs_core := core\<rparr>)
      else (platform_result_from_esp_error result, s))"

definition ensure_interrupt_service ::
    "service_env \<Rightarrow> int option \<Rightarrow> gpio_service \<Rightarrow> platform_result \<times> gpio_service \<times> gpio_event list" where
  "ensure_interrupt_service env affinity s =
     (if gs_installed s then
        (if affinity \<noteq> None \<and> affinity \<noteq> Some (gs_core s) then (Failed PS_Conflict None, s, [])
         else (Succeeded, s, []))
      else if affinity = None \<or> affinity = Some (ge_core env) then
        (let (r, s1) = finish_install (ge_install env) (ge_core_after env) s in (r, s1, [GpInstall (ge_core_during env) (ge_install env)]))
      else if \<not> ge_semaphore env then (Failed PS_OutOfMemory None, s, [GpCreateSemaphore False])
      else if \<not> ge_task env
      then (Failed PS_OutOfMemory None, s, [GpCreateSemaphore True, GpCreateTask (the affinity) False, GpDeleteSemaphore])
      else if \<not> ge_taken env
      then (Failed PS_Timeout None, s, [GpCreateSemaphore True, GpCreateTask (the affinity) True,
        GpInstall (the affinity) (ge_task_install env), GpDeleteSemaphore])
      else
        let (r, s1) = finish_install (ge_task_install env) (the affinity) s
        in (r, s1, [GpCreateSemaphore True, GpCreateTask (the affinity) True, GpInstall (the affinity) (ge_task_install env), GpDeleteSemaphore]))"

section \<open>Interrupts\<close>

record interrupt =
  gi_pin :: int
  gi_affinity :: "int option"
  gi_callback :: nat
  gi_enabled :: bool
  gi_registered :: bool

definition interrupt_enable :: "esp_err \<Rightarrow> interrupt \<Rightarrow> platform_result \<times> interrupt \<times> gpio_event list" where
  "interrupt_enable answer x =
     (if \<not> gi_registered x then (Failed PS_Unavailable None, x, [])
      else (platform_result_from_esp_error answer, if answer = ESP_OK then x\<lparr>gi_enabled := True\<rparr> else x,
        [GpEnable (gi_pin x)]))"

definition interrupt_disable :: "esp_err \<Rightarrow> interrupt \<Rightarrow> platform_result \<times> interrupt \<times> gpio_event list" where
  "interrupt_disable answer x =
     (if \<not> gi_registered x then (Failed PS_Unavailable None, x, [])
      else (platform_result_from_esp_error answer, if answer = ESP_OK then x\<lparr>gi_enabled := False\<rparr> else x,
        [GpDisable (gi_pin x)]))"

definition interrupt_register ::
    "esp_err \<Rightarrow> esp_err \<Rightarrow> nat \<Rightarrow> bool \<Rightarrow> interrupt \<Rightarrow> platform_result \<times> interrupt \<times> gpio_event list" where
  "interrupt_register added enabled i start_enabled x =
     (if added \<noteq> ESP_OK then (platform_result_from_esp_error added, x, [GpAdd (gi_pin x) i False])
      else
        let x1 = x\<lparr>gi_registered := True\<rparr>
        in if start_enabled
           then (let (r, x2, es) = interrupt_enable enabled x1 in (r, x2, GpAdd (gi_pin x) i True # es))
           else (Succeeded, x1, [GpAdd (gi_pin x) i True, GpDisable (gi_pin x)]))"

definition interrupt_destroy :: "interrupt \<Rightarrow> gpio_event list" where
  "interrupt_destroy x = (if gi_registered x then [GpDisable (gi_pin x), GpRemove (gi_pin x)] else [])"

text \<open>\<open>Dispatch\<close>: the callback the driver's argument leads to, if any.\<close>

definition interrupt_dispatch :: "interrupt option \<Rightarrow> nat option" where
  "interrupt_dispatch x = (case x of None \<Rightarrow> None | Some y \<Rightarrow> if gi_callback y \<noteq> 0 then Some (gi_callback y) else None)"

record interrupt_configuration =
  ic_trigger :: trigger
  ic_affinity :: "int option"
  ic_start_enabled :: bool

record create_env =
  gc_service :: service_env
  gc_set_type :: esp_err
  gc_add :: esp_err
  gc_enable :: esp_err

text \<open>A created interrupt, or why there is none; the object of a failed registration is destroyed.\<close>

definition create_interrupt ::
    "gpio_driver \<Rightarrow> create_env \<Rightarrow> nat \<Rightarrow> int \<Rightarrow> interrupt_configuration \<Rightarrow> nat \<Rightarrow> gpio_service
      \<Rightarrow> (platform_result + interrupt) \<times> gpio_service \<times> gpio_event list" where
  "create_interrupt d env i pin cfg callback s =
     (if \<not> gd_valid d pin \<or> callback = 0 then (Inl (Failed PS_InvalidArgument None), s, [])
      else
        let (r, s1, es) = ensure_interrupt_service (gc_service env) (ic_affinity cfg) s
        in if \<not> platform_ok r then (Inl r, s1, es)
           else
             let t = platform_result_from_esp_error (gc_set_type env);
                 es1 = es @ [GpSetType pin (native_interrupt_type (ic_trigger cfg))]
             in if \<not> platform_ok t then (Inl t, s1, es1)
                else
                  let x = \<lparr>gi_pin = pin, gi_affinity = ic_affinity cfg, gi_callback = callback,
                        gi_enabled = False, gi_registered = False\<rparr>;
                      (g, x1, fs) = interrupt_register (gc_add env) (gc_enable env) i (ic_start_enabled cfg) x
                  in if \<not> platform_ok g then (Inl g, s1, es1 @ GpDisable pin # fs @ interrupt_destroy x1)
                     else (Inr x1, s1, es1 @ GpDisable pin # fs))"

section \<open>Histories\<close>

text \<open>The service, the live interrupt objects, the next identity and the log.\<close>

record gpio_world =
  gw_service :: gpio_service
  gw_live :: "(nat \<times> interrupt) list"
  gw_next :: nat
  gw_log :: "gpio_event list"

datatype gpio_op =
    GoCreate create_env int interrupt_configuration nat
  | GoEnable nat esp_err
  | GoDisable nat esp_err
  | GoDestroy nat

fun update_live :: "nat \<Rightarrow> interrupt \<Rightarrow> (nat \<times> interrupt) list \<Rightarrow> (nat \<times> interrupt) list" where
  "update_live i x [] = []"
| "update_live i x ((j, y) # xs) = (if i = j then (j, x) # xs else (j, y) # update_live i x xs)"

definition gpio_do :: "gpio_driver \<Rightarrow> gpio_op \<Rightarrow> gpio_world \<Rightarrow> gpio_world" where
  "gpio_do d op w = (case op of
       GoCreate env pin cfg callback \<Rightarrow>
         (case create_interrupt d env (gw_next w) pin cfg callback (gw_service w) of
            (r, s, es) \<Rightarrow> w\<lparr>gw_service := s, gw_next := Suc (gw_next w), gw_log := gw_log w @ es,
              gw_live := (case r of Inl e \<Rightarrow> gw_live w | Inr x \<Rightarrow> gw_live w @ [(gw_next w, x)])\<rparr>)
     | GoEnable i answer \<Rightarrow>
         (case map_of (gw_live w) i of
            None \<Rightarrow> w
          | Some x \<Rightarrow> (case interrupt_enable answer x of (r, y, es) \<Rightarrow>
              w\<lparr>gw_live := update_live i y (gw_live w), gw_log := gw_log w @ es\<rparr>))
     | GoDisable i answer \<Rightarrow>
         (case map_of (gw_live w) i of
            None \<Rightarrow> w
          | Some x \<Rightarrow> (case interrupt_disable answer x of (r, y, es) \<Rightarrow>
              w\<lparr>gw_live := update_live i y (gw_live w), gw_log := gw_log w @ es\<rparr>))
     | GoDestroy i \<Rightarrow>
         (case map_of (gw_live w) i of
            None \<Rightarrow> w
          | Some x \<Rightarrow> w\<lparr>gw_live := filter (\<lambda>(j, y). j \<noteq> i) (gw_live w), gw_log := gw_log w @ interrupt_destroy x\<rparr>))"

definition fresh_gpio :: gpio_world where
  "fresh_gpio = \<lparr>gw_service = \<lparr>gs_installed = False, gs_core = -1\<rparr>, gw_live = [], gw_next = 0, gw_log = []\<rparr>"

definition gpio_run :: "gpio_driver \<Rightarrow> gpio_op list \<Rightarrow> gpio_world" where
  "gpio_run d ops = fold (gpio_do d) ops fresh_gpio"

text \<open>The driver's table: which object's handler each pin has, by the calls of a log.\<close>

fun handlers :: "(int \<Rightarrow> nat option) \<Rightarrow> gpio_event list \<Rightarrow> int \<Rightarrow> nat option" where
  "handlers h [] = h"
| "handlers h (GpAdd pin i True # es) = handlers (\<lambda>q. if q = pin then Some i else h q) es"
| "handlers h (GpRemove pin # es) = handlers (\<lambda>q. if q = pin then None else h q) es"
| "handlers h (e # es) = handlers h es"

lemma handlers_append [simp]: "handlers h (xs @ ys) = handlers (handlers h xs) ys"
  by (induction h xs rule: handlers.induct) auto

section \<open>Handlers\<close>

definition handlers_live :: "gpio_world \<Rightarrow> bool" where
  "handlers_live w \<longleftrightarrow> (\<forall>pin i. handlers (\<lambda>_. None) (gw_log w) pin = Some i \<longrightarrow>
     (\<exists>x. map_of (gw_live w) i = Some x \<and> gi_pin x = pin \<and> gi_registered x))"

definition gpio_ids :: "gpio_world \<Rightarrow> bool" where
  "gpio_ids w \<longleftrightarrow> (\<forall>i \<in> fst ` set (gw_live w). i < gw_next w)"

lemma map_of_update_live:
  "map_of (update_live i x xs) j = (if j = i \<and> map_of xs i \<noteq> None then Some x else map_of xs j)"
  by (induction i x xs rule: update_live.induct) auto

lemma map_of_filter_other: "map_of (filter (\<lambda>(j, y). j \<noteq> i) xs) j = (if j = i then None else map_of xs j)"
  by (induction xs) auto

lemma fst_update_live [simp]: "fst ` set (update_live i x xs) = fst ` set xs"
  by (induction i x xs rule: update_live.induct) auto

definition no_handler_event :: "gpio_event \<Rightarrow> bool" where
  "no_handler_event e = (case e of GpAdd p i ok \<Rightarrow> \<not> ok | GpRemove p \<Rightarrow> False | _ \<Rightarrow> True)"

lemma handlers_quiet [simp]: "list_all no_handler_event es \<Longrightarrow> handlers h es = h"
  by (induction h es rule: handlers.induct) (auto simp: no_handler_event_def)

lemma ensure_service_quiet:
  "ensure_interrupt_service env a s = (r, s1, es) \<Longrightarrow> list_all no_handler_event es"
  by (auto simp: ensure_interrupt_service_def no_handler_event_def split: if_splits prod.splits)

text \<open>What a creation does to the table: nothing, the pin cleared, or the new object's handler.\<close>

lemma create_interrupt_handlers:
  assumes "create_interrupt d env i pin cfg callback s = (r, s1, es)"
  shows "case r of
      Inl e \<Rightarrow> handlers h es = h \<or> handlers h es = (\<lambda>q. if q = pin then None else h q)
    | Inr x \<Rightarrow> handlers h es = (\<lambda>q. if q = pin then Some i else h q) \<and> gi_pin x = pin \<and> gi_registered x \<and>
        gi_affinity x = ic_affinity cfg"
proof (cases "gd_valid d pin \<and> callback \<noteq> 0")
  case True
  obtain q t fs where e: "ensure_interrupt_service (gc_service env) (ic_affinity cfg) s = (q, t, fs)"
    by (metis prod_cases3)
  note quiet = ensure_service_quiet [OF e]
  show ?thesis
    using assms True quiet
    by (auto simp: create_interrupt_def e interrupt_register_def interrupt_enable_def interrupt_destroy_def Let_def
        no_handler_event_def split: if_splits sum.splits)
qed (use assms in \<open>auto simp: create_interrupt_def\<close>)

lemma handlers_live_step:
  assumes "handlers_live w" "gpio_ids w"
  shows "handlers_live (gpio_do d op w) \<and> gpio_ids (gpio_do d op w)"
proof (cases op)
  case (GoCreate env pin cfg callback)
  obtain r s es where c: "create_interrupt d env (gw_next w) pin cfg callback (gw_service w) = (r, s, es)"
    by (metis prod_cases3)
  have new: "map_of (gw_live w) (gw_next w) = None"
    using assms(2) by (auto simp: gpio_ids_def map_of_eq_None_iff)
  let ?h = "handlers (\<lambda>_. None) (gw_log w)"
  have old: "\<And>q j. ?h q = Some j \<Longrightarrow> j \<noteq> gw_next w \<and> (\<exists>x. map_of (gw_live w) j = Some x \<and> gi_pin x = q \<and> gi_registered x)"
    using assms(1) new unfolding handlers_live_def by fastforce
  note hd = create_interrupt_handlers [OF c, of ?h]
  show ?thesis
  proof (cases r)
    case (Inl e)
    then show ?thesis using hd old assms(2)
      by (auto simp: gpio_do_def GoCreate c handlers_live_def gpio_ids_def split: if_split_asm)
  next
    case (Inr x)
    then show ?thesis using hd old assms(2) new
      by (auto simp: gpio_do_def GoCreate c handlers_live_def gpio_ids_def map_add_def less_Suc_eq dest!: old split: if_split_asm)
  qed
next
  case (GoEnable i answer)
  show ?thesis
  proof (cases "map_of (gw_live w) i")
    case (Some x)
    obtain r y es where e: "interrupt_enable answer x = (r, y, es)" by (metis prod_cases3)
    then have "list_all no_handler_event es" "gi_pin y = gi_pin x" "gi_registered y = gi_registered x"
      by (auto simp: interrupt_enable_def no_handler_event_def split: if_splits)
    then show ?thesis using assms Some
      by (fastforce simp: gpio_do_def GoEnable e handlers_live_def gpio_ids_def map_of_update_live)
  qed (use assms in \<open>simp add: gpio_do_def GoEnable\<close>)
next
  case (GoDisable i answer)
  show ?thesis
  proof (cases "map_of (gw_live w) i")
    case (Some x)
    obtain r y es where e: "interrupt_disable answer x = (r, y, es)" by (metis prod_cases3)
    then have "list_all no_handler_event es" "gi_pin y = gi_pin x" "gi_registered y = gi_registered x"
      by (auto simp: interrupt_disable_def no_handler_event_def split: if_splits)
    then show ?thesis using assms Some
      by (fastforce simp: gpio_do_def GoDisable e handlers_live_def gpio_ids_def map_of_update_live)
  qed (use assms in \<open>simp add: gpio_do_def GoDisable\<close>)
next
  case (GoDestroy i)
  show ?thesis
  proof (cases "map_of (gw_live w) i")
    case (Some x)
    have "handlers_live (w\<lparr>gw_live := filter (\<lambda>(j, y). j \<noteq> i) (gw_live w), gw_log := gw_log w @ interrupt_destroy x\<rparr>)"
      using assms(1) Some
      by (auto simp: handlers_live_def interrupt_destroy_def map_of_filter_other split: if_splits) (metis option.inject)+
    then show ?thesis using assms(2) Some by (auto simp: gpio_do_def GoDestroy gpio_ids_def)
  qed (use assms in \<open>simp add: gpio_do_def GoDestroy\<close>)
qed

lemma gpio_run_snoc: "gpio_run d (ops @ [op]) = gpio_do d op (gpio_run d ops)"
  by (simp add: gpio_run_def)

lemma handlers_live_run: "handlers_live (gpio_run d ops) \<and> gpio_ids (gpio_run d ops)"
proof (induction ops rule: rev_induct)
  case Nil
  then show ?case by (simp add: gpio_run_def fresh_gpio_def handlers_live_def gpio_ids_def)
next
  case (snoc op ops)
  then show ?case using handlers_live_step by (simp add: gpio_run_snoc)
qed

text \<open>C37: The driver never holds a handler of an interrupt object that is gone: in every state any sequence
  of creations (failing at any call), enablings, disablings and destructions reaches, the handler of
  a pin is that of a live, registered object for this pin.\<close>

theorem gpio_no_dangling_handler:
  assumes "handlers (\<lambda>_. None) (gw_log (gpio_run d ops)) pin = Some i"
  shows "\<exists>x. map_of (gw_live (gpio_run d ops)) i = Some x \<and> gi_pin x = pin \<and> gi_registered x"
  using handlers_live_run [of d ops] assms by (simp add: handlers_live_def)

definition demo_driver :: gpio_driver where
  "demo_driver = \<lparr>gd_valid = (\<lambda>p. 0 \<le> p \<and> p < 40), gd_valid_output = (\<lambda>p. 0 \<le> p \<and> p < 34)\<rparr>"

definition demo_service :: service_env where
  "demo_service = \<lparr>ge_core = 0, ge_core_during = 0, ge_core_after = 0, ge_install = ESP_OK, ge_semaphore = True, ge_task = True,
     ge_taken = True, ge_task_install = ESP_OK\<rparr>"

definition demo_create :: "esp_err \<Rightarrow> create_env" where
  "demo_create enabled = \<lparr>gc_service = demo_service, gc_set_type = ESP_OK, gc_add = ESP_OK, gc_enable = enabled\<rparr>"

definition demo_interrupt :: "int option \<Rightarrow> interrupt_configuration" where
  "demo_interrupt affinity = \<lparr>ic_trigger = RisingEdge, ic_affinity = affinity, ic_start_enabled = True\<rparr>"

lemmas gpio_eval = gpio_run_def gpio_do_def fresh_gpio_def create_interrupt_def ensure_interrupt_service_def
  finish_install_def interrupt_register_def interrupt_enable_def interrupt_destroy_def demo_driver_def
  demo_service_def demo_create_def demo_interrupt_def platform_result_from_esp_error_def

lemma gpio_no_dangling_handler_witness:
  "handlers (\<lambda>_. None) (gw_log (gpio_run demo_driver
     [GoCreate (demo_create ESP_FAIL) 4 (demo_interrupt None) 7, GoCreate (demo_create ESP_OK) 4 (demo_interrupt None) 8])) 4 = Some 1 \<and>
   (\<exists>x. map_of (gw_live (gpio_run demo_driver
     [GoCreate (demo_create ESP_FAIL) 4 (demo_interrupt None) 7, GoCreate (demo_create ESP_OK) 4 (demo_interrupt None) 8])) 1 = Some x \<and>
     gi_pin x = 4 \<and> gi_registered x)"
proof -
  have "handlers (\<lambda>_. None) (gw_log (gpio_run demo_driver
     [GoCreate (demo_create ESP_FAIL) 4 (demo_interrupt None) 7, GoCreate (demo_create ESP_OK) 4 (demo_interrupt None) 8])) 4 = Some 1"
    by (simp add: gpio_eval Let_def)
  then show ?thesis using gpio_no_dangling_handler by blast
qed

text \<open>Two objects for one pin: destroying the first removes the handler of the second, which stays live,
  registered and enabled and is never called again.\<close>

lemma gpio_shared_pin_silenced:
  "let w = gpio_run demo_driver [GoCreate (demo_create ESP_OK) 4 (demo_interrupt None) 7,
       GoCreate (demo_create ESP_OK) 4 (demo_interrupt None) 8, GoDestroy 0]
   in handlers (\<lambda>_. None) (gw_log w) 4 = None \<and>
      (\<exists>x. map_of (gw_live w) 1 = Some x \<and> gi_pin x = 4 \<and> gi_registered x \<and> gi_enabled x)"
  by (simp add: gpio_eval Let_def)

section \<open>Affinity\<close>

text \<open>Where a log installs the service.\<close>

fun installed_on :: "gpio_event list \<Rightarrow> int list" where
  "installed_on [] = []"
| "installed_on (GpInstall core e # es) = (if e = ESP_OK then core # installed_on es else installed_on es)"
| "installed_on (e # es) = installed_on es"

lemma installed_on_append [simp]: "installed_on (xs @ ys) = installed_on xs @ installed_on ys"
  by (induction xs rule: installed_on.induct) auto

text \<open>A caller that stays on its core, no foreign installation of the service, a wait without end.\<close>

definition steady :: "service_env \<Rightarrow> bool" where
  "steady env \<longleftrightarrow> ge_core_during env = ge_core env \<and> ge_core_after env = ge_core env \<and>
     ge_install env \<noteq> ESP_ERR_INVALID_STATE \<and> ge_task_install env \<noteq> ESP_ERR_INVALID_STATE \<and> ge_taken env"

definition service_ok :: "gpio_service \<Rightarrow> gpio_event list \<Rightarrow> bool" where
  "service_ok s log \<longleftrightarrow> installed_on log = (if gs_installed s then [gs_core s] else [])"

lemma ensure_service_ok:
  assumes "ensure_interrupt_service env a s = (r, s1, es)" "service_ok s log" "steady env"
  shows "service_ok s1 (log @ es) \<and> (platform_ok r \<longrightarrow> gs_installed s1 \<and> (a = None \<or> a = Some (gs_core s1))) \<and>
    (gs_installed s \<longrightarrow> s1 = s)"
proof (cases "gs_installed s")
  case True
  then show ?thesis using assms by (cases a) (auto simp: ensure_interrupt_service_def split: if_splits)
next
  case False
  then show ?thesis using assms
    by (cases a) (auto simp: ensure_interrupt_service_def finish_install_def service_ok_def steady_def split: if_splits)
qed

lemma create_interrupt_service:
  assumes "create_interrupt d env i pin cfg callback s = (r, s1, es)" "service_ok s log" "steady (gc_service env)"
  shows "service_ok s1 (log @ es) \<and> (gs_installed s \<longrightarrow> s1 = s) \<and>
    (\<forall>x. r = Inr x \<longrightarrow> gs_installed s1 \<and> (gi_affinity x = None \<or> gi_affinity x = Some (gs_core s1)))"
proof (cases "gd_valid d pin \<and> callback \<noteq> 0")
  case True
  obtain q t fs where e: "ensure_interrupt_service (gc_service env) (ic_affinity cfg) s = (q, t, fs)"
    by (metis prod_cases3)
  show ?thesis
    using assms(1) True ensure_service_ok [OF e assms(2,3)]
    by (auto simp: create_interrupt_def e interrupt_register_def interrupt_enable_def interrupt_destroy_def Let_def
        service_ok_def split: if_splits)
qed (use assms in \<open>auto simp: create_interrupt_def\<close>)

definition affinity_ok :: "gpio_world \<Rightarrow> bool" where
  "affinity_ok w \<longleftrightarrow> service_ok (gw_service w) (gw_log w) \<and>
     (\<forall>(i, x) \<in> set (gw_live w). gs_installed (gw_service w) \<and>
        (gi_affinity x = None \<or> gi_affinity x = Some (gs_core (gw_service w))))"

fun steady_op :: "gpio_op \<Rightarrow> bool" where
  "steady_op (GoCreate env pin cfg callback) = steady (gc_service env)"
| "steady_op op = True"

lemma set_update_live: "set (update_live i y xs) \<subseteq> insert (i, y) (set xs)"
  by (induction i y xs rule: update_live.induct) auto

lemma affinity_ok_update:
  assumes "affinity_ok w" "map_of (gw_live w) i = Some x" "gi_affinity y = gi_affinity x" "installed_on es = []"
  shows "affinity_ok (w\<lparr>gw_live := update_live i y (gw_live w), gw_log := gw_log w @ es\<rparr>)"
  using assms set_update_live [of i y "gw_live w"] map_of_SomeD [OF assms(2)]
  by (fastforce simp: affinity_ok_def service_ok_def)

lemma affinity_ok_step:
  assumes "affinity_ok w" "steady_op op"
  shows "affinity_ok (gpio_do d op w)"
proof (cases op)
  case (GoCreate env pin cfg callback)
  obtain r s es where c: "create_interrupt d env (gw_next w) pin cfg callback (gw_service w) = (r, s, es)"
    by (metis prod_cases3)
  have st: "steady (gc_service env)" using assms(2) GoCreate by simp
  have sv: "service_ok (gw_service w) (gw_log w)" using assms(1) by (simp add: affinity_ok_def)
  show ?thesis
    using create_interrupt_service [OF c sv st] assms(1)
    by (cases r) (fastforce simp: gpio_do_def GoCreate c affinity_ok_def)+
next
  case (GoEnable i answer)
  show ?thesis
  proof (cases "map_of (gw_live w) i")
    case (Some x)
    obtain r y es where e: "interrupt_enable answer x = (r, y, es)" by (metis prod_cases3)
    then have "gi_affinity y = gi_affinity x" "installed_on es = []"
      by (auto simp: interrupt_enable_def split: if_splits)
    then show ?thesis using affinity_ok_update [OF assms(1) Some] Some by (simp add: gpio_do_def GoEnable e)
  qed (use assms in \<open>simp add: gpio_do_def GoEnable\<close>)
next
  case (GoDisable i answer)
  show ?thesis
  proof (cases "map_of (gw_live w) i")
    case (Some x)
    obtain r y es where e: "interrupt_disable answer x = (r, y, es)" by (metis prod_cases3)
    then have "gi_affinity y = gi_affinity x" "installed_on es = []"
      by (auto simp: interrupt_disable_def split: if_splits)
    then show ?thesis using affinity_ok_update [OF assms(1) Some] Some by (simp add: gpio_do_def GoDisable e)
  qed (use assms in \<open>simp add: gpio_do_def GoDisable\<close>)
next
  case (GoDestroy i)
  then show ?thesis using assms(1)
    by (auto simp: gpio_do_def affinity_ok_def service_ok_def interrupt_destroy_def split: option.splits)
qed

text \<open>C38: While callers stay on their core and nobody else installs the interrupt service, it is installed at
  most once, and every live interrupt that asked for a core was given the core the service was
  installed on; so no two live interrupts that asked for a core asked for different ones.\<close>

theorem gpio_affinity_honoured:
  assumes "list_all steady_op ops" and "(i, x) \<in> set (gw_live (gpio_run d ops))" and "gi_affinity x = Some core"
  shows "installed_on (gw_log (gpio_run d ops)) = [core]"
proof -
  have "affinity_ok (gpio_run d ops)"
    using assms(1)
  proof (induction ops rule: rev_induct)
    case Nil
    then show ?case by (simp add: gpio_run_def fresh_gpio_def affinity_ok_def service_ok_def)
  next
    case (snoc op ops)
    then show ?case using affinity_ok_step by (simp add: gpio_run_snoc)
  qed
  then show ?thesis using assms(2,3) by (fastforce simp: affinity_ok_def service_ok_def)
qed

lemma gpio_affinity_honoured_witness:
  "let w = gpio_run demo_driver [GoCreate (demo_create ESP_OK) 4 (demo_interrupt (Some 1)) 7,
       GoCreate (demo_create ESP_OK) 5 (demo_interrupt (Some 0)) 8]
   in length (gw_live w) = 1 \<and> installed_on (gw_log w) = [1]"
proof -
  define ops where "ops = [GoCreate (demo_create ESP_OK) 4 (demo_interrupt (Some 1)) 7,
       GoCreate (demo_create ESP_OK) 5 (demo_interrupt (Some 0)) 8]"
  have st: "list_all steady_op ops" by (simp add: ops_def steady_def demo_create_def demo_service_def)
  obtain x where x: "gw_live (gpio_run demo_driver ops) = [(0, x)]" "gi_affinity x = Some 1"
    by (simp add: ops_def gpio_eval Let_def)
  have "installed_on (gw_log (gpio_run demo_driver ops)) = [1]"
    using gpio_affinity_honoured [OF st _ x(2)] x(1) by simp
  then show ?thesis using x(1) by (simp add: ops_def)
qed

text \<open>Outside these conditions the requested core is silently not given: when the service was already
  installed by other code, or when the calling task moves to another core between the test and the
  installation, CreateInterrupt succeeds for core 1 although the service runs elsewhere.\<close>

theorem gpio_affinity_violated:
  "(let w = gpio_run demo_driver [GoCreate ((demo_create ESP_OK)\<lparr>gc_service :=
         demo_service\<lparr>ge_task_install := ESP_ERR_INVALID_STATE\<rparr>\<rparr>) 4 (demo_interrupt (Some 1)) 7]
    in map (gi_affinity \<circ> snd) (gw_live w) = [Some 1] \<and> gs_core (gw_service w) = 1 \<and> installed_on (gw_log w) = []) \<and>
   (let w = gpio_run demo_driver [GoCreate ((demo_create ESP_OK)\<lparr>gc_service :=
         demo_service\<lparr>ge_core := 1\<rparr>\<rparr>) 4 (demo_interrupt (Some 1)) 7]
    in map (gi_affinity \<circ> snd) (gw_live w) = [Some 1] \<and> installed_on (gw_log w) = [0])"
  by (simp add: gpio_eval Let_def)

section \<open>The Arduino controller\<close>

text \<open>The build: which modes the Arduino core defines, and whether it is that of the ESP32.\<close>

record arduino_build =
  ab_input_pulldown :: bool
  ab_output_open_drain :: bool
  ab_onlow :: bool
  ab_onhigh :: bool
  ab_esp32 :: bool

datatype arduino_mode = ModeInput | ModeInputPullup | ModeInputPulldown | ModeOutput | ModeOutputOpenDrain
datatype arduino_trigger = ModeRising | ModeFalling | ModeChange | ModeOnLow | ModeOnHigh

datatype arduino_event =
    ArPinMode u8 arduino_mode
  | ArWrite u8 bool
  | ArAttach u8 nat arduino_trigger
  | ArDetach u8

definition resolve_pin_mode :: "arduino_build \<Rightarrow> pin_configuration \<Rightarrow> platform_result + arduino_mode" where
  "resolve_pin_mode b cfg = (case pc_direction cfg of
       DirInput \<Rightarrow> (case pc_pull cfg of
           PullNone \<Rightarrow> Inr ModeInput
         | PullUp \<Rightarrow> Inr ModeInputPullup
         | PullDown \<Rightarrow> if ab_input_pulldown b then Inr ModeInputPulldown else Inl (Failed PS_Unsupported None)
         | PullUpDown \<Rightarrow> Inl (Failed PS_Unsupported None))
     | DirOutput \<Rightarrow> Inr ModeOutput
     | DirOpenDrain \<Rightarrow> if ab_output_open_drain b then Inr ModeOutputOpenDrain else Inl (Failed PS_Unsupported None))"

definition resolve_interrupt_mode :: "arduino_build \<Rightarrow> trigger \<Rightarrow> platform_result + arduino_trigger" where
  "resolve_interrupt_mode b t = (case t of
       RisingEdge \<Rightarrow> Inr ModeRising
     | FallingEdge \<Rightarrow> Inr ModeFalling
     | AnyEdge \<Rightarrow> Inr ModeChange
     | LowLevel \<Rightarrow> if ab_onlow b then Inr ModeOnLow else Inl (Failed PS_Unsupported None)
     | HighLevel \<Rightarrow> if ab_onhigh b then Inr ModeOnHigh else Inl (Failed PS_Unsupported None))"

definition arduino_configure :: "arduino_build \<Rightarrow> int \<Rightarrow> pin_configuration \<Rightarrow> platform_result \<times> arduino_event list" where
  "arduino_configure b pin cfg = (case resolve_pin_mode b cfg of
       Inl r \<Rightarrow> (r, [])
     | Inr mode \<Rightarrow> (Succeeded, ArPinMode (of_int pin) mode #
         (if pc_direction cfg \<noteq> DirInput then [ArWrite (of_int pin) (pc_initial_high cfg)] else [])))"

definition arduino_write :: "int \<Rightarrow> bool \<Rightarrow> platform_result \<times> arduino_event list" where
  "arduino_write pin high = (Succeeded, [ArWrite (of_int pin) high])"

text \<open>\<open>reads_high\<close> is what \<open>digitalRead\<close> gives for the eight bits of the pin.\<close>

definition arduino_read :: "(u8 \<Rightarrow> bool) \<Rightarrow> int \<Rightarrow> platform_result \<times> bool" where
  "arduino_read reads_high pin = (Succeeded, reads_high (of_int pin))"

record arduino_interrupt =
  ai_pin :: int
  ai_callback :: nat
  ai_mode :: arduino_trigger
  ai_enabled :: bool

definition arduino_enable ::
    "arduino_build \<Rightarrow> nat \<Rightarrow> arduino_interrupt \<Rightarrow> platform_result \<times> arduino_interrupt \<times> arduino_event list" where
  "arduino_enable b i x =
     (if ai_callback x = 0 then (Failed PS_InvalidArgument None, x, [])
      else if ab_esp32 b then (Succeeded, x\<lparr>ai_enabled := True\<rparr>, [ArAttach (of_int (ai_pin x)) i (ai_mode x)])
      else (Failed PS_Unsupported None, x, []))"

definition arduino_disable :: "arduino_interrupt \<Rightarrow> platform_result \<times> arduino_interrupt \<times> arduino_event list" where
  "arduino_disable x = (Succeeded, x\<lparr>ai_enabled := False\<rparr>, [ArDetach (of_int (ai_pin x))])"

definition arduino_destroy :: "arduino_interrupt \<Rightarrow> arduino_event list" where
  "arduino_destroy x = (if ai_enabled x then [ArDetach (of_int (ai_pin x))] else [])"

definition arduino_create_interrupt ::
    "arduino_build \<Rightarrow> nat \<Rightarrow> int \<Rightarrow> interrupt_configuration \<Rightarrow> nat
      \<Rightarrow> (platform_result + arduino_interrupt) \<times> arduino_event list" where
  "arduino_create_interrupt b i pin cfg callback =
     (if callback = 0 then (Inl (Failed PS_InvalidArgument None), [])
      else if ic_affinity cfg \<noteq> None then (Inl (Failed PS_Unsupported None), [])
      else (case resolve_interrupt_mode b (ic_trigger cfg) of
          Inl r \<Rightarrow> (Inl r, [])
        | Inr mode \<Rightarrow>
            let x = \<lparr>ai_pin = pin, ai_callback = callback, ai_mode = mode, ai_enabled = False\<rparr>
            in if ic_start_enabled cfg
               then (let (r, x1, es) = arduino_enable b i x
                     in if \<not> platform_ok r then (Inl r, es @ arduino_destroy x1) else (Inr x1, es))
               else (Inr x, [])))"

text \<open>A created interrupt is attached exactly when it is enabled; a failed creation attaches nothing.\<close>

lemma arduino_create_attached:
  assumes "arduino_create_interrupt b i pin cfg callback = (r, es)"
  shows "case r of
      Inl e \<Rightarrow> es = [] \<and> \<not> platform_ok e
    | Inr x \<Rightarrow> ai_enabled x = ic_start_enabled cfg \<and>
        es = (if ai_enabled x then [ArAttach (of_int pin) i (ai_mode x)] else [])"
  using assms
  by (auto simp: arduino_create_interrupt_def arduino_enable_def arduino_destroy_def resolve_interrupt_mode_def Let_def
      split: if_splits sum.splits trigger.splits)

end
