(* ===== verification/File_Storage.thy ===== *)
theory File_Storage
  imports Platform_Types
begin

text \<open>
  Persistence: the file storage over the Arduino file systems (src/ESPressio_FileStorageBase.hpp),
  its five back ends, and the key/value storage over Preferences
  (src/ESPressio_PreferencesStorage.hpp).

  The file system answers through the environment of a call and every call made on it is an event.
  A path is a C string, \<open>None\<close> for null. A file is a handle of one call, so its calls need no name.
\<close>

datatype storage_status =
    StSuccess | StNotInitialized | StAlreadyInitialized | StInvalidArgument | StNotFound | StAlreadyExists
  | StIoError | StNoSpace | StPartialWrite | StPermissionDenied | StUnknownError

datatype write_mode = WriteReplace | WriteAppend
datatype open_mode = ModeRead | ModeWrite | ModeAppend

datatype fs_event =
    FsExists string bool
  | FsOpen string open_mode bool
  | FsSeek u64 bool
  | FsRead nat bytes
  | FsWrite bytes nat
  | FsFlush
  | FsClose
  | FsRemove string bool
  | FsRename string string bool
  | FsMkdir string bool
  | FsRmdir string bool
  | FsNext bool
  | FsCallback string bool u64 bool

definition valid_path :: "string option \<Rightarrow> bool" where
  "valid_path p = (case p of None \<Rightarrow> False | Some s \<Rightarrow> c_string s \<noteq> [])"

text \<open>\<open>CopyPath\<close> into an entry of \<open>m\<close> characters, the terminator included: what a reader of the C string sees.\<close>

definition copy_path :: "nat \<Rightarrow> string option \<Rightarrow> string" where
  "copy_path m source = take (m - 1) (c_string (case source of None \<Rightarrow> [] | Some s \<Rightarrow> s))"

record storage_entry =
  se_path :: string
  se_directory :: bool
  se_size :: u64

section \<open>Sequential reads\<close>

record read_stream =
  rs_size :: nat
  rs_position :: nat

definition open_stream :: "nat \<Rightarrow> read_stream" where
  "open_stream n = \<lparr>rs_size = n, rs_position = 0\<rparr>"

text \<open>How many bytes a call asks the file for; \<open>None\<close> when it does not ask.\<close>

definition stream_request :: "bool \<Rightarrow> nat \<Rightarrow> read_stream \<Rightarrow> nat option" where
  "stream_request buffer capacity s =
     (if \<not> buffer \<and> capacity \<noteq> 0 then None
      else if capacity = 0 \<or> rs_position s \<ge> rs_size s then None
      else let remaining = rs_size s - rs_position s in Some (if remaining < capacity then remaining else capacity))"

text \<open>\<open>got\<close> is what the file gives for the request.\<close>

definition stream_read ::
    "bytes \<Rightarrow> bool \<Rightarrow> nat \<Rightarrow> read_stream \<Rightarrow> storage_status \<times> bytes \<times> read_stream" where
  "stream_read got buffer capacity s =
     (if \<not> buffer \<and> capacity \<noteq> 0 then (StInvalidArgument, [], s)
      else (case stream_request buffer capacity s of
          None \<Rightarrow> (StSuccess, [], s)
        | Some n \<Rightarrow>
            if got = [] then (StIoError, [], s)
            else (StSuccess, got, s\<lparr>rs_position := rs_position s + length got\<rparr>)))"

section \<open>The storage\<close>

record file_storage =
  fst_ready :: bool
  fst_capabilities :: "string set"

definition file_capabilities :: "file_storage \<Rightarrow> string set" where
  "file_capabilities s = {''Hierarchical'', ''Directories'', ''Rename'', ''Append'', ''CapacityReporting'',
     ''AtomicReplace'', ''SequentialRead''} \<union> fst_capabilities s"

definition file_exists :: "bool \<Rightarrow> string option \<Rightarrow> file_storage \<Rightarrow> storage_status \<times> bool option \<times> fs_event list" where
  "file_exists answer path s =
     (if \<not> fst_ready s then (StNotInitialized, None, [])
      else if \<not> valid_path path then (StInvalidArgument, None, [])
      else (StSuccess, Some answer, [FsExists (the path) answer]))"

text \<open>A file as opened: whether there is one, whether it is a directory, its size.\<close>

record opened =
  of_open :: bool
  of_directory :: bool
  of_size :: u64

definition file_stat ::
    "nat \<Rightarrow> opened \<Rightarrow> string option \<Rightarrow> file_storage \<Rightarrow> storage_status \<times> storage_entry option \<times> fs_event list" where
  "file_stat m f path s =
     (if \<not> fst_ready s then (StNotInitialized, None, [])
      else if \<not> valid_path path then (StInvalidArgument, None, [])
      else if \<not> of_open f then (StNotFound, None, [FsOpen (the path) ModeRead False])
      else (StSuccess,
        Some \<lparr>se_path = copy_path m path, se_directory = of_directory f,
              se_size = (if of_directory f then 0 else of_size f)\<rparr>,
        [FsOpen (the path) ModeRead True, FsClose]))"

text \<open>\<open>sought\<close> is the answer of \<open>seek\<close>, which is asked only for an offset within the file.\<close>

definition file_read ::
    "opened \<Rightarrow> bool \<Rightarrow> bytes \<Rightarrow> string option \<Rightarrow> u64 \<Rightarrow> bool \<Rightarrow> nat \<Rightarrow> file_storage
      \<Rightarrow> storage_status \<times> bytes \<times> fs_event list" where
  "file_read f sought got path offset buffer capacity s =
     (if \<not> fst_ready s then (StNotInitialized, [], [])
      else if \<not> valid_path path \<or> (\<not> buffer \<and> capacity \<noteq> 0) then (StInvalidArgument, [], [])
      else if \<not> of_open f \<or> of_directory f then (StNotFound, [], [FsOpen (the path) ModeRead (of_open f)])
      else if offset > of_size f \<or> \<not> sought
      then (if offset = of_size f then StSuccess else StIoError, [],
        FsOpen (the path) ModeRead True # (if offset > of_size f then [] else [FsSeek offset False]) @ [FsClose])
      else (StSuccess, got, [FsOpen (the path) ModeRead True, FsSeek offset True, FsRead capacity got, FsClose]))"

text \<open>\<open>placed\<close> is the outcome of the allocation of the stream object.\<close>

datatype placement = Placed | NoMemory | OtherException | NullPlaced

definition file_open_read ::
    "opened \<Rightarrow> placement \<Rightarrow> string option \<Rightarrow> file_storage \<Rightarrow> storage_status \<times> read_stream option \<times> fs_event list" where
  "file_open_read f placed path s =
     (if \<not> fst_ready s then (StNotInitialized, None, [])
      else if \<not> valid_path path then (StInvalidArgument, None, [])
      else if \<not> of_open f \<or> of_directory f then (StNotFound, None, [FsOpen (the path) ModeRead (of_open f), FsClose])
      else (case placed of
          Placed \<Rightarrow> (StSuccess, Some (open_stream (unat (of_size f))), [FsOpen (the path) ModeRead True])
        | NoMemory \<Rightarrow> (StNoSpace, None, [FsOpen (the path) ModeRead True, FsClose])
        | OtherException \<Rightarrow> (StUnknownError, None, [FsOpen (the path) ModeRead True, FsClose])
        | NullPlaced \<Rightarrow> (StNoSpace, None, [FsOpen (the path) ModeRead True])))"

definition file_write ::
    "bool \<Rightarrow> nat \<Rightarrow> string option \<Rightarrow> bytes option \<Rightarrow> nat \<Rightarrow> write_mode \<Rightarrow> file_storage
      \<Rightarrow> (storage_status \<times> fs_event list) option" where
  "file_write opens wrote path data n mode s =
     (if \<not> fst_ready s then Some (StNotInitialized, [])
      else if \<not> valid_path path \<or> (data = None \<and> n \<noteq> 0) then Some (StInvalidArgument, [])
      else
        let m = (if mode = WriteAppend then ModeAppend else ModeWrite)
        in if \<not> opens then Some (StIoError, [FsOpen (the path) m False])
           else if n = 0 then Some (StSuccess, [FsOpen (the path) m True, FsFlush, FsClose])
           else do {
             payload \<leftarrow> slice (the data) 0 n;
             Some (if wrote = n then StSuccess else StPartialWrite,
               [FsOpen (the path) m True, FsWrite payload wrote, FsFlush, FsClose])
           })"

definition file_remove :: "bool \<Rightarrow> bool \<Rightarrow> string option \<Rightarrow> file_storage \<Rightarrow> storage_status \<times> fs_event list" where
  "file_remove present removed path s =
     (if \<not> fst_ready s then (StNotInitialized, [])
      else if \<not> valid_path path then (StInvalidArgument, [])
      else if \<not> present then (StNotFound, [FsExists (the path) False])
      else (if removed then StSuccess else StIoError, [FsExists (the path) True, FsRemove (the path) removed]))"

definition file_rename ::
    "bool \<Rightarrow> bool \<Rightarrow> bool \<Rightarrow> string option \<Rightarrow> string option \<Rightarrow> file_storage \<Rightarrow> storage_status \<times> fs_event list" where
  "file_rename present taken renamed old_path new_path s =
     (if \<not> fst_ready s then (StNotInitialized, [])
      else if \<not> valid_path old_path \<or> \<not> valid_path new_path then (StInvalidArgument, [])
      else if \<not> present then (StNotFound, [FsExists (the old_path) False])
      else if taken then (StAlreadyExists, [FsExists (the old_path) True, FsExists (the new_path) True])
      else (if renamed then StSuccess else StIoError,
        [FsExists (the old_path) True, FsExists (the new_path) False, FsRename (the old_path) (the new_path) renamed]))"

definition file_create_directory :: "bool \<Rightarrow> bool \<Rightarrow> string option \<Rightarrow> file_storage \<Rightarrow> storage_status \<times> fs_event list" where
  "file_create_directory present made path s =
     (if \<not> fst_ready s then (StNotInitialized, [])
      else if \<not> valid_path path then (StInvalidArgument, [])
      else if present then (StAlreadyExists, [FsExists (the path) True])
      else (if made then StSuccess else StIoError, [FsExists (the path) False, FsMkdir (the path) made]))"

definition file_remove_directory :: "bool \<Rightarrow> bool \<Rightarrow> string option \<Rightarrow> file_storage \<Rightarrow> storage_status \<times> fs_event list" where
  "file_remove_directory present removed path s =
     (if \<not> fst_ready s then (StNotInitialized, [])
      else if \<not> valid_path path then (StInvalidArgument, [])
      else if \<not> present then (StNotFound, [FsExists (the path) False])
      else (if removed then StSuccess else StIoError, [FsExists (the path) True, FsRmdir (the path) removed]))"

text \<open>The entries a directory gives, one after another, each with the callback's answer: the loop of List.\<close>

fun list_entries :: "nat \<Rightarrow> ((string \<times> bool \<times> u64) \<times> bool) list \<Rightarrow> fs_event list" where
  "list_entries m [] = [FsNext False, FsClose]"
| "list_entries m (((path, dir, n), go) # rest) =
     FsNext True # FsCallback (copy_path m (Some path)) dir (if dir then 0 else n) go # FsClose #
       (if go then list_entries m rest else [FsClose])"

definition file_list ::
    "nat \<Rightarrow> opened \<Rightarrow> ((string \<times> bool \<times> u64) \<times> bool) list \<Rightarrow> string option \<Rightarrow> bool \<Rightarrow> file_storage
      \<Rightarrow> storage_status \<times> fs_event list" where
  "file_list m f entries path callback s =
     (if \<not> fst_ready s then (StNotInitialized, [])
      else if \<not> valid_path path \<or> \<not> callback then (StInvalidArgument, [])
      else if \<not> of_open f \<or> \<not> of_directory f then (StNotFound, [FsOpen (the path) ModeRead (of_open f)])
      else (StSuccess, FsOpen (the path) ModeRead True # list_entries m entries))"

section \<open>Back ends\<close>

text \<open>The calls of the five libraries, with the arguments the back ends give them.\<close>

datatype backend_event =
    BeginLittleFS bool bool | EndLittleFS
  | BeginSpiffs bool bool | EndSpiffs
  | BeginFFat bool bool | EndFFat
  | BeginSd u8 u32 bool | EndSd
  | BeginSdMmc string bool bool bool | EndSdMmc

record storage_statistics =
  sx_total :: u64
  sx_used :: u64
  sx_free :: u64
  sx_known :: bool

definition littlefs_initialize :: "bool \<Rightarrow> bool \<Rightarrow> file_storage \<Rightarrow> storage_status \<times> file_storage \<times> backend_event list" where
  "littlefs_initialize begun fmt s =
     (if fst_ready s then (StAlreadyInitialized, s, [])
      else if \<not> begun then (StIoError, s, [BeginLittleFS fmt False])
      else (StSuccess, s\<lparr>fst_ready := True\<rparr>, [BeginLittleFS fmt True]))"

definition littlefs_shutdown :: "file_storage \<Rightarrow> file_storage \<times> backend_event list" where
  "littlefs_shutdown s = (s\<lparr>fst_ready := False\<rparr>, if fst_ready s then [EndLittleFS] else [])"

definition littlefs_statistics :: "u64 \<Rightarrow> u64 \<Rightarrow> file_storage \<Rightarrow> storage_statistics" where
  "littlefs_statistics whole used s =
     (if \<not> fst_ready s then \<lparr>sx_total = 0, sx_used = 0, sx_free = 0, sx_known = False\<rparr>
      else \<lparr>sx_total = whole, sx_used = used, sx_free = (if whole \<ge> used then whole - used else 0), sx_known = True\<rparr>)"

definition spiffs_initialize :: "bool \<Rightarrow> bool \<Rightarrow> file_storage \<Rightarrow> storage_status \<times> file_storage \<times> backend_event list" where
  "spiffs_initialize begun fmt s =
     (if fst_ready s then (StAlreadyInitialized, s, [])
      else if \<not> begun then (StIoError, s, [BeginSpiffs fmt False])
      else (StSuccess, s\<lparr>fst_ready := True\<rparr>, [BeginSpiffs fmt True]))"

definition spiffs_shutdown :: "file_storage \<Rightarrow> file_storage \<times> backend_event list" where
  "spiffs_shutdown s = (s\<lparr>fst_ready := False\<rparr>, if fst_ready s then [EndSpiffs] else [])"

definition spiffs_statistics :: "u64 \<Rightarrow> u64 \<Rightarrow> file_storage \<Rightarrow> storage_statistics" where
  "spiffs_statistics whole used s =
     (if \<not> fst_ready s then \<lparr>sx_total = 0, sx_used = 0, sx_free = 0, sx_known = False\<rparr>
      else \<lparr>sx_total = whole, sx_used = used, sx_free = (if whole \<ge> used then whole - used else 0), sx_known = True\<rparr>)"

definition ffat_initialize :: "bool \<Rightarrow> bool \<Rightarrow> file_storage \<Rightarrow> storage_status \<times> file_storage \<times> backend_event list" where
  "ffat_initialize begun fmt s =
     (if fst_ready s then (StAlreadyInitialized, s, [])
      else if \<not> begun then (StIoError, s, [BeginFFat fmt False])
      else (StSuccess, s\<lparr>fst_ready := True\<rparr>, [BeginFFat fmt True]))"

definition ffat_shutdown :: "file_storage \<Rightarrow> file_storage \<times> backend_event list" where
  "ffat_shutdown s = (s\<lparr>fst_ready := False\<rparr>, if fst_ready s then [EndFFat] else [])"

definition ffat_statistics :: "u64 \<Rightarrow> u64 \<Rightarrow> file_storage \<Rightarrow> storage_statistics" where
  "ffat_statistics whole used s =
     (if \<not> fst_ready s then \<lparr>sx_total = 0, sx_used = 0, sx_free = 0, sx_known = False\<rparr>
      else \<lparr>sx_total = whole, sx_used = used, sx_free = (if whole \<ge> used then whole - used else 0), sx_known = True\<rparr>)"

definition sd_initialize ::
    "bool \<Rightarrow> u8 \<Rightarrow> u32 \<Rightarrow> file_storage \<Rightarrow> storage_status \<times> file_storage \<times> backend_event list" where
  "sd_initialize begun cs frequency s =
     (if fst_ready s then (StAlreadyInitialized, s, [])
      else if \<not> begun then (StIoError, s, [BeginSd cs frequency False])
      else (StSuccess, s\<lparr>fst_ready := True\<rparr>, [BeginSd cs frequency True]))"

definition sd_shutdown :: "file_storage \<Rightarrow> file_storage \<times> backend_event list" where
  "sd_shutdown s = (s\<lparr>fst_ready := False\<rparr>, if fst_ready s then [EndSd] else [])"

definition sd_statistics :: "u64 \<Rightarrow> u64 \<Rightarrow> file_storage \<Rightarrow> storage_statistics" where
  "sd_statistics whole used s =
     (if \<not> fst_ready s then \<lparr>sx_total = 0, sx_used = 0, sx_free = 0, sx_known = False\<rparr>
      else \<lparr>sx_total = whole, sx_used = used, sx_free = (if whole \<ge> used then whole - used else 0), sx_known = (whole \<noteq> 0)\<rparr>)"

definition sdmmc_initialize ::
    "bool \<Rightarrow> bool \<Rightarrow> bool \<Rightarrow> file_storage \<Rightarrow> storage_status \<times> file_storage \<times> backend_event list" where
  "sdmmc_initialize begun one_bit fmt s =
     (if fst_ready s then (StAlreadyInitialized, s, [])
      else if \<not> begun then (StIoError, s, [BeginSdMmc ''/sdcard'' one_bit fmt False])
      else (StSuccess, s\<lparr>fst_ready := True\<rparr>, [BeginSdMmc ''/sdcard'' one_bit fmt True]))"

definition sdmmc_shutdown :: "file_storage \<Rightarrow> file_storage \<times> backend_event list" where
  "sdmmc_shutdown s = (s\<lparr>fst_ready := False\<rparr>, if fst_ready s then [EndSdMmc] else [])"

definition sdmmc_statistics :: "u64 \<Rightarrow> u64 \<Rightarrow> file_storage \<Rightarrow> storage_statistics" where
  "sdmmc_statistics whole used s =
     (if \<not> fst_ready s then \<lparr>sx_total = 0, sx_used = 0, sx_free = 0, sx_known = False\<rparr>
      else \<lparr>sx_total = whole, sx_used = used, sx_free = (if whole \<ge> used then whole - used else 0), sx_known = (whole \<noteq> 0)\<rparr>)"

text \<open>What every back end promises of its capacity.\<close>

locale capacity_report =
  fixes report :: "u64 \<Rightarrow> u64 \<Rightarrow> file_storage \<Rightarrow> storage_statistics"
  assumes closed: "\<not> fst_ready s \<Longrightarrow> report whole used s = \<lparr>sx_total = 0, sx_used = 0, sx_free = 0, sx_known = False\<rparr>"
    and totals: "fst_ready s \<Longrightarrow> sx_total (report whole used s) = whole \<and> sx_used (report whole used s) = used"
    and free: "fst_ready s \<Longrightarrow> sx_free (report whole used s) = (if whole \<ge> used then whole - used else 0)"
begin

lemma free_bounded: "sx_free (report whole used s) \<le> sx_total (report whole used s)"
  using closed [of s whole used] totals [of s whole used] free [of s whole used]
  by (cases "fst_ready s") (auto simp: word_le_nat_alt unat_sub)

lemma free_exact:
  "sx_used (report whole used s) \<le> sx_total (report whole used s) \<Longrightarrow>
     unat (sx_free (report whole used s)) + unat (sx_used (report whole used s)) = unat (sx_total (report whole used s))"
  using closed [of s whole used] totals [of s whole used] free [of s whole used]
  by (cases "fst_ready s") (auto simp: word_le_nat_alt unat_sub)

end

interpretation littlefs_capacity: capacity_report littlefs_statistics
  by unfold_locales (auto simp: littlefs_statistics_def)
interpretation spiffs_capacity: capacity_report spiffs_statistics
  by unfold_locales (auto simp: spiffs_statistics_def)
interpretation ffat_capacity: capacity_report ffat_statistics
  by unfold_locales (auto simp: ffat_statistics_def)
interpretation sd_capacity: capacity_report sd_statistics
  by unfold_locales (auto simp: sd_statistics_def)
interpretation sdmmc_capacity: capacity_report sdmmc_statistics
  by unfold_locales (auto simp: sdmmc_statistics_def)

section \<open>Reading a file to its end\<close>

text \<open>
  A file is its content with the position of its own, which \<open>File::read\<close> advances: it writes
  some of the bytes that follow, as many as are there, as it was asked for, and as it happens to
  have at hand (\<open>most\<close>), to the front of the caller's buffer, and returns their number. A buffer that is
  too short for them is written past its end, and the model yields \<open>None\<close>.
\<close>

definition read_into ::
    "bytes \<Rightarrow> nat \<Rightarrow> bytes \<Rightarrow> nat \<times> read_stream \<Rightarrow> ((storage_status \<times> nat \<times> bytes) \<times> nat \<times> read_stream) option"
  where
  "read_into content most buffer f = (case f of (at, s) \<Rightarrow>
     (case stream_request True (length buffer) s of
        None \<Rightarrow> (case stream_read [] True (length buffer) s of
            (st, data, s1) \<Rightarrow> Some ((st, length data, buffer), at, s1))
      | Some n \<Rightarrow>
          let got = take (min most n) (drop at content) in do {
            buffer' \<leftarrow> blit buffer 0 got;
            (case stream_read got True (length buffer) s of
               (st, data, s1) \<Rightarrow> Some ((st, length data, buffer'), at + length got, s1))
          }))"

fun stream_run ::
    "bytes \<Rightarrow> (nat \<times> bytes) list \<Rightarrow> nat \<times> read_stream
      \<Rightarrow> ((storage_status \<times> nat \<times> bytes) list \<times> nat \<times> read_stream) option" where
  "stream_run content [] f = Some ([], f)"
| "stream_run content ((most, buffer) # reads) f = do {
     (r, f1) \<leftarrow> read_into content most buffer f;
     (rs, f2) \<leftarrow> stream_run content reads f1;
     Some (r # rs, f2)
   }"

text \<open>What reading should give: each buffer the next portion of what is left, as much as there is, as
  fits and as the file gives.\<close>

definition portion :: "nat \<Rightarrow> bytes \<Rightarrow> bytes \<Rightarrow> nat" where
  "portion most buffer left = min most (min (length buffer) (length left))"

fun portions :: "bytes \<Rightarrow> (nat \<times> bytes) list \<Rightarrow> (storage_status \<times> nat \<times> bytes) list" where
  "portions left [] = []"
| "portions left ((most, buffer) # reads) =
     (let n = portion most buffer left
      in (if n = 0 \<and> buffer \<noteq> [] \<and> left \<noteq> [] then StIoError else StSuccess, n,
          take n left @ drop n buffer) # portions (drop n left) reads)"

definition read_bytes :: "(storage_status \<times> nat \<times> bytes) list \<Rightarrow> bytes" where
  "read_bytes rs = concat (map (\<lambda>(st, n, buffer). take n buffer) rs)"

definition at_position :: "bytes \<Rightarrow> nat \<times> read_stream \<Rightarrow> bool" where
  "at_position content f \<longleftrightarrow> rs_size (snd f) = length content \<and> rs_position (snd f) = fst f \<and>
     fst f \<le> length content"

lemma read_into_portion:
  fixes most :: nat and buffer :: bytes
  assumes "at_position content f"
  defines "n \<equiv> portion most buffer (drop (fst f) content)"
  shows "read_into content most buffer f =
    Some ((if n = 0 \<and> buffer \<noteq> [] \<and> drop (fst f) content \<noteq> [] then StIoError else StSuccess, n,
        take n (drop (fst f) content) @ drop n buffer),
      fst f + n, (snd f)\<lparr>rs_position := fst f + n\<rparr>)"
proof -
  obtain a s where f: "f = (a, s)" "rs_size s = length content" "rs_position s = a" "a \<le> length content"
    using assms(1) by (cases f) (auto simp: at_position_def)
  have same: "s\<lparr>rs_position := a\<rparr> = s" using f(3) by (cases s) auto
  show ?thesis
  proof (cases "buffer = [] \<or> a = length content")
    case True
    then have "n = 0" using f by (auto simp: n_def portion_def)
    moreover have "stream_request True (length buffer) s = None"
      using True f by (auto simp: stream_request_def)
    ultimately show ?thesis using True f same by (auto simp: read_into_def stream_read_def)
  next
    case False
    then have req: "stream_request True (length buffer) s = Some (min (length buffer) (length content - a))"
      using f by (auto simp: stream_request_def Let_def)
    have n: "n = min most (min (length buffer) (length content - a))" by (simp add: n_def portion_def f)
    have "blit buffer 0 (take n (drop a content)) = Some (take n (drop a content) @ drop n buffer)"
      using f(4) by (simp add: blit_def n min_def)
    moreover have "length (take n (drop a content)) = n" by (simp add: n)
    moreover have "take n (drop a content) = [] \<longleftrightarrow> n = 0" using False f(4) by auto
    moreover have "n = 0 \<longleftrightarrow> most = 0" using False f(4) by (auto simp: n min_def)
    ultimately show ?thesis
      using False f same req n [symmetric] by (auto simp: read_into_def stream_read_def Let_def)
  qed
qed

lemma stream_run_portions:
  "at_position content f \<Longrightarrow>
     \<exists>a s. stream_run content reads f = Some (portions (drop (fst f) content) reads, a, s) \<and>
       at_position content (a, s) \<and> fst f \<le> a \<and>
       read_bytes (portions (drop (fst f) content) reads) = take (a - fst f) (drop (fst f) content) \<and>
       min (length content) (fst f + length (filter (\<lambda>(most, buffer). 0 < most \<and> buffer \<noteq> []) reads)) \<le> a"
proof (induction reads arbitrary: f)
  case (Cons r reads)
  obtain most buffer where r: "r = (most, buffer)" by (cases r)
  define n where "n = portion most buffer (drop (fst f) content)"
  define f1 where "f1 = (fst f + n, (snd f)\<lparr>rs_position := fst f + n\<rparr>)"
  have n: "n \<le> length content - fst f" "n \<le> length buffer"
    "0 < most \<Longrightarrow> buffer \<noteq> [] \<Longrightarrow> fst f < length content \<Longrightarrow> 1 \<le> n"
    by (auto simp: n_def portion_def Suc_le_eq)
  have f1: "at_position content f1"
    using Cons.prems n(1) by (auto simp: at_position_def f1_def)
  note one = read_into_portion [OF Cons.prems, of most buffer, folded n_def, folded f1_def]
  obtain a s where IH: "stream_run content reads f1 = Some (portions (drop (fst f1) content) reads, a, s)"
    "at_position content (a, s)" "fst f1 \<le> a"
    "read_bytes (portions (drop (fst f1) content) reads) = take (a - fst f1) (drop (fst f1) content)"
    "min (length content) (fst f1 + length (filter (\<lambda>(most, buffer). 0 < most \<and> buffer \<noteq> []) reads)) \<le> a"
    using Cons.IH [OF f1] by auto
  have d: "drop n (drop (fst f) content) = drop (fst f1) content" by (simp add: f1_def add.commute)
  have "a - fst f = n + (a - fst f1)" "drop (fst f1) content = drop n (drop (fst f) content)"
    using IH(3) d by (simp_all add: f1_def)
  then have "take n (drop (fst f) content) @ take (a - fst f1) (drop (fst f1) content) =
      take (a - fst f) (drop (fst f) content)"
    by (simp only: take_add)
  moreover have "length (take n (drop (fst f) content)) = n" using n(1) by simp
  moreover have "min (length content)
      (fst f + length (filter (\<lambda>(most, buffer). 0 < most \<and> buffer \<noteq> []) (r # reads))) \<le> a"
    using IH(3,5) n(3) r by (cases "fst f < length content") (auto simp: f1_def min_def split: if_splits)
  ultimately show ?case
    using r one IH d n(1,2) Cons.prems
    by (intro exI [of _ a] exI [of _ s])
      (auto simp: n_def [symmetric] Let_def read_bytes_def at_position_def f1_def)
qed (auto simp: read_bytes_def)

text \<open>C40: Reading a file that stays as it is through its stream, with buffers of any size, however few
  of the bytes asked for the file gives at a time, and also when it fails and gives none: nothing is
  written past a buffer, each read fills its buffer from the front with the next portion of the
  file (as much as is left, fits and is given) and leaves the rest of it alone, and reports an error
  exactly when it got nothing although bytes are left and there was room. So what was read is
  the file's beginning up to the position; and as soon as as many reads into a buffer with room have
  got a byte or more as the file has bytes, that is the whole file, and every further read ends
  with success and nothing.\<close>

theorem stream_reads_whole_file:
  "\<exists>s. stream_run content reads (0, open_stream (length content)) =
      Some (portions content reads, rs_position s, s) \<and>
    rs_position s \<le> length content \<and>
    read_bytes (portions content reads) = take (rs_position s) content \<and>
    (length content \<le> length (filter (\<lambda>(most, buffer). 0 < most \<and> buffer \<noteq> []) reads) \<longrightarrow>
      read_bytes (portions content reads) = content \<and>
      (\<forall>most buffer. read_into content most buffer (rs_position s, s) =
         Some ((StSuccess, 0, buffer), rs_position s, s)))"
proof -
  have "at_position content (0, open_stream (length content))"
    by (simp add: at_position_def open_stream_def)
  from stream_run_portions [OF this, of reads] obtain a s where run:
    "stream_run content reads (0, open_stream (length content)) = Some (portions content reads, a, s)"
    "at_position content (a, s)" "read_bytes (portions content reads) = take a content"
    "min (length content) (length (filter (\<lambda>(most, buffer). 0 < most \<and> buffer \<noteq> []) reads)) \<le> a"
    by auto
  have a: "a = rs_position s" "a \<le> length content" "rs_size s = length content"
    using run(2) by (simp_all add: at_position_def)
  have "s\<lparr>rs_position := a\<rparr> = s" using a(1) by (cases s) simp
  then have "read_into content most buffer (a, s) = Some ((StSuccess, 0, buffer), a, s)"
    if "a = length content" for most buffer
    using read_into_portion [OF run(2), of most buffer] that by (simp add: portion_def)
  then show ?thesis using run(1,3,4) a by (intro exI [of _ s]) auto
qed

lemma stream_reads_whole_file_witness:
  "\<exists>s. stream_run [1, 2, 3] [(1, [7, 7]), (9, []), (0, [7]), (9, [7]), (9, [7, 7])] (0, open_stream 3) =
      Some ([(StSuccess, 1, [1, 7]), (StSuccess, 0, []), (StIoError, 0, [7]), (StSuccess, 1, [2]),
        (StSuccess, 1, [3, 7])], 3, s) \<and>
    (\<forall>most buffer. read_into [1, 2, 3] most buffer (3, s) = Some ((StSuccess, 0, buffer), 3, s))"
proof -
  have three: "length [1, 2, 3 :: u8] = 3" by (simp add: eval_nat_numeral)
  from stream_reads_whole_file [of "[1, 2, 3]"
      "[(1, [7, 7]), (9, []), (0, [7]), (9, [7]), (9, [7, 7])]", unfolded three]
  obtain s where s: "stream_run [1, 2, 3] [(1, [7, 7]), (9, []), (0, [7]), (9, [7]), (9, [7, 7])] (0, open_stream 3) =
      Some ([(StSuccess, 1, [1, 7]), (StSuccess, 0, []), (StIoError, 0, [7]), (StSuccess, 1, [2]),
        (StSuccess, 1, [3, 7])], rs_position s, s)"
    "read_bytes [(StSuccess, 1, [1, 7]), (StSuccess, 0, []), (StIoError, 0, [7]), (StSuccess, 1, [2]),
        (StSuccess, 1, [3, 7])] = take (rs_position s) [1, 2, 3]" "rs_position s \<le> 3"
    "\<forall>most buffer. read_into [1, 2, 3] most buffer (rs_position s, s) =
         Some ((StSuccess, 0, buffer), rs_position s, s)"
    by (auto simp: portion_def)
  have "take (rs_position s) [1, 2, 3] = [1, 2, 3 :: u8]" using s(2) by (simp add: read_bytes_def)
  then have "3 \<le> rs_position s" by (metis length_take min.cobounded2 three)
  then have "rs_position s = 3" using s(3) by simp
  then show ?thesis using s(1,4) by auto
qed

text \<open>A file that ends before the size it had when opened is an error, not an endless loop.\<close>

lemma stream_read_truncated:
  "0 < capacity \<Longrightarrow> rs_position s < rs_size s \<Longrightarrow> stream_read [] True capacity s = (StIoError, [], s)"
  by (simp add: stream_read_def stream_request_def Let_def)

section \<open>Writing\<close>

text \<open>The content of a file after the calls of a write, by what opening for writing and for appending mean.\<close>

fun content_after :: "fs_event list \<Rightarrow> bytes option \<Rightarrow> bytes option" where
  "content_after [] c = c"
| "content_after (FsOpen p ModeWrite True # es) c = content_after es (Some [])"
| "content_after (FsOpen p ModeAppend True # es) c = content_after es (Some (case c of None \<Rightarrow> [] | Some d \<Rightarrow> d))"
| "content_after (FsWrite d n # es) c = content_after es (map_option (\<lambda>old. old @ take n d) c)"
| "content_after (e # es) c = content_after es c"

text \<open>What Write leaves in the file: after success exactly the data (Replace) or the old content and the
  data (Append), after a refusal to open the old content. A write that goes short has, for Replace,
  already destroyed the old content and leaves a part of the new, although the storage lists
  AtomicReplace among its capabilities.\<close>

theorem file_write_outcome:
  assumes "file_write opens wrote path (Some data) (length data) mode s = Some (st, es)"
    and "fst_ready s" "valid_path path" "wrote \<le> length data"
  shows "st = (if \<not> opens then StIoError else if data = [] \<or> wrote = length data then StSuccess else StPartialWrite) \<and>
    content_after es old =
      (if st = StIoError then old
       else if mode = WriteReplace then Some (take wrote data)
       else Some ((case old of None \<Rightarrow> [] | Some d \<Rightarrow> d) @ take wrote data)) \<and>
    ''AtomicReplace'' \<in> file_capabilities s"
  using assms
  by (cases mode) (auto simp: file_write_def file_capabilities_def Let_def split: if_splits option.splits)

lemma file_write_outcome_witness:
  "case file_write True 1 (Some ''/f'') (Some [1, 2]) 2 WriteReplace \<lparr>fst_ready = True, fst_capabilities = {}\<rparr> of
     None \<Rightarrow> False
   | Some (st, es) \<Rightarrow> st = StPartialWrite \<and> content_after es (Some [9, 9, 9]) = Some [1]"
proof -
  have two: "length [1, 2 :: u8] = 2" by (simp add: eval_nat_numeral)
  obtain st es where w: "file_write True 1 (Some ''/f'') (Some [1, 2]) 2 WriteReplace
      \<lparr>fst_ready = True, fst_capabilities = {}\<rparr> = Some (st, es)"
    by (simp add: file_write_def valid_path_def c_string_def Let_def)
  have "st = StPartialWrite \<and> content_after es (Some [9, 9, 9]) = Some [1]"
    using file_write_outcome [of _ _ _ "[1, 2]", unfolded two, OF w, of "Some [9, 9, 9]"]
    by (simp add: valid_path_def c_string_def)
  then show ?thesis by (simp only: w option.case prod.case)
qed

section \<open>Preferences\<close>

record preferences =
  pf_namespace :: string
  pf_read_only :: bool
  pf_ready :: bool

datatype preferences_event =
    PfBegin string bool bool
  | PfEnd
  | PfIsKey string bool
  | PfLength string nat
  | PfGet string nat bytes
  | PfPut string bytes nat
  | PfRemove string bool
  | PfClear bool

definition preferences_new :: "string option \<Rightarrow> bool \<Rightarrow> preferences" where
  "preferences_new name read_only =
     \<lparr>pf_namespace = (case name of None \<Rightarrow> [] | Some n \<Rightarrow> c_string n), pf_read_only = read_only, pf_ready = False\<rparr>"

definition preferences_valid_key :: "string option \<Rightarrow> bool" where
  "preferences_valid_key k = (case k of None \<Rightarrow> False | Some s \<Rightarrow> c_string s \<noteq> [] \<and> length (c_string s) \<le> 15)"

definition preferences_initialize :: "bool \<Rightarrow> preferences \<Rightarrow> storage_status \<times> preferences \<times> preferences_event list" where
  "preferences_initialize begun s =
     (if pf_ready s then (StAlreadyInitialized, s, [])
      else if pf_namespace s = [] \<or> length (pf_namespace s) > 15 then (StInvalidArgument, s, [])
      else if \<not> begun then (StIoError, s, [PfBegin (pf_namespace s) (pf_read_only s) False])
      else (StSuccess, s\<lparr>pf_ready := True\<rparr>, [PfBegin (pf_namespace s) (pf_read_only s) True]))"

definition preferences_shutdown :: "preferences \<Rightarrow> preferences \<times> preferences_event list" where
  "preferences_shutdown s = (s\<lparr>pf_ready := False\<rparr>, if pf_ready s then [PfEnd] else [])"

definition preferences_contains ::
    "bool \<Rightarrow> string option \<Rightarrow> preferences \<Rightarrow> storage_status \<times> bool option \<times> preferences_event list" where
  "preferences_contains is_key k s =
     (if \<not> pf_ready s then (StNotInitialized, None, [])
      else if \<not> preferences_valid_key k then (StInvalidArgument, None, [])
      else (StSuccess, Some is_key, [PfIsKey (the k) is_key]))"

definition preferences_get_size ::
    "bool \<Rightarrow> nat \<Rightarrow> string option \<Rightarrow> preferences \<Rightarrow> storage_status \<times> nat \<times> preferences_event list" where
  "preferences_get_size is_key len k s =
     (if \<not> pf_ready s then (StNotInitialized, 0, [])
      else if \<not> preferences_valid_key k then (StInvalidArgument, 0, [])
      else if \<not> is_key then (StNotFound, 0, [PfIsKey (the k) False])
      else (StSuccess, len, [PfIsKey (the k) True, PfLength (the k) len]))"

definition preferences_read ::
    "bool \<Rightarrow> nat \<Rightarrow> bytes \<Rightarrow> string option \<Rightarrow> bool \<Rightarrow> nat \<Rightarrow> preferences
      \<Rightarrow> storage_status \<times> bytes \<times> preferences_event list" where
  "preferences_read is_key required got k buffer capacity s =
     (if \<not> pf_ready s then (StNotInitialized, [], [])
      else if \<not> preferences_valid_key k \<or> (\<not> buffer \<and> capacity \<noteq> 0) then (StInvalidArgument, [], [])
      else if required = 0 \<and> \<not> is_key then (StNotFound, [], [PfLength (the k) 0, PfIsKey (the k) False])
      else
        let es = PfLength (the k) required # (if required = 0 then [PfIsKey (the k) True] else [])
        in if capacity < required then (StNoSpace, [], es)
           else if required = 0 then (StSuccess, [], es)
           else (if length got = required then StSuccess else StIoError, got, es @ [PfGet (the k) capacity got]))"

definition preferences_write ::
    "nat \<Rightarrow> string option \<Rightarrow> bytes option \<Rightarrow> nat \<Rightarrow> preferences \<Rightarrow> (storage_status \<times> preferences_event list) option" where
  "preferences_write put k data n s =
     (if \<not> pf_ready s then Some (StNotInitialized, [])
      else if pf_read_only s then Some (StPermissionDenied, [])
      else if \<not> preferences_valid_key k \<or> (data = None \<and> n \<noteq> 0) then Some (StInvalidArgument, [])
      else do {
        payload \<leftarrow> slice (case data of None \<Rightarrow> [] | Some d \<Rightarrow> d) 0 n;
        Some (if put = n then StSuccess else StPartialWrite, [PfPut (the k) payload put])
      })"

definition preferences_remove ::
    "bool \<Rightarrow> bool \<Rightarrow> string option \<Rightarrow> preferences \<Rightarrow> storage_status \<times> preferences_event list" where
  "preferences_remove is_key removed k s =
     (if \<not> pf_ready s then (StNotInitialized, [])
      else if pf_read_only s then (StPermissionDenied, [])
      else if \<not> preferences_valid_key k then (StInvalidArgument, [])
      else if \<not> is_key then (StNotFound, [PfIsKey (the k) False])
      else (if removed then StSuccess else StIoError, [PfIsKey (the k) True, PfRemove (the k) removed]))"

definition preferences_clear :: "bool \<Rightarrow> preferences \<Rightarrow> storage_status \<times> preferences_event list" where
  "preferences_clear cleared s =
     (if \<not> pf_ready s then (StNotInitialized, [])
      else if pf_read_only s then (StPermissionDenied, [])
      else (if cleared then StSuccess else StIoError, [PfClear cleared]))"

text \<open>A storage opened for reading changes nothing.\<close>

fun changes :: "preferences_event \<Rightarrow> bool" where
  "changes (PfPut k d n) = True"
| "changes (PfRemove k r) = True"
| "changes (PfClear r) = True"
| "changes e = False"

lemma preferences_read_only:
  assumes "pf_read_only s"
  shows "\<not> list_ex changes (snd (the (preferences_write put k data n s)))"
    and "\<not> list_ex changes (snd (preferences_remove is_key removed k s))"
    and "\<not> list_ex changes (snd (preferences_clear cleared s))"
  using assms by (auto simp: preferences_write_def preferences_remove_def preferences_clear_def)

text \<open>Writing nothing succeeds when the library, as it documents for an empty value, stores nothing and
  answers 0: the key then still has its old value.\<close>

lemma preferences_empty_write:
  "pf_ready s \<Longrightarrow> \<not> pf_read_only s \<Longrightarrow> preferences_valid_key k \<Longrightarrow>
     map_option fst (preferences_write 0 k (Some d) 0 s) = Some StSuccess"
  by (simp add: preferences_write_def)

end
