(* ===== verification/Spec2Isabelle.thy ===== *)
theory Spec2Isabelle
  imports Dns_Server Raw_Radio WiFi_Platform Ws_Client Tcp_Server_Transport Mqtt_Transport Udp_Transport
    System_Providers Gpio File_Storage
begin

text \<open>
  A verification development for ESPressio-ESP32, the header-only C++ library that puts the
  contracts of the ESPressio packages (System, Web, Sockets, Radio, Persistence) on the ESP32:
  Arduino core, ESP-IDF, FreeRTOS and lwIP below, the portable interfaces above. Every component
  is a header in src/src/, named below without its path and its \<open>ESPressio_\<close> prefix.

  \<^bold>\<open>The program and how its parts interact.\<close> Most components stand alone on a native library
  and share only result types. Where they do touch:

  \<^item> The WebSocket endpoint (WebSocketEndpointPlatform.hpp) is a client of the HTTP server
    (HttpServerPlatform.hpp): \<open>Bind\<close> and \<open>Unbind\<close> enter and release a binding in the server's
    registry, and the server calls the endpoint's request handler on its connections. The locale
    \<open>binding_registry\<close> is what the endpoint relies on; \<open>http_registry\<close> interprets it on the
    server's \<open>add_binding\<close> and \<open>release_binding\<close>, and Ws_Endpoint composes the two.
  \<^item> The DNS server (DnsServerPlatform.hpp) hands the application a response object over a packet
    buffer; the locale \<open>response_builder\<close>, interpreted as \<open>dns_builder\<close>, relates the buffer to an
    abstract response, and the datagram handler is proved with it.
  \<^item> The radio (Raw80211Radio.hpp) shares one callback instance among all its objects and passes
    frames from the Wi-Fi callback to the application through a ring; the locale \<open>bounded_fifo\<close>,
    interpreted as \<open>rx_ring\<close>, says what the ring promises.
  \<^item> The stream transports (TCPClientEventTransport.hpp, TLSEventTransport.hpp) have the same read
    loop and, with MQTTEventTransport.hpp, the same pacing of reconnects: the locale
    \<open>reconnecting\<close>, interpreted as \<open>tcp_pace\<close>, \<open>tls_pace\<close> and \<open>mqtt_pace\<close>.
  \<^item> The five file systems differ in how they start and report; all meet \<open>capacity_report\<close>.
  \<^item> The translations of native errors into results meet \<open>error_translation\<close>: a result is a
    success exactly when the native call was one.

  \<^bold>\<open>How the code is modelled.\<close>

  \<^item> A class is a record of its members, an operation a function from the state (and its arguments)
    to the result, the new state and the calls made. Enumerations are datatypes with the
    enumerators the sources name; widths are those of the code (\<open>u8\<close> to \<open>u64\<close>, \<open>size32\<close> for the
    \<open>size_t\<close> of the ESP32), with the wrap-around that follows.
  \<^item> What the native libraries answer is a parameter: a record of answers (an environment) or an
    argument of the operation. What the code calls is recorded as a list of events in the order of
    the calls, so that resources (control blocks, packet buffers, native clients, handlers, blocks
    of memory) can be counted. Laws of a parameter are named hypotheses
    (\<open>address_laws\<close>, \<open>header_api_laws\<close>, \<open>env_ok\<close>, \<open>never_over\<close>,
    \<open>only_subscribed\<close>), each met by a concrete instance in the
    witnesses.
  \<^item> An access to a byte array is checked and yields \<open>None\<close> out of bounds (Prelude). A theorem that
    gives \<open>Some\<close> says that no access was out of bounds.
  \<^item> Errors are values: \<open>platform_result\<close> and \<open>web_result\<close> with their statuses, \<open>storage_status\<close>,
    and the native error kept beside them where the code keeps it.
  \<^item> A loop over what a library hands out (bytes read, messages, frames, directory entries) is a
    recursion on the list of its answers. The other loops terminate by a measure:
    \<open>decode_name_loop\<close> (pointers left, then bytes left), \<open>send_raw\<close> and \<open>decimal\<close>,
    \<open>find_destination\<close> and \<open>shift_down\<close> (slots left). No definition uses fuel.
  \<^item> Histories are inductive: \<open>dns_reach\<close>, \<open>radio_reach\<close>, \<open>wifi_reach\<close>, \<open>exchange_reach\<close>,
    \<open>http_reach\<close>, \<open>ws_reach\<close>, \<open>ep_reach\<close> and \<open>client_reach\<close>, or runs of a command list for the
    transports, the memory provider, the GPIO controller, the counter and files. Where the code
    runs under a lock in several sections, the sections are the steps, and steps of other
    threads come between them (HTTP server, WebSocket client).

  \<^bold>\<open>Theories, in the order of imports.\<close>

  \<^item> Prelude: machine integers, checked accesses, C strings, lemmas on lists.
  \<^item> Platform_Types: error codes and results; \<open>PlatformResultFromEspError\<close> and the translations
    into \<open>WebResult\<close>.
  \<^item> Dns_Wire, Dns_Response, Dns_Server (DnsServerPlatform.hpp): the wire readers and writers and
    \<open>DecodeDnsName\<close> against a grammar of compressed names that is proved unambiguous; the response
    builder refined to an abstract response; the lifecycle and \<open>ReceivePacket\<close> with the balance of
    control blocks and buffers.
  \<^item> Bounded_Fifo, Raw_Radio (Raw80211Radio.hpp): rings as queues; frames, the ring, delivery, the
    receive time across the wrap of the 32-bit hardware clock, \<open>Start\<close> and \<open>Stop\<close>.
  \<^item> WiFi_Platform (WiFiPlatform.hpp, WiFiRadio.hpp): all operations, \<open>Poll\<close> with the reconnect
    machine, revisions and events, radio policy and fingerprints.
  \<^item> Http_Message, Http_Server (HttpServerPlatform.hpp): request and response on the native
    server, with the bytes that reach the connection; the lifecycle and the registry of bindings.
  \<^item> Ws_Endpoint (WebSocketEndpointPlatform.hpp): connections, fragments, sessions, broadcasts,
    binding.
  \<^item> Ws_Client (WebSocketClientPlatform.hpp): policy, credentials, headers, the pieces of a message,
    \<open>Connect\<close> and \<open>Disconnect\<close> interleaved with events of the native task.
  \<^item> Event_Transport, Tcp_Server_Transport, Mqtt_Transport, Udp_Transport: the transports
    (TCPClient-, TLS-, TCPServer-, MQTT- and UDPEventTransport.hpp).
  \<^item> Memory_Provider (MemoryProvider.hpp), System_Providers (ClockProvider.hpp, QueueProvider.hpp,
    SynchronizationProvider.hpp, ExecutionProvider.hpp, EntropyProvider.hpp,
    ArduinoByteStream.hpp), Gpio (IDFGPIOProvider.hpp, ArduinoGPIOProvider.hpp), File_Storage
    (FileStorageBase.hpp with its five back ends, PreferencesStorage.hpp).

  \<^bold>\<open>What the lemmas show.\<close> Each theory ends its groups of definitions with the properties of
  its component, numbered C1 to C40. In the order of the components:

  \<^item> DNS: a name is decoded exactly when the grammar spells it, within 8 pointers and 253 bytes;
    what is written is read back; the packet is always the encoding of the answers accepted, never
    over 512 bytes; every datagram is handed on, answered with a
    format error or dropped as its contents ask, and its buffer freed once;
    control blocks are balanced over every history without a refused stop, and a refused stop
    leaks one.
  \<^item> Radio: which frames enter the ring and what is kept of them; what is sent is received; the
    receiver sees the frames in order, none twice, while frames arrive and while it calls back;
    one started object at a time, the one the driver calls; the 64-bit time of a frame for every
    clock, with the underflow in the first 36 minutes.
  \<^item> Wi-Fi: a lost connection is retried on time (over the wrap of the clock) and only once,
    so the backoff is never reached while the status is steady within an operation, and a deadline
    that falls on zero is lost; every change of the state is announced by the revision, stations come and go
    exactly as the driver lists them while the access point is up.
  \<^item> HTTP: one native server at most and every binding it can call retained; until a send fails
    the head and the very bytes written are what is sent, within the declared length; the head is read back as written when no value holds a line break, and an
    injected header otherwise.
  \<^item> WebSocket: reassembly is concatenation of the fragments within the bound; a connection is
    announced while unknown and ended while known, with its messages in between; an endpoint is bound exactly when the
    server retains it. For the client: the pieces of a message concatenate, the headers are
    exactly those asked for, no credential bytes are held without a native client, and the beginning
    and end of connections are announced in turn while none comes up during a Disconnect.
  \<^item> Transports: what is handed on is what the decoder finds in the bytes of one connection, never
    across two; the TLS client is the TCP client with its security calls; attempts keep their
    distance; UDP destinations are a bounded set in order of addition; an MQTT subscription
    that failed is never repeated, and nothing is received while everything can be sent.
  \<^item> Providers: statistics count what was asked and what was refused; no handler outlives its
    interrupt object, and all are served on the core asked for; a counter without a timer is
    neither enabled nor running; a stream read in portions never passes the end of a buffer and gives the file, then the end.

  \<^bold>\<open>Bounds.\<close> All bounds are those of the code: 8 pointers, 253 bytes of a name and 512 of a DNS
  packet; ring slots as \<open>rx_queue_depth\<close>, one of which stays free; the configured maximal message,
  header and destination counts, which are record fields. Nothing else is bounded.

  \<^bold>\<open>Not modelled.\<close>

  \<^item> ESP32.hpp, ESP32SocketTransports.hpp and PersistenceBackends.hpp (includes, and the seven
    \<open>Install\<close> calls in a row), the singletons behind them, examples and build files.
  \<^item> What FreeRTOS, ESP-IDF, lwIP, Arduino, PubSubClient and the other ESPressio packages do
    inside: their answers are parameters, and of queues, semaphores and tasks the model keeps the
    calls made.
  \<^item> Interleaving inside a handler that takes no lock, and the memory order of the atomics. A worker
    iteration of a transport is one step with the deliveries at its end.
  \<^item> The rounding of \<open>std::pow\<close> in the backoff, which the model computes exactly; the detail texts
    of activities; values of an enumeration outside its enumerators.
  \<^item> \<open>ArduinoByteInput\<close> and \<open>ArduinoByteOutput\<close>, which repeat the bodies of \<open>ArduinoByteStream\<close>.
\<close>

end
